(* ===== verification/Mesh_Prelude.thy ===== *)
theory Mesh_Prelude
  imports Complex_Main "HOL-Library.Word" "HOL-Library.Multiset"
begin

text \<open>
  The vocabulary shared by every component of the mesh generator's model.

  \<^item> The outcome of a call that may stop the program: \<open>fault\<close> names how the C++ code stops
    (a call of \<open>exit\<close>, a dereference of an empty optional, an access outside an array, a read of
    a field no constructor initialises, a floating-point division by zero), \<open>'a res\<close> is a fault
    or a value and \<open>bindR\<close> runs one call after another.
  \<^item> The C conversions the sources use: \<open>trunc_to_int\<close> is the cast of a double to an integer
    type (toward zero), \<open>c_div\<close> and \<open>c_mod\<close> are the integer division and remainder of C.
  \<^item> \<open>find_if\<close> is \<open>std::find_if\<close> on a vector, as an index that is the vector's length when no
    element satisfies the predicate.

  A C++ double is a HOL real throughout: its operations are exact, so nothing here speaks about
  rounding, infinities or NaN. Where the code divides by a number that can be zero the model has
  a fault instead of HOL's \<open>x / 0 = 0\<close>.
\<close>

named_theorems res_simps \<open>unfolding rules for calls that may fault\<close>

datatype fault =
    Exit nat
  | BadOptional
  | BadIterator
  | OutOfBounds
  | Uninitialised
  | DivByZero
  | AssertFail

type_synonym 'a res = "fault + 'a"

definition bindR :: "'a res \<Rightarrow> ('a \<Rightarrow> 'b res) \<Rightarrow> 'b res" where
  "bindR m k = (case m of Inl f \<Rightarrow> Inl f | Inr x \<Rightarrow> k x)"

definition mapR :: "('a \<Rightarrow> 'b) \<Rightarrow> 'a res \<Rightarrow> 'b res" where
  "mapR h m = bindR m (\<lambda>x. Inr (h x))"

definition get_opt :: "'a option \<Rightarrow> 'a res" where
  "get_opt m = (case m of None \<Rightarrow> Inl BadOptional | Some x \<Rightarrow> Inr x)"

definition get_init :: "'a option \<Rightarrow> 'a res" where
  "get_init m = (case m of None \<Rightarrow> Inl Uninitialised | Some x \<Rightarrow> Inr x)"

definition get_at :: "'a list \<Rightarrow> int \<Rightarrow> 'a res" where
  "get_at xs i = (if 0 \<le> i \<and> i < int (length xs) then Inr (xs ! nat i) else Inl OutOfBounds)"

definition div_d :: "real \<Rightarrow> real \<Rightarrow> real res" where
  "div_d x y = (if y = 0 then Inl DivByZero else Inr (x / y))"

lemma bindR_simps [simp, res_simps]:
  "bindR (Inl f) k = Inl f"
  "bindR (Inr x) k = k x"
  by (simp_all add: bindR_def)

lemma bindR_Inr_iff: "bindR m k = Inr y \<longleftrightarrow> (\<exists>x. m = Inr x \<and> k x = Inr y)"
  by (cases m) auto

lemma bindR_Inl_iff: "bindR m k = Inl f \<longleftrightarrow> m = Inl f \<or> (\<exists>x. m = Inr x \<and> k x = Inl f)"
  by (cases m) auto

lemma bindR_assoc: "bindR (bindR m k) h = bindR m (\<lambda>x. bindR (k x) h)"
  by (cases m) auto

lemma mapR_simps [simp, res_simps]:
  "mapR h (Inl f) = Inl f"
  "mapR h (Inr x) = Inr (h x)"
  by (simp_all add: mapR_def)

lemma get_opt_simps [simp, res_simps]:
  "get_opt None = Inl BadOptional"
  "get_opt (Some x) = Inr x"
  by (simp_all add: get_opt_def)

lemma get_init_simps [simp, res_simps]:
  "get_init None = Inl Uninitialised"
  "get_init (Some x) = Inr x"
  by (simp_all add: get_init_def)

lemma get_at_in [simp, res_simps]:
  "0 \<le> i \<Longrightarrow> i < int (length xs) \<Longrightarrow> get_at xs i = Inr (xs ! nat i)"
  by (simp add: get_at_def)

lemma div_d_nonzero [simp, res_simps]: "y \<noteq> 0 \<Longrightarrow> div_d x y = Inr (x / y)"
  by (simp add: div_d_def)

subsection \<open>Conversions between C number types\<close>

definition trunc_to_int :: "real \<Rightarrow> int" where
  "trunc_to_int x = (if x < 0 then \<lceil>x\<rceil> else \<lfloor>x\<rfloor>)"

definition c_div :: "int \<Rightarrow> int \<Rightarrow> int" where
  "c_div a b = sgn a * sgn b * (\<bar>a\<bar> div \<bar>b\<bar>)"

definition c_mod :: "int \<Rightarrow> int \<Rightarrow> int" where
  "c_mod a b = a - c_div a b * b"

lemma trunc_to_int_nonneg: "0 \<le> x \<Longrightarrow> trunc_to_int x = \<lfloor>x\<rfloor>"
  by (simp add: trunc_to_int_def)

lemma trunc_to_int_of_int [simp]: "trunc_to_int (of_int z) = z"
  by (simp add: trunc_to_int_def)

lemma trunc_to_int_of_nat [simp]: "trunc_to_int (of_nat n) = int n"
  using trunc_to_int_of_int [of "int n"] by simp

lemma c_div_nonneg: "0 \<le> a \<Longrightarrow> 0 \<le> b \<Longrightarrow> c_div a b = a div b"
  by (cases "a = 0"; cases "b = 0") (simp_all add: c_div_def)

lemma c_mod_nonneg: "0 \<le> a \<Longrightarrow> 0 \<le> b \<Longrightarrow> c_mod a b = a mod b"
  by (simp add: c_mod_def c_div_nonneg minus_div_mult_eq_mod)

subsection \<open>Vectors\<close>

fun find_if :: "('a \<Rightarrow> bool) \<Rightarrow> 'a list \<Rightarrow> nat" where
  "find_if p [] = 0"
| "find_if p (x # xs) = (if p x then 0 else Suc (find_if p xs))"

lemma find_if_le: "find_if p xs \<le> length xs"
  by (induction xs) auto

lemma find_if_less_iff: "find_if p xs < length xs \<longleftrightarrow> (\<exists>x \<in> set xs. p x)"
  by (induction xs) auto

lemma find_if_eq_length_iff: "find_if p xs = length xs \<longleftrightarrow> (\<forall>x \<in> set xs. \<not> p x)"
  by (induction xs) auto

lemma find_if_holds: "find_if p xs < length xs \<Longrightarrow> p (xs ! find_if p xs)"
  by (induction xs) auto

lemma find_if_before: "i < find_if p xs \<Longrightarrow> \<not> p (xs ! i)"
proof (induction xs arbitrary: i)
  case (Cons x xs)
  then show ?case by (cases i) (auto split: if_splits)
qed simp

lemma find_if_cong: "(\<And>x. x \<in> set xs \<Longrightarrow> p x = q x) \<Longrightarrow> find_if p xs = find_if q xs"
  by (induction xs) auto

lemma find_if_append:
  "find_if p (xs @ ys) = (if \<exists>x \<in> set xs. p x then find_if p xs else length xs + find_if p ys)"
  by (induction xs) auto

lemma set_update_first:
  "i < length xs \<Longrightarrow> set (xs[i := v]) = insert v (set (take i xs) \<union> set (drop (Suc i) xs))"
  by (simp add: upd_conv_take_nth_drop)

lemma set_take_drop_Suc:
  "i < length xs \<Longrightarrow> set xs = insert (xs ! i) (set (take i xs) \<union> set (drop (Suc i) xs))"
  using id_take_nth_drop [of i xs] by (metis list.simps(15) set_append sup_commute Un_insert_right)

lemma find_if_refine_none:
  "(\<And>x. q x \<Longrightarrow> p x) \<Longrightarrow> find_if p xs = length xs \<Longrightarrow> find_if q xs = length xs"
  by (auto simp: find_if_eq_length_iff)

lemma find_if_refine_hit:
  assumes "\<And>x. q x \<Longrightarrow> p x" "find_if p xs < length xs" "q (xs ! find_if p xs)"
  shows "find_if q xs = find_if p xs"
  using assms(2,3) by (induction xs) (auto split: if_splits dest: assms(1))

lemma find_if_refine_miss:
  assumes "\<And>x. q x \<Longrightarrow> p x" "find_if p xs < length xs" "\<not> q (xs ! find_if p xs)"
  shows "find_if q xs = Suc (find_if p xs) + find_if q (drop (Suc (find_if p xs)) xs)"
  using assms(2,3) by (induction xs) (auto split: if_splits dest: assms(1))

lemma filter_update_hole:
  assumes "i < length xs" "\<not> P (xs ! i)" "P e"
  shows "filter P (xs[i := e]) = filter P (take i xs) @ e # filter P (drop (Suc i) xs)"
    and "filter P xs = filter P (take i xs) @ filter P (drop (Suc i) xs)"
proof -
  show "filter P (xs[i := e]) = filter P (take i xs) @ e # filter P (drop (Suc i) xs)"
    using assms by (simp add: upd_conv_take_nth_drop)
  show "filter P xs = filter P (take i xs) @ filter P (drop (Suc i) xs)"
    using assms by (subst id_take_nth_drop [OF assms(1)]) simp
qed

lemma filter_remove_at:
  assumes "i < length xs" "P (xs ! i)"
  shows "filter P xs = filter P (take i xs) @ xs ! i # filter P (drop (Suc i) xs)"
  using assms by (subst id_take_nth_drop [OF assms(1)]) simp

text \<open>Overwriting a position with the last element and dropping the last element removes exactly
  the element of this position, up to the order of the rest.\<close>

lemma butlast_update_last_cases:
  assumes "i < length xs"
  shows "butlast (xs[i := last xs]) =
    (if Suc i = length xs then take i xs
     else take i xs @ last xs # butlast (drop (Suc i) xs))"
proof (cases "Suc i = length xs")
  case True
  then have "i = length xs - 1" by simp
  with True show ?thesis by (simp add: butlast_list_update butlast_conv_take)
next
  case False
  with assms have "drop (Suc i) xs \<noteq> []" by simp
  with assms False show ?thesis
    by (simp add: upd_conv_take_nth_drop butlast_append)
qed

lemma mset_butlast_update_last:
  assumes "i < length xs"
  shows "add_mset (xs ! i) (mset (butlast (xs[i := last xs]))) = mset xs"
proof (cases "Suc i = length xs")
  case True
  then have "take i xs @ [xs ! i] = xs"
    using assms by (metis take_Suc_conv_app_nth take_all_iff order_refl)
  then have "mset (take i xs) + {#xs ! i#} = mset xs"
    by (metis mset.simps mset_append)
  with True assms show ?thesis by (simp add: butlast_update_last_cases)
next
  case False
  with assms have ne: "drop (Suc i) xs \<noteq> []" by simp
  then have "butlast (drop (Suc i) xs) @ [last xs] = drop (Suc i) xs"
    using append_butlast_last_id [OF ne] by simp
  then have "mset (butlast (drop (Suc i) xs)) + {#last xs#} = mset (drop (Suc i) xs)"
    by (metis mset.simps mset_append)
  moreover have "mset xs = mset (take i xs) + add_mset (xs ! i) (mset (drop (Suc i) xs))"
    by (subst id_take_nth_drop [OF assms]) simp
  ultimately show ?thesis using False assms by (simp add: butlast_update_last_cases)
qed

lemma upt_3: "[0..<3] = [0, 1, 2 :: nat]"
  by (simp add: upt_conv_Cons)

end
