(* ===== verification/Mesh_Utils.thy ===== *)
theory Mesh_Utils
  imports Mesh_Prelude
begin

unbundle bit_operations_syntax

text \<open>
  The numeric helpers of the mesh generator: \<open>utils/utils.h\<close> (comparison of doubles up to
  \<open>EPS\<close>, \<open>indexesOfMaxElems\<close>) and \<open>utils/Utils.cpp\<close> (comparison up to \<open>EPSILON\<close>, the rounding
  helpers \<open>floor2\<close> and \<open>ceil2\<close>, the byte swap, \<open>swap_if_required\<close>, the subtractive \<open>gcd\<close>, degrees
  and radians, \<open>shift\<close>). The three comparisons of utils.h carry the suffix \<open>_eps\<close> since HOL has
  constants of the same name; \<open>convertToUtm\<close> is in the theory of the UTM conversion.
\<close>

section \<open>utils.h\<close>

definition EPS :: real where
  "EPS = 1 / 10000"

definition equals_eps :: "real \<Rightarrow> real \<Rightarrow> bool" where
  "equals_eps a b \<longleftrightarrow> \<bar>a - b\<bar> < EPS"

definition greater_eps :: "real \<Rightarrow> real \<Rightarrow> bool" where
  "greater_eps a b \<longleftrightarrow> a - b \<ge> EPS"

definition less_eps :: "real \<Rightarrow> real \<Rightarrow> bool" where
  "less_eps a b \<longleftrightarrow> a - b \<le> - EPS"

text \<open>The loop of \<open>indexesOfMaxElems\<close>: the index of the next element, the running maximum and the
  result so far.\<close>

fun indexesOfMaxElems_loop :: "real list \<Rightarrow> nat \<Rightarrow> real \<Rightarrow> nat list \<Rightarrow> nat list" where
  "indexesOfMaxElems_loop [] i currentMax result = result"
| "indexesOfMaxElems_loop (e # es) i currentMax result =
     (if greater_eps e currentMax then indexesOfMaxElems_loop es (Suc i) e [i]
      else if equals_eps e currentMax then indexesOfMaxElems_loop es (Suc i) currentMax (result @ [i])
      else indexesOfMaxElems_loop es (Suc i) currentMax result)"

fun indexesOfMaxElems :: "real list \<Rightarrow> nat list" where
  "indexesOfMaxElems [] = []"
| "indexesOfMaxElems (e # es) = indexesOfMaxElems_loop es 1 e [0]"

section \<open>Utils.cpp\<close>

definition EPSILON :: real where
  "EPSILON = 1 / 1000000"

text \<open>\<open>PI\<close> is the double the literal \<open>3.14159265358979323846\<close> denotes. The literal of the
  conversion library, \<open>3.14159265358979323e0\<close>, denotes the same double.\<close>

definition PI_C :: real where
  "PI_C = 884279719003555 / 281474976710656"

definition is_lesser :: "real \<Rightarrow> real \<Rightarrow> bool" where
  "is_lesser a b \<longleftrightarrow> a - b < - 2 * EPSILON"

definition is_greater :: "real \<Rightarrow> real \<Rightarrow> bool" where
  "is_greater a b \<longleftrightarrow> a - b > 2 * EPSILON"

definition Utils_equals :: "real \<Rightarrow> real \<Rightarrow> bool" where
  "Utils_equals a b \<longleftrightarrow> \<bar>a - b\<bar> < EPSILON"

definition floor2 :: "real \<Rightarrow> real" where
  "floor2 a =
     (let b = of_int (trunc_to_int a)
      in if \<not> (\<not> is_greater b a \<and> is_greater (b + 1) a) then b + 1 else b)"

definition ceil2 :: "real \<Rightarrow> real" where
  "ceil2 a = floor2 a + 1"

definition change_bytes_order :: "16 word \<Rightarrow> 16 word" where
  "change_bytes_order var = (let tmp = push_bit 8 var in drop_bit 8 var OR tmp)"

definition swap_if_required :: "real \<Rightarrow> real \<Rightarrow> real \<times> real" where
  "swap_if_required should_be_lower should_be_bigger =
     (if should_be_lower > should_be_bigger then (should_be_bigger, should_be_lower)
      else (should_be_lower, should_be_bigger))"

text \<open>The do-while loop of \<open>gcd\<close>: one pass swaps when needed, subtracts and tests. The subtraction
  never wraps, since the swap makes \<open>b \<le> a\<close>. The loop need not end: with exactly one argument
  zero, \<open>b\<close> is zero from the first pass on and \<open>a\<close> never changes.\<close>

partial_function (option) gcd_loop :: "nat \<Rightarrow> nat \<Rightarrow> nat option" where
  "gcd_loop a b =
     (let (a', b') = (if b > a then (b, a) else (a, b)); a'' = a' - b'
      in if a'' \<noteq> 0 then gcd_loop a'' b' else Some b')"

definition d2r :: "real \<Rightarrow> real" where
  "d2r degrees = degrees * PI_C / 180"

definition r2d :: "real \<Rightarrow> real" where
  "r2d radians = radians * 180 / PI_C"

text \<open>\<open>shift lo hi array\<close> copies \<open>array[i - 1]\<close> to \<open>array[i]\<close> for \<open>i = hi, hi - 1, \<dots>, lo + 1\<close>;
  the source calls the bounds \<open>from\<close> and \<open>to\<close>.\<close>

function shift :: "int \<Rightarrow> int \<Rightarrow> 'a list \<Rightarrow> 'a list res" where
  "shift lo hi array =
     (if hi > lo then
        bindR (get_at array (hi - 1)) (\<lambda>v.
          if 0 \<le> hi \<and> hi < int (length array) then shift lo (hi - 1) (array[nat hi := v])
          else Inl OutOfBounds)
      else Inr array)"
  by pat_completeness auto
termination
  by (relation "measure (\<lambda>(lo, hi, array). nat (hi - lo))") auto

declare shift.simps [simp del]


section \<open>Comparisons up to a tolerance\<close>

named_theorems eps_defs \<open>the definitions of the comparisons up to a tolerance\<close>

lemmas [eps_defs] =
  EPS_def equals_eps_def greater_eps_def less_eps_def
  EPSILON_def is_lesser_def is_greater_def Utils_equals_def

lemma EPS_pos [simp]: "0 < EPS"
  by (simp add: EPS_def)

lemma EPSILON_pos [simp]: "0 < EPSILON"
  by (simp add: EPSILON_def)

lemma equals_eps_refl [simp]: "equals_eps a a"
  by (simp add: eps_defs)

lemma less_eps_irrefl [simp]: "\<not> less_eps a a"
  by (simp add: eps_defs)

lemma equals_eps_sym: "equals_eps a b \<longleftrightarrow> equals_eps b a"
  by (simp add: equals_eps_def abs_minus_commute)

lemma greater_eps_flip: "greater_eps a b \<longleftrightarrow> less_eps b a"
  by (auto simp: eps_defs)

lemma eps_trichotomy:
  "(less_eps a b \<and> \<not> equals_eps a b \<and> \<not> greater_eps a b) \<or>
   (\<not> less_eps a b \<and> equals_eps a b \<and> \<not> greater_eps a b) \<or>
   (\<not> less_eps a b \<and> \<not> equals_eps a b \<and> greater_eps a b)"
  by (auto simp: eps_defs abs_real_def)

lemma less_eps_trans: "less_eps a b \<Longrightarrow> less_eps b c \<Longrightarrow> less_eps a c"
  by (simp add: eps_defs)

lemma less_eps_asym: "less_eps a b \<Longrightarrow> \<not> less_eps b a"
  by (simp add: eps_defs)

section \<open>The indices of the largest elements\<close>

text \<open>The invariant of the loop: the running maximum is an element of the part already read, no
  element read so far exceeds it by \<open>EPS\<close>, and the result holds, in increasing order, indices of
  elements within \<open>EPS\<close> of it, among them all of those that reach it.\<close>

definition max_inv :: "real list \<Rightarrow> nat \<Rightarrow> real \<Rightarrow> nat list \<Rightarrow> bool" where
  "max_inv xs i m res \<longleftrightarrow>
     m \<in> set (take i xs) \<and> (\<forall>e \<in> set (take i xs). \<not> greater_eps e m) \<and> res \<noteq> [] \<and>
     sorted_wrt (<) res \<and> (\<forall>k \<in> set res. k < i \<and> k < length xs \<and> equals_eps (xs ! k) m) \<and>
     (\<forall>k < i. m \<le> xs ! k \<longrightarrow> k \<in> set res)"

lemma max_inv_greater:
  assumes "max_inv xs i m res" "i < length xs" "greater_eps (xs ! i) m"
  shows "max_inv xs (Suc i) (xs ! i) [i]"
proof -
  have below: "e < xs ! i" if "e \<in> set (take i xs)" for e
    using that assms unfolding max_inv_def eps_defs by fastforce
  have "\<not> greater_eps e (xs ! i)" if "e \<in> set (take i xs)" for e
    using below [OF that] EPS_pos unfolding greater_eps_def by linarith
  moreover have "xs ! k \<in> set (take i xs)" if "k < i" for k
    using that assms(2) nth_mem [of k "take i xs"] by simp
  with below have "k = i" if "k < Suc i" "xs ! i \<le> xs ! k" for k
    using that by (cases "k < i") force+
  ultimately show ?thesis
    using assms(2) by (auto simp: max_inv_def take_Suc_conv_app_nth eps_defs)
qed

lemma max_inv_equals:
  assumes "max_inv xs i m res" "i < length xs" "equals_eps (xs ! i) m"
  shows "max_inv xs (Suc i) m (res @ [i])"
  using assms eps_trichotomy [of "xs ! i" m]
  by (auto simp: max_inv_def take_Suc_conv_app_nth sorted_wrt_append less_Suc_eq)

lemma max_inv_less:
  assumes "max_inv xs i m res" "i < length xs" "\<not> greater_eps (xs ! i) m" "\<not> equals_eps (xs ! i) m"
  shows "max_inv xs (Suc i) m res"
proof -
  have "xs ! i < m" using assms(3,4) by (simp add: eps_defs abs_real_def split: if_splits)
  with assms show ?thesis by (auto simp: max_inv_def take_Suc_conv_app_nth less_Suc_eq)
qed

lemma indexesOfMaxElems_loop_inv:
  assumes "max_inv xs i m res" "i \<le> length xs"
  shows "\<exists>m'. max_inv xs (length xs) m' (indexesOfMaxElems_loop (drop i xs) i m res)"
  using assms
proof (induction "length xs - i" arbitrary: i m res)
  case 0
  then show ?case by auto
next
  case (Suc n)
  then have i: "i < length xs" by simp
  then have d: "drop i xs = xs ! i # drop (Suc i) xs" by (rule Cons_nth_drop_Suc [symmetric])
  from Suc i show ?case
    by (simp add: d max_inv_greater max_inv_equals max_inv_less)
qed

lemma indexesOfMaxElems_inv:
  assumes "xs \<noteq> []"
  shows "\<exists>m. max_inv xs (length xs) m (indexesOfMaxElems xs)"
proof -
  from assms obtain y ys where xs: "xs = y # ys" by (cases xs) auto
  have "max_inv xs 1 y [0]" by (simp add: max_inv_def xs eps_defs)
  from indexesOfMaxElems_loop_inv [OF this] show ?thesis by (simp add: xs)
qed

text \<open>C29: \<open>indexesOfMaxElems\<close> returns, in increasing order, indices of elements within \<open>EPS\<close> of an
  element \<open>m\<close> that no element exceeds by \<open>EPS\<close>; it misses no element that is at least \<open>m\<close>, in
  particular no element that is a maximum.\<close>

theorem indexesOfMaxElems_correct:
  assumes "xs \<noteq> []"
  shows "\<exists>m \<in> set xs. (\<forall>e \<in> set xs. \<not> greater_eps e m) \<and> indexesOfMaxElems xs \<noteq> [] \<and>
           sorted_wrt (<) (indexesOfMaxElems xs) \<and>
           (\<forall>k \<in> set (indexesOfMaxElems xs). k < length xs \<and> equals_eps (xs ! k) m) \<and>
           (\<forall>k < length xs. m \<le> xs ! k \<longrightarrow> k \<in> set (indexesOfMaxElems xs))"
  using indexesOfMaxElems_inv [OF assms] by (auto simp: max_inv_def)

theorem indexesOfMaxElems_correct_witness:
  "indexesOfMaxElems [1, 3, 2, 3] = [1, 3] \<and>
   (\<exists>m \<in> {1, 2, 3}. \<forall>e \<in> {1, 2, 3}. \<not> greater_eps e m)"
proof
  show "indexesOfMaxElems [1, 3, 2, 3] = [1, 3]" by (simp add: eps_defs)
  show "\<exists>m \<in> {1, 2, 3}. \<forall>e \<in> {1, 2, 3}. \<not> greater_eps e m"
    using indexesOfMaxElems_correct [of "[1, 3, 2, 3]"] by auto
qed

section \<open>Rounding\<close>

lemma floor2_nonneg:
  assumes "0 \<le> a"
  shows "floor2 a = of_int \<lfloor>a + 2 * EPSILON\<rfloor>"
proof -
  have "\<lfloor>a + 2 * EPSILON\<rfloor> = (if of_int \<lfloor>a\<rfloor> + 1 - a > 2 * EPSILON then \<lfloor>a\<rfloor> else \<lfloor>a\<rfloor> + 1)"
    by (simp add: EPSILON_def floor_eq_iff) linarith
  moreover have "\<not> is_greater (of_int \<lfloor>a\<rfloor>) a"
    by (simp add: eps_defs) linarith
  ultimately show ?thesis
    using assms by (simp add: floor2_def Let_def trunc_to_int_nonneg is_greater_def)
qed

lemma floor2_negative:
  assumes "a < 0" "2 * EPSILON < of_int \<lceil>a\<rceil> - a"
  shows "floor2 a = of_int \<lceil>a\<rceil> + 1"
  using assms by (simp add: floor2_def Let_def trunc_to_int_def is_greater_def)

lemma floor2_of_nat [simp]: "floor2 (of_nat n) = of_nat n"
  by (simp add: floor2_nonneg EPSILON_def floor_eq_iff)



text \<open>On a negative number that is not close to an integer \<open>floor2\<close> rounds up twice.\<close>

theorem floor2_wrong_below_zero: "floor2 (- (1 / 2)) = 1"
  using floor2_negative [of "- (1 / 2)"] by (simp add: EPSILON_def ceiling_def)

section \<open>The subtractive gcd\<close>

lemma gcd_loop_step:
  "gcd_loop a b = (if b > a then (if b - a \<noteq> 0 then gcd_loop (b - a) a else Some a)
                   else (if a - b \<noteq> 0 then gcd_loop (a - b) b else Some b))"
  by (subst gcd_loop.simps) (simp add: Let_def)

lemma gcd_loop_correct: "0 < a \<Longrightarrow> 0 < b \<Longrightarrow> gcd_loop a b = Some (gcd a b)"
proof (induction "a + b" arbitrary: a b rule: less_induct)
  case less
  show ?case
  proof (cases "b > a")
    case True
    with less have "gcd_loop (b - a) a = Some (gcd (b - a) a)" by simp
    moreover have "gcd (b - a) a = gcd a b"
      using True by (metis gcd.commute gcd_diff1_nat less_imp_le)
    ultimately show ?thesis using True by (subst gcd_loop_step) simp
  next
    case False
    show ?thesis
    proof (cases "a = b")
      case True
      then show ?thesis by (subst gcd_loop_step) simp
    next
      case neq: False
      with False less have "gcd_loop (a - b) b = Some (gcd (a - b) b)" by simp
      then show ?thesis using False neq by (subst gcd_loop_step) (simp add: gcd_diff1_nat)
    qed
  qed
qed

lemma gcd_loop_diverges:
  assumes "gcd_loop a b = Some y"
  shows "a = 0 \<longleftrightarrow> b = 0"
proof (rule gcd_loop.raw_induct [where P = "\<lambda>a b y. a = 0 \<longleftrightarrow> b = 0", OF _ assms])
  fix f :: "nat \<Rightarrow> nat \<Rightarrow> nat option" and a b y
  assume IH: "\<And>a b y. f a b = Some y \<Longrightarrow> (a = 0) = (b = 0)"
    and step: "(let (a', b') = if a < b then (b, a) else (a, b); a'' = a' - b'
                in if a'' \<noteq> 0 then f a'' b' else Some b') = Some y"
  show "(a = 0) = (b = 0)"
    using step IH [of "b - a" a y] IH [of "a - b" b y] by (auto simp: Let_def split: if_splits)
qed

text \<open>C31: \<open>gcd\<close> returns the greatest common divisor when its arguments are both positive or both
  zero, and it does not return when exactly one of them is zero.\<close>

theorem gcd_loop_returns:
  "gcd_loop a b = (if (a = 0) = (b = 0) then Some (gcd a b) else None)"
proof (cases "a = 0 \<or> b = 0")
  case True
  have "gcd_loop 0 0 = Some 0" by (subst gcd_loop_step) simp
  with True gcd_loop_diverges [of a b] show ?thesis by (cases "gcd_loop a b"; cases "a = 0"; cases "b = 0") auto
qed (simp add: gcd_loop_correct)

section \<open>Bytes\<close>

lemma change_bytes_order_bit:
  "bit (change_bytes_order w) n \<longleftrightarrow> n < 16 \<and> bit w (if n < 8 then n + 8 else n - 8)"
  by (auto simp: change_bytes_order_def Let_def bit_simps add.commute dest: bit_imp_le_length)

lemma change_bytes_order_involution: "change_bytes_order (change_bytes_order w) = w"
  by (rule bit_word_eqI) (auto simp: change_bytes_order_bit)

text \<open>The two bytes of a big-endian sample as \<open>fread\<close> leaves them in a \<open>uint16_t\<close> on a
  little-endian machine.\<close>

definition u16_le :: "8 word \<Rightarrow> 8 word \<Rightarrow> 16 word" where
  "u16_le b0 b1 = ucast b0 OR push_bit 8 (ucast b1)"

lemma u16_le_bit:
  "bit (u16_le b0 b1) n \<longleftrightarrow> n < 16 \<and> (if n < 8 then bit b0 n else bit b1 (n - 8))"
  by (auto simp: u16_le_def bit_simps dest: bit_imp_le_length)

lemma change_bytes_order_u16_le: "change_bytes_order (u16_le b0 b1) = u16_le b1 b0"
  by (rule bit_word_eqI) (auto simp: change_bytes_order_bit u16_le_bit)

lemma unat_u16_le: "unat (u16_le b0 b1) = unat b0 + 256 * unat b1"
proof -
  have "u16_le b0 b1 = ucast b0 + push_bit 8 (ucast b1)"
    unfolding u16_le_def
    by (rule disjunctive_add [symmetric]) (auto simp: bit_simps dest: bit_imp_le_length)
  moreover have "unat b1 < 2 ^ LENGTH(8)" "unat b0 < 2 ^ LENGTH(8)"
    by (rule unsigned_less)+
  moreover from this have "unat (push_bit 8 (ucast b1 :: 16 word)) = 256 * unat b1"
    by (simp add: push_bit_eq_mult unat_word_ariths unsigned_ucast_eq take_bit_eq_mod)
  moreover from \<open>unat b0 < 2 ^ LENGTH(8)\<close> have "unat (ucast b0 :: 16 word) = unat b0"
    by (simp add: unsigned_ucast_eq take_bit_eq_mod)
  ultimately show ?thesis by (simp add: unat_word_ariths)
qed

text \<open>C32: after the swap a sample read from the file has the value of its two bytes in big-endian
  order, and swapping twice changes nothing.\<close>

theorem change_bytes_order_correct:
  "unat (change_bytes_order (u16_le b0 b1)) = 256 * unat b0 + unat b1 \<and>
   change_bytes_order (change_bytes_order w) = w"
  by (simp add: change_bytes_order_u16_le unat_u16_le change_bytes_order_involution)

section \<open>Degrees, radians and array shifts\<close>

lemma r2d_d2r [simp]: "r2d (d2r x) = x" and d2r_r2d [simp]: "d2r (r2d x) = x"
  by (simp_all add: r2d_def d2r_def PI_C_def)

text \<open>C33: \<open>shift\<close> within the bounds of the array returns, moves the elements from \<open>lo\<close> to \<open>hi - 1\<close> one
  place up and keeps all others.\<close>

theorem shift_spec:
  assumes "0 \<le> lo" "hi < int (length array)"
  shows "\<exists>array'. shift lo hi array = Inr array' \<and> length array' = length array \<and>
           (\<forall>k < length array. array' ! k =
              (if lo < int k \<and> int k \<le> hi then array ! (k - 1) else array ! k))"
  using assms
proof (induction lo hi array rule: shift.induct)
  case (1 lo hi array)
  show ?case
  proof (cases "hi > lo")
    case False
    then show ?thesis by (subst shift.simps) auto
  next
    case True
    let ?a = "array[nat hi := array ! nat (hi - 1)]"
    have get: "get_at array (hi - 1) = Inr (array ! nat (hi - 1))"
      using "1.prems" True by simp
    have "0 \<le> hi \<and> hi < int (length array)" using "1.prems" True by simp
    then obtain array' where array': "shift lo (hi - 1) ?a = Inr array'"
      "length array' = length array"
      "\<forall>k < length array. array' ! k =
         (if lo < int k \<and> int k \<le> hi - 1 then ?a ! (k - 1) else ?a ! k)"
      using "1.IH" [OF True, of "array ! nat (hi - 1)"] "1.prems" by auto
    have "shift lo hi array = Inr array'"
      using True get \<open>0 \<le> hi \<and> hi < int (length array)\<close> array'(1)
      by (subst shift.simps) simp
    moreover have "array' ! k = (if lo < int k \<and> int k \<le> hi then array ! (k - 1) else array ! k)"
      if "k < length array" for k
      using that True array'(3) "1.prems"
      by (auto simp: nth_list_update nat_eq_iff intro: arg_cong [where f = "nth array"])
    ultimately show ?thesis using array'(2) by auto
  qed
qed

theorem shift_spec_witness: "shift 1 3 [10, 20, 30, 40 :: nat] = Inr [10, 20, 20, 30]"
proof -
  define l where "l = [10, 20, 30, 40 :: nat]"
  then have len: "length l = 4" by simp
  from shift_spec [of 1 3 l] obtain a where a: "shift 1 3 l = Inr a" "length a = 4"
    and n: "\<forall>k < 4. a ! k = (if 1 < int k \<and> int k \<le> 3 then l ! (k - 1) else l ! k)"
    unfolding len by auto
  have "a ! 0 = 10" "a ! 1 = 20" "a ! 2 = 20" "a ! 3 = 30"
    using n by (simp_all add: l_def)
  moreover obtain w x y z where "a = [w, x, y, z]"
    using a(2) by (auto simp: numeral_eq_Suc length_Suc_conv)
  ultimately show ?thesis using a(1) by (simp add: l_def)
qed

end
