(* ===== verification/Morph_Graph.thy ===== *)
theory Morph_Graph
  imports Mesh_Prelude
begin

unbundle bit_operations_syntax

text \<open>
  The graph of \<open>libgalois/include/galois/graphs/MorphGraph.h\<close>, for the instance the mesh generator
  uses: \<open>MorphGraph<NodeData, EdgeData, false>\<close>, an undirected graph (\<open>Directional\<close> and \<open>InOut\<close>
  false) whose adjacency vectors are not sorted (\<open>SortedNeighbors\<close> false).

  A node handle (\<open>gNode*\<close>) is the position at which \<open>nodes\<close> got the node; an edge iterator is
  a position in the adjacency vector of its source node, the vector's length being \<open>end()\<close>; a
  pointer to edge data is a position in \<open>edgesF\<close>, the memory of the edge factory, so the two
  entries of an undirected edge share their data as in the code. Removing a node clears its own
  vector and leaves the entries of its neighbours behind: these holes are skipped by every
  iterator and reused by \<open>addEdge\<close>. Locks are not part of this theory.
\<close>

section \<open>Edge entries\<close>

text \<open>\<open>UEdgeInfoBase<NTy, ETy, false>\<close> keeps the in-edge flag in the lowest bit of the node
  pointer. Node objects are aligned, so this bit of their address is clear.\<close>

definition UEdgeInfo_N :: "64 word \<Rightarrow> bool \<Rightarrow> 64 word" where
  "UEdgeInfo_N n f = n OR (if f then 1 else 0)"

definition UEdgeInfo_first :: "64 word \<Rightarrow> 64 word" where
  "UEdgeInfo_first N = N AND NOT 1"

definition UEdgeInfo_isInEdge :: "64 word \<Rightarrow> bool" where
  "UEdgeInfo_isInEdge N \<longleftrightarrow> N AND 1 \<noteq> 0"

text \<open>The entry as the rest of the graph sees it, through \<open>first()\<close>, \<open>isInEdge()\<close> and
  \<open>second()\<close>.\<close>

record edge_info =
  first :: nat
  isInEdge :: bool
  second :: nat

record 'n gNode =
  data :: 'n
  edges :: "edge_info list"
  active :: bool

record ('n, 'e) morph_graph =
  nodes :: "'n gNode list"
  edgesF :: "'e list"

definition empty_graph :: "('n, 'e) morph_graph" where
  "empty_graph = \<lparr>nodes = [], edgesF = []\<rparr>"

definition node :: "('n, 'e) morph_graph \<Rightarrow> nat \<Rightarrow> 'n gNode" where
  "node g n = nodes g ! n"

definition set_node :: "('n, 'e) morph_graph \<Rightarrow> nat \<Rightarrow> 'n gNode \<Rightarrow> ('n, 'e) morph_graph" where
  "set_node g n x = g\<lparr>nodes := (nodes g)[n := x]\<rparr>"

definition set_edges :: "('n, 'e) morph_graph \<Rightarrow> nat \<Rightarrow> edge_info list \<Rightarrow> ('n, 'e) morph_graph" where
  "set_edges g n es = set_node g n (node g n\<lparr>edges := es\<rparr>)"

section \<open>Predicates on entries\<close>

definition first_eq_and_valid :: "('n, 'e) morph_graph \<Rightarrow> nat \<Rightarrow> edge_info \<Rightarrow> bool" where
  "first_eq_and_valid g N2 ii \<longleftrightarrow> first ii = N2 \<and> active (node g (first ii))"

definition first_not_valid :: "('n, 'e) morph_graph \<Rightarrow> edge_info \<Rightarrow> bool" where
  "first_not_valid g ii \<longleftrightarrow> \<not> active (node g (first ii))"

definition is_out_edge :: "('n, 'e) morph_graph \<Rightarrow> edge_info \<Rightarrow> bool" where
  "is_out_edge g e \<longleftrightarrow> active (node g (first e)) \<and> \<not> isInEdge e"

section \<open>Operations of a node\<close>

text \<open>\<open>gNode::find\<close>: the loop goes on after an entry with the right node and the wrong
  direction.\<close>

function gNode_find_from ::
  "('n, 'e) morph_graph \<Rightarrow> edge_info list \<Rightarrow> nat \<Rightarrow> bool \<Rightarrow> nat \<Rightarrow> nat" where
  "gNode_find_from g es N inEdge ii =
     (let ii' = ii + find_if (first_eq_and_valid g N) (drop ii es)
      in if ii' < length es \<and> isInEdge (es ! ii') \<noteq> inEdge
         then gNode_find_from g es N inEdge (Suc ii') else ii')"
  by pat_completeness auto
termination
  by (relation "measure (\<lambda>(g, es, N, inEdge, ii). length es - ii)") auto

declare gNode_find_from.simps [simp del]

definition gNode_find :: "('n, 'e) morph_graph \<Rightarrow> nat \<Rightarrow> nat \<Rightarrow> bool \<Rightarrow> nat" where
  "gNode_find g n N inEdge = gNode_find_from g (edges (node g n)) N inEdge 0"

definition gNode_erase_at :: "('n, 'e) morph_graph \<Rightarrow> nat \<Rightarrow> nat \<Rightarrow> ('n, 'e) morph_graph" where
  "gNode_erase_at g n ii =
     (let es = edges (node g n) in set_edges g n (butlast (es[ii := last es])))"

definition gNode_erase :: "('n, 'e) morph_graph \<Rightarrow> nat \<Rightarrow> nat \<Rightarrow> bool \<Rightarrow> ('n, 'e) morph_graph" where
  "gNode_erase g n N inEdge =
     (let es = edges (node g n); ii = gNode_find g n N inEdge
      in if ii \<noteq> length es then set_edges g n (take ii es @ drop (Suc ii) es) else g)"

text \<open>\<open>gNode::createEdgeWithReuse\<close> overwrites the first hole or appends, and returns the position
  it wrote.\<close>

definition gNode_createEdgeWithReuse ::
  "('n, 'e) morph_graph \<Rightarrow> nat \<Rightarrow> nat \<Rightarrow> nat \<Rightarrow> bool \<Rightarrow> ('n, 'e) morph_graph \<times> nat" where
  "gNode_createEdgeWithReuse g n N v inEdge =
     (let es = edges (node g n); e = \<lparr>first = N, isInEdge = inEdge, second = v\<rparr>;
          ii = find_if (first_not_valid g) es
      in if ii \<noteq> length es then (set_edges g n (es[ii := e]), ii)
         else (set_edges g n (es @ [e]), length es))"

definition gNode_createEdge ::
  "('n, 'e) morph_graph \<Rightarrow> nat \<Rightarrow> nat \<Rightarrow> nat \<Rightarrow> bool \<Rightarrow> ('n, 'e) morph_graph \<times> nat" where
  "gNode_createEdge g n N v inEdge =
     (let es = edges (node g n)
      in (set_edges g n (es @ [\<lparr>first = N, isInEdge = inEdge, second = v\<rparr>]), length es))"

section \<open>Operations of the graph\<close>

text \<open>\<open>edgesF.mkEdge\<close>: a new object in the bag of edge data.\<close>

definition mkEdge :: "('n, 'e) morph_graph \<Rightarrow> 'e \<Rightarrow> ('n, 'e) morph_graph \<times> nat" where
  "mkEdge g d = (g\<lparr>edgesF := edgesF g @ [d]\<rparr>, length (edgesF g))"

text \<open>\<open>boost::make_filter_iterator\<close>: move to the first entry from \<open>ii\<close> on that is an out edge.\<close>

definition filter_iterator :: "('n, 'e) morph_graph \<Rightarrow> nat \<Rightarrow> nat \<Rightarrow> nat" where
  "filter_iterator g n ii = ii + find_if (is_out_edge g) (drop ii (edges (node g n)))"

text \<open>\<open>createEdgeWithReuse\<close> is the body of \<open>addEdge\<close>. The argument \<open>d\<close> is the value \<open>EdgeTy()\<close>
  that \<open>mkEdge\<close> constructs.\<close>

definition createEdgeWithReuse ::
  "'e \<Rightarrow> ('n, 'e) morph_graph \<Rightarrow> nat \<Rightarrow> nat \<Rightarrow> ('n, 'e) morph_graph \<times> nat" where
  "createEdgeWithReuse d g src dst =
     (let ii = gNode_find g src dst False
      in if ii = length (edges (node g src)) then
           (let (g1, e) = mkEdge g d;
                (g2, _) = gNode_createEdgeWithReuse g1 dst src e False;
                (g3, ii') = gNode_createEdgeWithReuse g2 src dst e False
            in (g3, filter_iterator g3 src ii'))
         else (g, filter_iterator g src ii))"

definition addEdge :: "'e \<Rightarrow> ('n, 'e) morph_graph \<Rightarrow> nat \<Rightarrow> nat \<Rightarrow> ('n, 'e) morph_graph \<times> nat" where
  "addEdge d g src dst = createEdgeWithReuse d g src dst"

definition createEdge_multi ::
  "'e \<Rightarrow> ('n, 'e) morph_graph \<Rightarrow> nat \<Rightarrow> nat \<Rightarrow> ('n, 'e) morph_graph \<times> nat" where
  "createEdge_multi d g src dst =
     (let (g1, e) = mkEdge g d;
          (g2, _) = gNode_createEdge g1 dst src e False;
          (g3, ii) = gNode_createEdge g2 src dst e False
      in (g3, filter_iterator g3 src ii))"

definition addMultiEdge :: "('n, 'e) morph_graph \<Rightarrow> nat \<Rightarrow> nat \<Rightarrow> 'e \<Rightarrow> ('n, 'e) morph_graph \<times> nat" where
  "addMultiEdge g src dst d = createEdge_multi d g src dst"

definition createNode :: "('n, 'e) morph_graph \<Rightarrow> 'n \<Rightarrow> ('n, 'e) morph_graph \<times> nat" where
  "createNode g x =
     (g\<lparr>nodes := nodes g @ [\<lparr>data = x, edges = [], active = False\<rparr>]\<rparr>, length (nodes g))"

definition addNode :: "('n, 'e) morph_graph \<Rightarrow> nat \<Rightarrow> ('n, 'e) morph_graph" where
  "addNode g n = set_node g n (node g n\<lparr>active := True\<rparr>)"

definition getData :: "('n, 'e) morph_graph \<Rightarrow> nat \<Rightarrow> 'n" where
  "getData g n = data (node g n)"

text \<open>A write through the reference \<open>getData\<close> returns.\<close>

definition updData :: "('n, 'e) morph_graph \<Rightarrow> nat \<Rightarrow> ('n \<Rightarrow> 'n) \<Rightarrow> ('n, 'e) morph_graph" where
  "updData g n h = set_node g n (node g n\<lparr>data := h (data (node g n))\<rparr>)"

definition containsNode :: "('n, 'e) morph_graph \<Rightarrow> nat \<Rightarrow> bool" where
  "containsNode g n = active (node g n)"

definition removeNode :: "('n, 'e) morph_graph \<Rightarrow> nat \<Rightarrow> ('n, 'e) morph_graph" where
  "removeNode g n =
     (if active (node g n) then set_node g n (node g n\<lparr>active := False, edges := []\<rparr>) else g)"

definition findEdge :: "('n, 'e) morph_graph \<Rightarrow> nat \<Rightarrow> nat \<Rightarrow> nat" where
  "findEdge g src dst =
     (let es = edges (node g src); ii = gNode_find g src dst False
      in filter_iterator g src
           (if ii \<noteq> length es \<and> is_out_edge g (es ! ii) then ii else length es))"

text \<open>\<open>removeEdge\<close> erases the symmetric entry of the other node first and then the entry the
  iterator points to. When the edge is a loop the first erasure invalidates the iterator the
  second one uses.\<close>

definition removeEdge :: "('n, 'e) morph_graph \<Rightarrow> nat \<Rightarrow> nat \<Rightarrow> ('n, 'e) morph_graph res" where
  "removeEdge g src it =
     (let dst = first (edges (node g src) ! it)
      in if it \<ge> length (edges (node g src)) \<or> dst = src then Inl BadIterator
         else Inr (gNode_erase_at (gNode_erase g dst src False) src it))"

definition getEdgeData :: "('n, 'e) morph_graph \<Rightarrow> nat \<Rightarrow> nat \<Rightarrow> 'e" where
  "getEdgeData g src it = edgesF g ! second (edges (node g src) ! it)"

text \<open>A write through the reference \<open>getEdgeData\<close> returns.\<close>

definition updEdgeData ::
  "('n, 'e) morph_graph \<Rightarrow> nat \<Rightarrow> nat \<Rightarrow> ('e \<Rightarrow> 'e) \<Rightarrow> ('n, 'e) morph_graph" where
  "updEdgeData g src it h =
     (let a = second (edges (node g src) ! it) in g\<lparr>edgesF := (edgesF g)[a := h (edgesF g ! a)]\<rparr>)"

definition getEdgeDst :: "('n, 'e) morph_graph \<Rightarrow> nat \<Rightarrow> nat \<Rightarrow> nat" where
  "getEdgeDst g src it = first (edges (node g src) ! it)"

text \<open>The positions the range \<open>edge_begin(N) .. edge_end(N)\<close> visits, in order, and the active
  nodes \<open>begin() .. end()\<close> visits.\<close>

definition out_edges :: "('n, 'e) morph_graph \<Rightarrow> nat \<Rightarrow> nat list" where
  "out_edges g n = filter (\<lambda>ii. is_out_edge g (edges (node g n) ! ii)) [0..<length (edges (node g n))]"

definition graph_nodes :: "('n, 'e) morph_graph \<Rightarrow> nat list" where
  "graph_nodes g = filter (\<lambda>n. active (node g n)) [0..<length (nodes g)]"

definition graph_size :: "('n, 'e) morph_graph \<Rightarrow> nat" where
  "graph_size g = length (graph_nodes g)"


section \<open>Reading the graph after a write\<close>

named_theorems graph_simps \<open>what the accessors return after an operation\<close>

lemma length_nodes_set_node [simp]: "length (nodes (set_node g n x)) = length (nodes g)"
  by (simp add: set_node_def)

lemma edgesF_set_node [simp]: "edgesF (set_node g n x) = edgesF g"
  by (simp add: set_node_def)

lemma node_set_node:
  "n < length (nodes g) \<Longrightarrow> node (set_node g n x) m = (if m = n then x else node g m)"
  by (simp add: node_def set_node_def)

lemma length_nodes_set_edges [simp]: "length (nodes (set_edges g n es)) = length (nodes g)"
  by (simp add: set_edges_def)

lemma edgesF_set_edges [simp]: "edgesF (set_edges g n es) = edgesF g"
  by (simp add: set_edges_def)

lemma node_set_edges:
  "n < length (nodes g) \<Longrightarrow>
     node (set_edges g n es) m = (if m = n then node g n\<lparr>edges := es\<rparr> else node g m)"
  by (simp add: set_edges_def node_set_node)

lemma set_edges_beyond: "\<not> n < length (nodes g) \<Longrightarrow> set_edges g n es = g"
  by (simp add: set_edges_def set_node_def list_update_beyond)

lemma active_set_edges [simp]: "active (node (set_edges g n es) m) = active (node g m)"
  by (cases "n < length (nodes g)") (simp_all add: node_set_edges set_edges_beyond)

lemma data_set_edges [simp]: "data (node (set_edges g n es) m) = data (node g m)"
  by (cases "n < length (nodes g)") (simp_all add: node_set_edges set_edges_beyond)

lemma edges_set_edges:
  "n < length (nodes g) \<Longrightarrow>
     edges (node (set_edges g n es) m) = (if m = n then es else edges (node g m))"
  by (simp add: node_set_edges)

lemma mkEdge_simps [simp]:
  "nodes (fst (mkEdge g d)) = nodes g"
  "node (fst (mkEdge g d)) = node g"
  "edgesF (fst (mkEdge g d)) = edgesF g @ [d]"
  "snd (mkEdge g d) = length (edgesF g)"
  by (simp_all add: mkEdge_def node_def fun_eq_iff)

lemma node_updEdgeData [simp]: "node (updEdgeData g src it h) = node g"
  "nodes (updEdgeData g src it h) = nodes g"
  "length (edgesF (updEdgeData g src it h)) = length (edgesF g)"
  by (simp_all add: updEdgeData_def Let_def node_def fun_eq_iff)

lemma node_createNode:
  "node (fst (createNode g x)) m =
     (if m = length (nodes g) then \<lparr>data = x, edges = [], active = False\<rparr> else node g m)"
  if "m \<le> length (nodes g)"
  using that by (auto simp: createNode_def node_def nth_append)

lemma createNode_simps [simp]:
  "snd (createNode g x) = length (nodes g)"
  "length (nodes (fst (createNode g x))) = Suc (length (nodes g))"
  "edgesF (fst (createNode g x)) = edgesF g"
  by (simp_all add: createNode_def)

section \<open>Live nodes, links and the invariant\<close>

text \<open>A node is live when it is in the graph. Two live nodes are linked through the edge data at
  address \<open>a\<close> when the adjacency vector of the first has an entry that says so.\<close>

definition live :: "('n, 'e) morph_graph \<Rightarrow> nat \<Rightarrow> bool" where
  "live g n \<longleftrightarrow> n < length (nodes g) \<and> active (node g n)"

definition linked :: "('n, 'e) morph_graph \<Rightarrow> nat \<Rightarrow> nat \<Rightarrow> nat \<Rightarrow> bool" where
  "linked g u v a \<longleftrightarrow>
     live g u \<and> live g v \<and> (\<exists>e \<in> set (edges (node g u)). first e = v \<and> second e = a)"

text \<open>The adjacency vector of \<open>u\<close> without the holes.\<close>

definition live_entries :: "('n, 'e) morph_graph \<Rightarrow> nat \<Rightarrow> edge_info list" where
  "live_entries g u = filter (\<lambda>e. active (node g (first e))) (edges (node g u))"

definition entries_wf :: "('n, 'e) morph_graph \<Rightarrow> bool" where
  "entries_wf g \<longleftrightarrow> (\<forall>u < length (nodes g). \<forall>e \<in> set (edges (node g u)).
     first e < length (nodes g) \<and> \<not> isInEdge e \<and> second e < length (edgesF g))"

definition mg_inv :: "('n, 'e) morph_graph \<Rightarrow> bool" where
  "mg_inv g \<longleftrightarrow>
     entries_wf g \<and>
     (\<forall>u < length (nodes g). \<not> active (node g u) \<longrightarrow> edges (node g u) = []) \<and>
     (\<forall>u. live g u \<longrightarrow> distinct (map first (live_entries g u))) \<and>
     (\<forall>u a. \<not> linked g u u a) \<and>
     (\<forall>u v a. linked g u v a \<longrightarrow> linked g v u a) \<and>
     (\<forall>u v u' v' a. linked g u v a \<longrightarrow> linked g u' v' a \<longrightarrow> {u, v} = {u', v'})"

lemma mg_invD:
  assumes "mg_inv g"
  shows mg_inv_wf: "entries_wf g"
    and mg_inv_dead: "u < length (nodes g) \<Longrightarrow> \<not> active (node g u) \<Longrightarrow> edges (node g u) = []"
    and mg_inv_distinct: "live g u \<Longrightarrow> distinct (map first (live_entries g u))"
    and mg_inv_no_loop: "\<not> linked g u u a"
    and mg_inv_sym: "linked g u v a \<Longrightarrow> linked g v u a"
    and mg_inv_inj: "linked g u v a \<Longrightarrow> linked g u' v' a \<Longrightarrow> {u, v} = {u', v'}"
  using assms unfolding mg_inv_def by blast+

lemma mg_invI:
  assumes "entries_wf g"
    and "\<And>u. u < length (nodes g) \<Longrightarrow> \<not> active (node g u) \<Longrightarrow> edges (node g u) = []"
    and "\<And>u. live g u \<Longrightarrow> distinct (map first (live_entries g u))"
    and "\<And>u a. \<not> linked g u u a"
    and "\<And>u v a. linked g u v a \<Longrightarrow> linked g v u a"
    and "\<And>u v u' v' a. linked g u v a \<Longrightarrow> linked g u' v' a \<Longrightarrow> {u, v} = {u', v'}"
  shows "mg_inv g"
  unfolding mg_inv_def by (intro conjI allI impI; rule assms; assumption)

lemma linked_live: "linked g u v a \<Longrightarrow> live g u \<and> live g v"
  by (simp add: linked_def)

lemma linked_iff_live_entries:
  "live g u \<Longrightarrow> linked g u v a \<longleftrightarrow>
     v < length (nodes g) \<and> (\<exists>e \<in> set (live_entries g u). first e = v \<and> second e = a)"
  by (auto simp: linked_def live_entries_def live_def)

lemma linked_functional:
  assumes "mg_inv g" "linked g u v a" "linked g u v b"
  shows "a = b"
proof -
  have u: "live g u" using assms(2) by (simp add: linked_def)
  from assms u obtain e e' where
    "e \<in> set (live_entries g u)" "e' \<in> set (live_entries g u)"
    "first e = v" "first e' = v" "second e = a" "second e' = b"
    by (auto simp: linked_iff_live_entries)
  with mg_inv_distinct [OF assms(1) u] show ?thesis
    by (metis distinct_map inj_onD)
qed

lemma mg_inv_empty [simp]: "mg_inv empty_graph"
  by (simp add: mg_inv_def empty_graph_def entries_wf_def linked_def live_def)


section \<open>Finding an edge\<close>

lemma gNode_find_from_eq:
  assumes "ii \<le> length es"
  shows "gNode_find_from g es N inEdge ii =
    ii + find_if (\<lambda>e. first_eq_and_valid g N e \<and> isInEdge e = inEdge) (drop ii es)"
  using assms
proof (induction g es N inEdge ii rule: gNode_find_from.induct)
  case (1 g es N inEdge ii)
  let ?p = "first_eq_and_valid g N" and ?q = "\<lambda>e. first_eq_and_valid g N e \<and> isInEdge e = inEdge"
  let ?xs = "drop ii es"
  let ?k = "find_if ?p ?xs"
  have sub: "\<And>e. ?q e \<Longrightarrow> ?p e" by simp
  consider "?k = length ?xs" | "?k < length ?xs" "isInEdge (?xs ! ?k) = inEdge"
    | "?k < length ?xs" "isInEdge (?xs ! ?k) \<noteq> inEdge"
    using find_if_le [of ?p ?xs] by linarith
  then show ?case
  proof cases
    case 1
    have "find_if ?q ?xs = length ?xs" by (rule find_if_refine_none [OF sub 1])
    with 1 "1.prems" show ?thesis by (subst gNode_find_from.simps) simp
  next
    case 2
    then have "find_if ?q ?xs = ?k"
      using find_if_holds [of ?p ?xs] by (intro find_if_refine_hit) auto
    with 2 "1.prems" show ?thesis by (subst gNode_find_from.simps) (simp add: Let_def)
  next
    case 3
    then have "find_if ?q ?xs = Suc ?k + find_if ?q (drop (Suc ?k) ?xs)"
      by (intro find_if_refine_miss) auto
    moreover have "gNode_find_from g es N inEdge (Suc (ii + ?k)) =
        Suc (ii + ?k) + find_if ?q (drop (Suc (ii + ?k)) es)"
      using 3 "1.prems" by (intro "1.IH") auto
    ultimately show ?thesis
      using 3 "1.prems" by (subst gNode_find_from.simps) (simp add: Let_def add.commute)
  qed
qed

text \<open>\<open>gNode::find\<close> returns the first valid entry with the given node and direction.\<close>

lemma gNode_find_eq:
  "gNode_find g n N inEdge =
     find_if (\<lambda>e. first_eq_and_valid g N e \<and> isInEdge e = inEdge) (edges (node g n))"
  by (simp add: gNode_find_def gNode_find_from_eq)

lemma gNode_find_le: "gNode_find g n N inEdge \<le> length (edges (node g n))"
  by (simp add: gNode_find_eq find_if_le)

lemma entries_wfD:
  assumes "entries_wf g" "u < length (nodes g)" "e \<in> set (edges (node g u))"
  shows "first e < length (nodes g)" "\<not> isInEdge e" "second e < length (edgesF g)"
  using assms by (auto simp: entries_wf_def)

lemma gNode_find_less_iff:
  assumes "entries_wf g" "live g u" "live g v"
  shows "gNode_find g u v False < length (edges (node g u)) \<longleftrightarrow> (\<exists>a. linked g u v a)"
  using assms
  by (auto simp: gNode_find_eq find_if_less_iff linked_def first_eq_and_valid_def live_def
           dest: entries_wfD(2))

lemma gNode_find_entry:
  assumes "live g u" "live g v" "gNode_find g u v False < length (edges (node g u))"
  shows "first (edges (node g u) ! gNode_find g u v False) = v"
    and "linked g u v (second (edges (node g u) ! gNode_find g u v False))"
    and "is_out_edge g (edges (node g u) ! gNode_find g u v False)"
proof -
  let ?i = "gNode_find g u v False"
  have *: "first_eq_and_valid g v (edges (node g u) ! ?i) \<and> isInEdge (edges (node g u) ! ?i) = False"
    using assms(3) unfolding gNode_find_eq by (rule find_if_holds)
  then show f: "first (edges (node g u) ! ?i) = v"
    by (simp add: first_eq_and_valid_def)
  show "linked g u v (second (edges (node g u) ! ?i))"
    using assms f by (auto simp: linked_def intro!: bexI [OF _ nth_mem])
  show "is_out_edge g (edges (node g u) ! ?i)"
    using * f assms(2) by (simp add: is_out_edge_def live_def)
qed

lemma filter_iterator_out:
  "ii < length (edges (node g n)) \<Longrightarrow> is_out_edge g (edges (node g n) ! ii) \<Longrightarrow>
     filter_iterator g n ii = ii"
  by (simp add: filter_iterator_def drop_Suc Cons_nth_drop_Suc [symmetric])

lemma filter_iterator_end [simp]:
  "filter_iterator g n (length (edges (node g n))) = length (edges (node g n))"
  by (simp add: filter_iterator_def)

lemma findEdge_eq:
  assumes "live g u" "live g v"
  shows "findEdge g u v = gNode_find g u v False"
proof (cases "gNode_find g u v False < length (edges (node g u))")
  case True
  then show ?thesis
    using gNode_find_entry [OF assms True] by (simp add: findEdge_def Let_def filter_iterator_out)
next
  case False
  then have "gNode_find g u v False = length (edges (node g u))"
    using gNode_find_le [of g u v False] by simp
  then show ?thesis by (simp add: findEdge_def)
qed

lemma findEdge_less_iff:
  assumes "mg_inv g" "live g u" "live g v"
  shows "findEdge g u v < length (edges (node g u)) \<longleftrightarrow> (\<exists>a. linked g u v a)"
  using assms by (simp add: findEdge_eq gNode_find_less_iff mg_inv_wf)

lemma findEdge_entry:
  assumes "live g u" "live g v" "findEdge g u v < length (edges (node g u))"
  shows "getEdgeDst g u (findEdge g u v) = v"
    and "linked g u v (second (edges (node g u) ! findEdge g u v))"
  using assms gNode_find_entry [of g u v] by (simp_all add: findEdge_eq getEdgeDst_def)

lemma findEdge_le: "findEdge g u v \<le> length (edges (node g u))"
proof -
  have "filter_iterator g u ii \<le> length (edges (node g u))" if "ii \<le> length (edges (node g u))" for ii
    using that find_if_le [of "is_out_edge g" "drop ii (edges (node g u))"]
    by (simp add: filter_iterator_def)
  then show ?thesis using gNode_find_le [of g u v False] by (simp add: findEdge_def Let_def)
qed


section \<open>Adding an edge\<close>

text \<open>The adjacency vector \<open>createEdgeWithReuse\<close> leaves behind.\<close>

definition reuse_insert :: "('n, 'e) morph_graph \<Rightarrow> edge_info list \<Rightarrow> edge_info \<Rightarrow> edge_info list" where
  "reuse_insert g es e =
     (let ii = find_if (first_not_valid g) es in if ii \<noteq> length es then es[ii := e] else es @ [e])"

lemma gNode_createEdgeWithReuse_eq:
  "gNode_createEdgeWithReuse g n N v inEdge =
     (set_edges g n (reuse_insert g (edges (node g n)) \<lparr>first = N, isInEdge = inEdge, second = v\<rparr>),
      find_if (first_not_valid g) (edges (node g n)))"
  by (simp add: gNode_createEdgeWithReuse_def reuse_insert_def Let_def)

lemma reuse_insert_cong:
  "(\<And>m. active (node g m) = active (node h m)) \<Longrightarrow> reuse_insert g = reuse_insert h"
proof -
  assume "\<And>m. active (node g m) = active (node h m)"
  then have "first_not_valid g = first_not_valid h" by (simp add: first_not_valid_def fun_eq_iff)
  then show ?thesis by (intro ext) (simp add: reuse_insert_def)
qed

lemma find_first_not_valid_cong:
  "(\<And>m. active (node g m) = active (node h m)) \<Longrightarrow>
     find_if (first_not_valid g) es = find_if (first_not_valid h) es"
  by (rule find_if_cong) (simp add: first_not_valid_def)

lemma reuse_insert_nth:
  "find_if (first_not_valid g) es < length (reuse_insert g es e)"
  "reuse_insert g es e ! find_if (first_not_valid g) es = e"
  using find_if_le [of "first_not_valid g" es] by (auto simp: reuse_insert_def Let_def nth_append)

lemma reuse_insert_no_hole:
  "\<forall>x \<in> set es. active (node g (first x)) \<Longrightarrow> reuse_insert g es e = es @ [e]"
  by (simp add: reuse_insert_def find_if_eq_length_iff first_not_valid_def)

lemma reuse_insert_live:
  assumes "active (node g (first e))"
  shows "\<exists>xs ys. filter (\<lambda>x. active (node g (first x))) es = xs @ ys \<and>
           filter (\<lambda>x. active (node g (first x))) (reuse_insert g es e) = xs @ e # ys"
proof (cases "find_if (first_not_valid g) es = length es")
  case True
  then show ?thesis using assms by (auto simp: reuse_insert_def)
next
  case False
  let ?i = "find_if (first_not_valid g) es"
  let ?P = "\<lambda>x. active (node g (first x))"
  from False have i: "?i < length es" using find_if_le [of "first_not_valid g" es] by simp
  then have "\<not> ?P (es ! ?i)" using find_if_holds [OF i] by (simp add: first_not_valid_def)
  then show ?thesis
    using filter_update_hole [of ?i es ?P e] i assms False by (auto simp: reuse_insert_def Let_def)
qed

lemma reuse_insert_subset: "set (reuse_insert g es e) \<subseteq> insert e (set es)"
  by (auto simp: reuse_insert_def Let_def dest: set_update_subset_insert [THEN subsetD])

lemma reuse_insert_mem:
  assumes "active (node g (first e))" "active (node g (first x))"
  shows "x \<in> set (reuse_insert g es e) \<longleftrightarrow> x = e \<or> x \<in> set es"
proof -
  let ?P = "\<lambda>x. active (node g (first x))"
  obtain xs ys where "filter ?P es = xs @ ys" "filter ?P (reuse_insert g es e) = xs @ e # ys"
    using reuse_insert_live [of g e es] assms by auto
  then have "x \<in> set (filter ?P (reuse_insert g es e)) \<longleftrightarrow> x = e \<or> x \<in> set (filter ?P es)"
    by auto
  then show ?thesis using assms by simp
qed

text \<open>The new edge: the case in which \<open>src\<close> and \<open>dst\<close> are not linked yet.\<close>

definition link_new :: "'e \<Rightarrow> ('n, 'e) morph_graph \<Rightarrow> nat \<Rightarrow> nat \<Rightarrow> ('n, 'e) morph_graph" where
  "link_new d g src dst =
     (let a = length (edgesF g); g1 = g\<lparr>edgesF := edgesF g @ [d]\<rparr>;
          g2 = set_edges g1 dst (reuse_insert g (edges (node g dst))
                 \<lparr>first = src, isInEdge = False, second = a\<rparr>)
      in set_edges g2 src (reuse_insert g (edges (node g src))
                 \<lparr>first = dst, isInEdge = False, second = a\<rparr>))"

lemma node_edgesF_update [simp]: "node (g\<lparr>edgesF := x\<rparr>) = node g"
  by (simp add: node_def fun_eq_iff)

lemma link_new_simps [simp]:
  "length (nodes (link_new d g src dst)) = length (nodes g)"
  "edgesF (link_new d g src dst) = edgesF g @ [d]"
  "active (node (link_new d g src dst) m) = active (node g m)"
  "data (node (link_new d g src dst) m) = data (node g m)"
  by (simp_all add: link_new_def Let_def)

lemma live_link_new [simp]: "live (link_new d g src dst) = live g"
  by (simp add: live_def fun_eq_iff)

lemma edges_link_new:
  assumes "src < length (nodes g)" "dst < length (nodes g)" "src \<noteq> dst"
  shows "edges (node (link_new d g src dst) u) =
    (if u = src then reuse_insert g (edges (node g src))
        \<lparr>first = dst, isInEdge = False, second = length (edgesF g)\<rparr>
     else if u = dst then reuse_insert g (edges (node g dst))
        \<lparr>first = src, isInEdge = False, second = length (edgesF g)\<rparr>
     else edges (node g u))"
  using assms by (simp add: link_new_def Let_def edges_set_edges)

lemma addEdge_new:
  assumes "live g src" "live g dst" "src \<noteq> dst"
    "gNode_find g src dst False = length (edges (node g src))"
  shows "addEdge d g src dst =
    (link_new d g src dst, find_if (first_not_valid g) (edges (node g src)))"
proof -
  let ?a = "length (edgesF g)"
  let ?g1 = "fst (mkEdge g d)"
  let ?g2 = "fst (gNode_createEdgeWithReuse ?g1 dst src ?a False)"
  let ?g3 = "fst (gNode_createEdgeWithReuse ?g2 src dst ?a False)"
  let ?ii = "snd (gNode_createEdgeWithReuse ?g2 src dst ?a False)"
  have len: "src < length (nodes g)" "dst < length (nodes g)" using assms by (simp_all add: live_def)
  have g2: "?g2 = set_edges ?g1 dst (reuse_insert g (edges (node g dst))
               \<lparr>first = src, isInEdge = False, second = ?a\<rparr>)"
    by (simp add: gNode_createEdgeWithReuse_eq reuse_insert_cong [of ?g1 g])
  have e2: "edges (node ?g2 src) = edges (node g src)"
    using len assms(3) by (simp add: g2 edges_set_edges)
  have r2: "reuse_insert ?g2 = reuse_insert g"
    by (rule reuse_insert_cong) (simp add: g2)
  have g3: "?g3 = link_new d g src dst"
    unfolding gNode_createEdgeWithReuse_eq [of ?g2] e2 r2 fst_conv
    unfolding g2 by (simp add: link_new_def Let_def mkEdge_def)
  have ii: "?ii = find_if (first_not_valid g) (edges (node g src))"
    unfolding gNode_createEdgeWithReuse_eq [of ?g2] e2 snd_conv
    by (rule find_first_not_valid_cong) (simp add: g2)
  have "filter_iterator ?g3 src ?ii = ?ii"
    unfolding g3 ii
    by (rule filter_iterator_out)
       (use len assms in \<open>simp_all add: edges_link_new reuse_insert_nth is_out_edge_def live_def\<close>)
  then show ?thesis
    using assms(4) g3 ii
    by (simp add: addEdge_def createEdgeWithReuse_def Let_def case_prod_beta)
qed

lemma addEdge_old:
  assumes "live g src" "live g dst" "gNode_find g src dst False < length (edges (node g src))"
  shows "addEdge d g src dst = (g, findEdge g src dst)"
  using assms gNode_find_entry [OF assms]
  by (simp add: addEdge_def createEdgeWithReuse_def findEdge_eq filter_iterator_out)

lemma linked_link_new:
  assumes "live g src" "live g dst" "src \<noteq> dst"
  shows "linked (link_new d g src dst) u v b \<longleftrightarrow>
    linked g u v b \<or> (b = length (edgesF g) \<and> (u = src \<and> v = dst \<or> u = dst \<and> v = src))"
proof -
  have len: "src < length (nodes g)" "dst < length (nodes g)" using assms by (simp_all add: live_def)
  have *: "(\<exists>x \<in> set (reuse_insert g es \<lparr>first = w, isInEdge = False, second = a\<rparr>).
              first x = v \<and> second x = b) \<longleftrightarrow>
           (\<exists>x \<in> set es. first x = v \<and> second x = b) \<or> (w = v \<and> a = b)"
    if "live g w" "live g v" for es w a
    using that reuse_insert_mem [of g "\<lparr>first = w, isInEdge = False, second = a\<rparr>" _ es]
    by (auto simp: live_def; metis edge_info.select_convs(1,3))
  show ?thesis
  proof (cases "live g v")
    case True
    then show ?thesis
      using assms by (simp add: linked_def edges_link_new [OF len assms(3)] *) blast
  qed (use assms in \<open>auto simp: linked_def\<close>)
qed


lemma live_entries_link_new:
  assumes "live g src" "live g dst" "src \<noteq> dst"
  shows "\<exists>xs ys. live_entries g u = xs @ ys \<and> live_entries (link_new d g src dst) u =
    (if u = src then xs @ \<lparr>first = dst, isInEdge = False, second = length (edgesF g)\<rparr> # ys
     else if u = dst then xs @ \<lparr>first = src, isInEdge = False, second = length (edgesF g)\<rparr> # ys
     else xs @ ys)"
proof -
  have len: "src < length (nodes g)" "dst < length (nodes g)" using assms by (simp_all add: live_def)
  show ?thesis
    using assms reuse_insert_live [of g "\<lparr>first = dst, isInEdge = False, second = length (edgesF g)\<rparr>"]
      reuse_insert_live [of g "\<lparr>first = src, isInEdge = False, second = length (edgesF g)\<rparr>"]
    by (auto simp: live_entries_def edges_link_new [OF len assms(3)] live_def)
qed

lemma entries_wf_link_new:
  assumes "entries_wf g" "live g src" "live g dst" "src \<noteq> dst"
  shows "entries_wf (link_new d g src dst)"
proof -
  have len: "src < length (nodes g)" "dst < length (nodes g)" using assms by (simp_all add: live_def)
  have "first e < length (nodes g) \<and> \<not> isInEdge e \<and> second e < Suc (length (edgesF g))"
    if "u < length (nodes g)" "e \<in> set (edges (node (link_new d g src dst) u))" for u e
  proof -
    let ?a = "length (edgesF g)"
    have "e \<in> set (edges (node g u)) \<or> e = \<lparr>first = dst, isInEdge = False, second = ?a\<rparr> \<or>
        e = \<lparr>first = src, isInEdge = False, second = ?a\<rparr>"
      using that(2) reuse_insert_subset unfolding edges_link_new [OF len assms(4)]
      by (fastforce split: if_splits)
    with len entries_wfD [OF assms(1) that(1)] show ?thesis by (auto intro: less_SucI)
  qed
  then show ?thesis by (simp add: entries_wf_def)
qed

lemma mg_inv_link_new:
  assumes "mg_inv g" "live g src" "live g dst" "src \<noteq> dst" "\<nexists>a. linked g src dst a"
  shows "mg_inv (link_new d g src dst)"
proof -
  let ?h = "link_new d g src dst"
  note lnk = linked_link_new [OF assms(2-4), of d]
  have old: "b < length (edgesF g)" if "linked g u v b" for u v b
    using that entries_wfD(3) [OF mg_inv_wf [OF assms(1)]] by (auto simp: linked_def live_def)
  have len: "src < length (nodes g)" "dst < length (nodes g)" using assms by (simp_all add: live_def)
  have dead: "edges (node ?h u) = []" if "u < length (nodes g)" "\<not> active (node g u)" for u
    using that assms(1-4) by (auto simp: edges_link_new [OF len assms(4)] live_def mg_inv_dead)
  have dist: "distinct (map first (live_entries ?h u))" if u: "live g u" for u
  proof -
    obtain xs ys where xy: "live_entries g u = xs @ ys" "live_entries ?h u =
      (if u = src then xs @ \<lparr>first = dst, isInEdge = False, second = length (edgesF g)\<rparr> # ys
       else if u = dst then xs @ \<lparr>first = src, isInEdge = False, second = length (edgesF g)\<rparr> # ys
       else xs @ ys)"
      using live_entries_link_new [OF assms(2-4), of u d] by blast
    have "\<nexists>a. linked g dst src a" using assms(5) mg_inv_sym [OF assms(1)] by blast
    with assms(2,3,5) len
    have "dst \<notin> first ` set (live_entries g src)" "src \<notin> first ` set (live_entries g dst)"
      by (auto simp: linked_iff_live_entries)
    with mg_inv_distinct [OF assms(1) u] xy show ?thesis by auto
  qed
  have sym: "linked ?h v u a" if "linked ?h u v a" for u v a
    using that mg_inv_sym [OF assms(1)] unfolding lnk by blast
  have loop: "\<not> linked ?h u u a" for u a
    using mg_inv_no_loop [OF assms(1)] assms(4) unfolding lnk by blast
  have inj: "{u, v} = {u', v'}" if "linked ?h u v a" "linked ?h u' v' a" for u v u' v' a
  proof (cases "a = length (edgesF g)")
    case True
    with that old [of u v a] old [of u' v' a] have "{u, v} = {src, dst}" "{u', v'} = {src, dst}"
      unfolding lnk by auto
    then show ?thesis by simp
  next
    case False
    with that have "linked g u v a" "linked g u' v' a" unfolding lnk by simp_all
    then show ?thesis by (rule mg_inv_inj [OF assms(1)])
  qed
  show ?thesis
  proof (rule mg_invI)
    show "entries_wf ?h"
      by (rule entries_wf_link_new [OF mg_inv_wf [OF assms(1)] assms(2-4)])
    show "edges (node ?h u) = []" if "u < length (nodes ?h)" "\<not> active (node ?h u)" for u
      using that by (simp add: dead)
    show "distinct (map first (live_entries ?h u))" if "live ?h u" for u
      using that by (simp add: dist)
  qed (rule loop, erule sym, erule (1) inj)
qed

text \<open>\<open>addEdge\<close> keeps the invariant, links the two nodes and leaves every other link as it was;
  the iterator it returns points to the edge.\<close>

lemma mg_inv_addEdge:
  assumes "mg_inv g" "live g src" "live g dst" "src \<noteq> dst"
  shows "mg_inv (fst (addEdge d g src dst))"
proof (cases "gNode_find g src dst False = length (edges (node g src))")
  case True
  then have "\<nexists>a. linked g src dst a"
    using gNode_find_less_iff [OF mg_inv_wf [OF assms(1)] assms(2,3)] by simp
  with True assms show ?thesis by (simp add: addEdge_new mg_inv_link_new)
next
  case False
  then show ?thesis
    using assms gNode_find_le [of g src dst False] by (simp add: addEdge_old)
qed

lemma addEdge_frame [simp]:
  assumes "live g src" "live g dst" "src \<noteq> dst"
  shows "length (nodes (fst (addEdge d g src dst))) = length (nodes g)"
    and "active (node (fst (addEdge d g src dst)) m) = active (node g m)"
    and "data (node (fst (addEdge d g src dst)) m) = data (node g m)"
    and "live (fst (addEdge d g src dst)) = live g"
proof -
  consider "gNode_find g src dst False = length (edges (node g src))"
    | "gNode_find g src dst False < length (edges (node g src))"
    using gNode_find_le [of g src dst False] by linarith
  then have "fst (addEdge d g src dst) \<in> {g, link_new d g src dst}"
    using assms by cases (simp_all add: addEdge_new addEdge_old)
  then show "length (nodes (fst (addEdge d g src dst))) = length (nodes g)"
    "active (node (fst (addEdge d g src dst)) m) = active (node g m)"
    "data (node (fst (addEdge d g src dst)) m) = data (node g m)"
    "live (fst (addEdge d g src dst)) = live g"
    by auto
qed

lemma addEdge_edges_other:
  assumes "live g src" "live g dst" "src \<noteq> dst" "u \<noteq> src" "u \<noteq> dst"
  shows "edges (node (fst (addEdge d g src dst)) u) = edges (node g u)"
proof (cases "gNode_find g src dst False = length (edges (node g src))")
  case True
  with assms show ?thesis by (simp add: addEdge_new edges_link_new live_def)
next
  case False
  then show ?thesis
    using assms gNode_find_le [of g src dst False] by (simp add: addEdge_old)
qed


section \<open>Removing a node\<close>

lemma removeNode_simps [simp]:
  "length (nodes (removeNode g n)) = length (nodes g)"
  "edgesF (removeNode g n) = edgesF g"
  by (simp_all add: removeNode_def)

lemma node_removeNode:
  assumes "live g n"
  shows "node (removeNode g n) m =
    (if m = n then node g n\<lparr>active := False, edges := []\<rparr> else node g m)"
  using assms by (simp add: removeNode_def live_def node_set_node)

lemma live_removeNode: "live g n \<Longrightarrow> live (removeNode g n) m \<longleftrightarrow> live g m \<and> m \<noteq> n"
  by (auto simp: live_def node_removeNode)

lemma linked_removeNode:
  "live g n \<Longrightarrow> linked (removeNode g n) u v a \<longleftrightarrow> linked g u v a \<and> u \<noteq> n \<and> v \<noteq> n"
  by (auto simp: linked_def live_removeNode node_removeNode)

lemma mg_inv_removeNode:
  assumes "mg_inv g" "live g n"
  shows "mg_inv (removeNode g n)"
proof (rule mg_invI)
  show "entries_wf (removeNode g n)"
    using mg_inv_wf [OF assms(1)] by (auto simp: entries_wf_def node_removeNode [OF assms(2)])
  show "edges (node (removeNode g n) u) = []"
    if "u < length (nodes (removeNode g n))" "\<not> active (node (removeNode g n) u)" for u
    using that mg_inv_dead [OF assms(1)] by (auto simp: node_removeNode [OF assms(2)] split: if_splits)
  show "distinct (map first (live_entries (removeNode g n) u))" if "live (removeNode g n) u" for u
  proof -
    have "live_entries (removeNode g n) u = filter (\<lambda>e. first e \<noteq> n) (live_entries g u)"
      using that by (auto simp: live_entries_def node_removeNode [OF assms(2)] live_removeNode [OF assms(2)]
          intro: filter_cong)
    moreover have "live g u" using that by (simp add: live_removeNode [OF assms(2)])
    ultimately show ?thesis
      using mg_inv_distinct [OF assms(1)] by (simp add: distinct_map_filter)
  qed
  show "\<not> linked (removeNode g n) u u a" for u a
    using mg_inv_no_loop [OF assms(1)] by (simp add: linked_removeNode [OF assms(2)])
  show "linked (removeNode g n) v u a" if "linked (removeNode g n) u v a" for u v a
    using that mg_inv_sym [OF assms(1)] by (simp add: linked_removeNode [OF assms(2)])
  show "{u, v} = {u', v'}"
    if "linked (removeNode g n) u v a" "linked (removeNode g n) u' v' a" for u v u' v' a
    using that by (intro mg_inv_inj [OF assms(1), where a = a]) (simp_all add: linked_removeNode [OF assms(2)])
qed

section \<open>Creating a node\<close>

text \<open>\<open>createNode\<close> followed by \<open>addNode\<close>, as every client calls them.\<close>

definition new_node :: "('n, 'e) morph_graph \<Rightarrow> 'n \<Rightarrow> ('n, 'e) morph_graph" where
  "new_node g x = addNode (fst (createNode g x)) (length (nodes g))"

lemma node_new_node:
  assumes "m \<le> length (nodes g)"
  shows "node (new_node g x) m =
    (if m = length (nodes g) then \<lparr>data = x, edges = [], active = True\<rparr> else node g m)"
  using assms by (simp add: new_node_def addNode_def node_set_node node_createNode)

lemma new_node_simps [simp]:
  "length (nodes (new_node g x)) = Suc (length (nodes g))"
  "edgesF (new_node g x) = edgesF g"
  by (simp_all add: new_node_def addNode_def)

lemma live_new_node: "live (new_node g x) m \<longleftrightarrow> live g m \<or> m = length (nodes g)"
  by (cases "m \<le> length (nodes g)") (auto simp: live_def node_new_node)

lemma linked_new_node:
  assumes "entries_wf g"
  shows "linked (new_node g x) u v a = linked g u v a"
proof (cases "u < length (nodes g)")
  case True
  then show ?thesis
    by (auto simp: linked_def live_new_node node_new_node dest: entries_wfD(1) [OF assms])
next
  case False
  then show ?thesis by (auto simp: linked_def live_new_node live_def node_new_node)
qed

lemma mg_inv_new_node:
  assumes "mg_inv g"
  shows "mg_inv (new_node g x)"
proof (rule mg_invI)
  note wf = mg_inv_wf [OF assms]
  show "entries_wf (new_node g x)"
    using wf by (auto simp: entries_wf_def less_Suc_eq_le node_new_node less_imp_le dest!: le_neq_implies_less)
  show "edges (node (new_node g x) u) = []"
    if "u < length (nodes (new_node g x))" "\<not> active (node (new_node g x) u)" for u
    using that mg_inv_dead [OF assms] by (auto simp: less_Suc_eq_le node_new_node split: if_splits)
  show "distinct (map first (live_entries (new_node g x) u))" if "live (new_node g x) u" for u
  proof (cases "u = length (nodes g)")
    case True
    then show ?thesis by (simp add: live_entries_def node_new_node)
  next
    case False
    then have u: "live g u" using that by (simp add: live_new_node)
    then have "node (new_node g x) (first e) = node g (first e)" if "e \<in> set (edges (node g u))" for e
      using that entries_wfD(1) [OF wf, of u e] by (simp add: node_new_node live_def)
    with u have "live_entries (new_node g x) u = live_entries g u"
      by (auto simp: live_entries_def node_new_node live_def intro!: filter_cong)
    then show ?thesis using mg_inv_distinct [OF assms u] by simp
  qed
  show "\<not> linked (new_node g x) u u a" for u a
    using mg_inv_no_loop [OF assms] by (simp add: linked_new_node [OF wf])
  show "linked (new_node g x) v u a" if "linked (new_node g x) u v a" for u v a
    using that mg_inv_sym [OF assms] by (simp add: linked_new_node [OF wf])
  show "{u, v} = {u', v'}"
    if "linked (new_node g x) u v a" "linked (new_node g x) u' v' a" for u v u' v' a
    using that by (intro mg_inv_inj [OF assms, where a = a]) (simp_all add: linked_new_node [OF wf])
qed

section \<open>Writing node and edge data\<close>

lemma updData_simps [simp]:
  "length (nodes (updData g n h)) = length (nodes g)"
  "edgesF (updData g n h) = edgesF g"
  by (simp_all add: updData_def)

lemma node_updData:
  "n < length (nodes g) \<Longrightarrow>
     node (updData g n h) m = (if m = n then node g n\<lparr>data := h (data (node g n))\<rparr> else node g m)"
  by (simp add: updData_def node_set_node)

text \<open>The invariant depends on the links only, not on what nodes and edges store.\<close>

lemma mg_inv_cong:
  assumes "mg_inv g" "length (nodes h) = length (nodes g)" "length (edgesF h) = length (edgesF g)"
    and "\<And>m. m < length (nodes g) \<Longrightarrow> edges (node h m) = edges (node g m) \<and> active (node h m) = active (node g m)"
  shows "mg_inv h"
proof (rule mg_invI)
  have liv: "live h = live g" using assms(2,4) by (auto simp: live_def fun_eq_iff)
  have lnk: "linked h u v a = linked g u v a" for u v a
    using assms(4) by (auto simp: linked_def liv) (auto simp: live_def)
  show "entries_wf h" using mg_inv_wf [OF assms(1)] assms(2-4) by (simp add: entries_wf_def)
  show "edges (node h u) = []" if "u < length (nodes h)" "\<not> active (node h u)" for u
    using that mg_inv_dead [OF assms(1)] assms(2,4) by simp
  show "distinct (map first (live_entries h u))" if "live h u" for u
  proof -
    have u: "live g u" using that by (simp add: liv)
    then have "live_entries h u = live_entries g u"
      using assms(4) mg_inv_wf [OF assms(1)]
      by (auto simp: live_entries_def live_def entries_wf_def intro!: filter_cong)
    then show ?thesis using mg_inv_distinct [OF assms(1) u] by simp
  qed
  show "\<not> linked h u u a" for u a using mg_inv_no_loop [OF assms(1)] by (simp add: lnk)
  show "linked h v u a" if "linked h u v a" for u v a
    using that mg_inv_sym [OF assms(1)] by (simp add: lnk)
  show "{u, v} = {u', v'}" if "linked h u v a" "linked h u' v' a" for u v u' v' a
    using that by (intro mg_inv_inj [OF assms(1), where a = a]) (simp_all add: lnk)
qed

lemma mg_inv_updData: "mg_inv g \<Longrightarrow> n < length (nodes g) \<Longrightarrow> mg_inv (updData g n h)"
  by (erule mg_inv_cong) (simp_all add: node_updData)

lemma mg_inv_updEdgeData: "mg_inv g \<Longrightarrow> mg_inv (updEdgeData g src it h)"
  by (erule mg_inv_cong) simp_all

lemma live_updEdgeData [simp]: "live (updEdgeData g src it h) = live g"
  by (simp add: live_def fun_eq_iff)

lemma live_updData [simp]: "n < length (nodes g) \<Longrightarrow> live (updData g n h) = live g"
  by (auto simp: live_def fun_eq_iff node_updData)


section \<open>Removing an edge\<close>

lemma removed_entry:
  assumes "add_mset x (mset es') = mset es" "P x" "distinct (map first (filter P es))"
  shows "distinct (map first (filter P es'))"
    and "first x \<notin> first ` set (filter P es')"
    and "set es = insert x (set es')"
proof -
  have "mset (x # es') = mset es" using assms(1) by simp
  then have "mset (map first (filter P (x # es'))) = mset (map first (filter P es))"
    by (metis mset_filter mset_map)
  then have "distinct (map first (filter P (x # es')))"
    using assms(3) mset_eq_imp_distinct_iff by blast
  then show "distinct (map first (filter P es'))" "first x \<notin> first ` set (filter P es')"
    using assms(2) by simp_all
  show "set es = insert x (set es')"
    using \<open>mset (x # es') = mset es\<close> by (metis list.simps(15) set_mset_mset)
qed

text \<open>One entry fewer in the vector of \<open>src\<close> and of \<open>dst\<close>.\<close>

definition unlink :: "('n, 'e) morph_graph \<Rightarrow> nat \<Rightarrow> nat \<Rightarrow> ('n, 'e) morph_graph \<Rightarrow> bool" where
  "unlink g src dst h \<longleftrightarrow>
     length (nodes h) = length (nodes g) \<and> edgesF h = edgesF g \<and>
     (\<forall>m. active (node h m) = active (node g m) \<and> data (node h m) = data (node g m)) \<and>
     (\<forall>m. m \<noteq> src \<longrightarrow> m \<noteq> dst \<longrightarrow> edges (node h m) = edges (node g m)) \<and>
     (\<exists>x. first x = dst \<and> add_mset x (mset (edges (node h src))) = mset (edges (node g src))) \<and>
     (\<exists>x. first x = src \<and> add_mset x (mset (edges (node h dst))) = mset (edges (node g dst)))"

lemma removeEdge_unlink:
  assumes "mg_inv g" "live g src" "live g dst" "linked g src dst a"
  shows "\<exists>h. removeEdge g src (findEdge g src dst) = Inr h \<and> unlink g src dst h"
proof -
  have neq: "src \<noteq> dst" using assms(1,4) mg_inv_no_loop by blast
  have len: "src < length (nodes g)" "dst < length (nodes g)" using assms by (simp_all add: live_def)
  let ?it = "findEdge g src dst"
  have it: "?it < length (edges (node g src))" "first (edges (node g src) ! ?it) = dst"
    using findEdge_less_iff [OF assms(1-3)] findEdge_entry(1) [OF assms(2,3)] assms(4)
    by (auto simp: getEdgeDst_def)
  let ?ii = "gNode_find g dst src False" and ?es = "edges (node g dst)"
  have "linked g dst src a" using mg_inv_sym [OF assms(1,4)] .
  then have ii: "?ii < length ?es"
    using gNode_find_less_iff [OF mg_inv_wf [OF assms(1)] assms(3,2)] by blast
  then have fi: "first (?es ! ?ii) = src" using gNode_find_entry(1) [OF assms(3,2)] by simp
  let ?g1 = "set_edges g dst (take ?ii ?es @ drop (Suc ?ii) ?es)"
  let ?h = "gNode_erase_at ?g1 src ?it"
  have g1: "gNode_erase g dst src False = ?g1" using ii by (simp add: gNode_erase_def Let_def)
  have h: "?h = set_edges ?g1 src (butlast ((edges (node g src))[?it := last (edges (node g src))]))"
    using neq len by (simp add: gNode_erase_at_def Let_def edges_set_edges)
  have "removeEdge g src ?it = Inr ?h"
    using it neq g1 by (simp add: removeEdge_def)
  moreover have "add_mset (?es ! ?ii) (mset (take ?ii ?es @ drop (Suc ?ii) ?es)) = mset ?es"
    by (subst (4) id_take_nth_drop [OF ii]) simp
  ultimately show ?thesis
    using it fi neq len mset_butlast_update_last [OF it(1)]
    by (auto simp: unlink_def h edges_set_edges)
qed

lemma unlink_live: "unlink g src dst h \<Longrightarrow> live h = live g"
  by (auto simp: unlink_def live_def fun_eq_iff)

lemma unlink_entries:
  assumes "mg_inv g" "live g src" "live g dst" "unlink g src dst h" "live g u"
  shows "distinct (map first (live_entries h u))" "set (edges (node h u)) \<subseteq> set (edges (node g u))"
proof -
  let ?P = "\<lambda>e. active (node g (first e))"
  have le: "live_entries h m = filter ?P (edges (node h m))" for m
    using assms(4) by (simp add: live_entries_def unlink_def)
  have d: "distinct (map first (filter ?P (edges (node g m))))" if "live g m" for m
    using mg_inv_distinct [OF assms(1) that] by (simp add: live_entries_def)
  have P: "?P x" if "first x = src \<or> first x = dst" for x using that assms(2,3) by (auto simp: live_def)
  from assms(4) consider "u = src" | "u = dst" | "edges (node h u) = edges (node g u)"
    by (auto simp: unlink_def)
  then have "distinct (map first (live_entries h u)) \<and> set (edges (node h u)) \<subseteq> set (edges (node g u))"
  proof cases
    case 1
    with assms(4) obtain x where
      x: "first x = dst" "add_mset x (mset (edges (node h u))) = mset (edges (node g u))"
      unfolding unlink_def by blast
    note r = removed_entry [OF x(2) P [OF disjI2 [OF x(1)]] d [OF assms(5)]]
    from r(1,3) show ?thesis by (simp add: le subset_insertI)
  next
    case 2
    with assms(4) obtain x where
      x: "first x = src" "add_mset x (mset (edges (node h u))) = mset (edges (node g u))"
      unfolding unlink_def by blast
    note r = removed_entry [OF x(2) P [OF disjI1 [OF x(1)]] d [OF assms(5)]]
    from r(1,3) show ?thesis by (simp add: le subset_insertI)
  next
    case 3
    with d [OF assms(5)] show ?thesis by (simp add: le)
  qed
  then show "distinct (map first (live_entries h u))" "set (edges (node h u)) \<subseteq> set (edges (node g u))"
    by simp_all
qed

lemma linked_unlink:
  assumes "mg_inv g" "live g src" "live g dst" "src \<noteq> dst" "unlink g src dst h"
  shows "linked h u v b \<longleftrightarrow> linked g u v b \<and> \<not> (u = src \<and> v = dst \<or> u = dst \<and> v = src)"
proof -
  have *: "(\<exists>e \<in> set es'. first e = v \<and> second e = b) \<longleftrightarrow>
           (\<exists>e \<in> set es. first e = v \<and> second e = b) \<and> v \<noteq> w"
    if "add_mset x (mset es') = mset es" "first x = w" "active (node g w)" "active (node g v)"
      "distinct (map first (filter (\<lambda>e. active (node g (first e))) es))" for es es' x w
    using that(2-4) removed_entry(2,3) [OF that(1) _ that(5)] by (auto simp: image_iff)
  note lv = unlink_live [OF assms(5)]
  have d: "distinct (map first (filter (\<lambda>e. active (node g (first e))) (edges (node g m))))" if "live g m" for m
    using mg_inv_distinct [OF assms(1) that] by (simp add: live_entries_def)
  show ?thesis
  proof (cases "live g u \<and> live g v")
    case True
    then have v: "active (node g v)" by (simp add: live_def)
    consider "u = src" | "u = dst" | "u \<noteq> src" "u \<noteq> dst" by blast
    then show ?thesis
    proof cases
      case 1
      with assms(5) obtain x where x: "first x = dst" "add_mset x (mset (edges (node h src))) = mset (edges (node g src))"
        unfolding unlink_def by blast
      show ?thesis
        using * [OF x(2,1) _ v d [OF assms(2)]] assms(3,4) True 1
        by (auto simp: linked_def lv live_def)
    next
      case 2
      with assms(5) obtain x where x: "first x = src" "add_mset x (mset (edges (node h dst))) = mset (edges (node g dst))"
        unfolding unlink_def by blast
      show ?thesis
        using * [OF x(2,1) _ v d [OF assms(3)]] assms(2,4) True 2
        by (auto simp: linked_def lv live_def)
    next
      case 3
      with assms(5) show ?thesis by (simp add: linked_def lv unlink_def)
    qed
  qed (auto simp: linked_def lv)
qed

lemma mg_inv_unlink:
  assumes "mg_inv g" "live g src" "live g dst" "src \<noteq> dst" "unlink g src dst h"
  shows "mg_inv h"
proof (rule mg_invI)
  note lnk = linked_unlink [OF assms]
  have sub: "set (edges (node h u)) \<subseteq> set (edges (node g u))" if "u < length (nodes g)" for u
  proof (cases "live g u")
    case True
    then show ?thesis using unlink_entries(2) [OF assms(1-3,5)] by simp
  next
    case False
    then have "u \<noteq> src" "u \<noteq> dst" using assms(2,3) by auto
    then show ?thesis using assms(5) by (simp add: unlink_def)
  qed
  show "entries_wf h"
    using mg_inv_wf [OF assms(1)] sub assms(5) by (fastforce simp: entries_wf_def unlink_def)
  show "edges (node h u) = []" if "u < length (nodes h)" "\<not> active (node h u)" for u
    using that sub [of u] mg_inv_dead [OF assms(1), of u] assms(5) by (auto simp: unlink_def)
  show "distinct (map first (live_entries h u))" if "live h u" for u
    using that unlink_entries(1) [OF assms(1-3,5)] by (simp add: unlink_live [OF assms(5)])
  show "\<not> linked h u u a" for u a using mg_inv_no_loop [OF assms(1)] by (simp add: lnk)
  show "linked h v u a" if "linked h u v a" for u v a
    using that mg_inv_sym [OF assms(1)] by (auto simp: lnk)
  show "{u, v} = {u', v'}" if "linked h u v a" "linked h u' v' a" for u v u' v' a
    using that by (intro mg_inv_inj [OF assms(1), where a = a]) (simp_all add: lnk)
qed


section \<open>The abstract graph: a symmetric partial map of edge data\<close>

definition edge_val :: "('n, 'e) morph_graph \<Rightarrow> nat \<Rightarrow> nat \<Rightarrow> 'e option" where
  "edge_val g u v =
     (if live g u \<and> live g v \<and> findEdge g u v < length (edges (node g u))
      then Some (getEdgeData g u (findEdge g u v)) else None)"

lemma edge_val_linked:
  assumes "mg_inv g" "linked g u v a"
  shows "edge_val g u v = Some (edgesF g ! a)"
proof -
  have l: "live g u" "live g v" using assms(2) by (simp_all add: linked_def)
  with assms have f: "findEdge g u v < length (edges (node g u))" by (auto simp: findEdge_less_iff)
  then have "second (edges (node g u) ! findEdge g u v) = a"
    using linked_functional [OF assms(1)] findEdge_entry(2) [OF l f] assms(2) by blast
  with l f show ?thesis by (simp add: edge_val_def getEdgeData_def)
qed

lemma edge_val_None:
  assumes "mg_inv g"
  shows "edge_val g u v = None \<longleftrightarrow> (\<nexists>a. linked g u v a)"
  using edge_val_linked [OF assms] findEdge_less_iff [OF assms]
  by (auto simp: edge_val_def linked_def)

lemma edge_val_eqI:
  assumes "mg_inv g" "mg_inv h" "\<And>a. linked h u v a \<longleftrightarrow> linked g u v a"
    "\<And>a. linked g u v a \<Longrightarrow> edgesF h ! a = edgesF g ! a"
  shows "edge_val h u v = edge_val g u v"
proof (cases "\<exists>a. linked g u v a")
  case True
  then obtain a where "linked g u v a" by blast
  with assms show ?thesis by (simp add: edge_val_linked [where a = a])
next
  case False
  with assms show ?thesis by (metis edge_val_None)
qed

lemma linked_address: "mg_inv g \<Longrightarrow> linked g u v a \<Longrightarrow> a < length (edgesF g)"
  using entries_wfD(3) [OF mg_inv_wf] by (auto simp: linked_def live_def)

lemma edge_val_sym: "mg_inv g \<Longrightarrow> edge_val g u v = edge_val g v u"
  by (metis edge_val_None edge_val_linked mg_inv_sym)

lemma edge_val_live: "edge_val g u v = Some x \<Longrightarrow> live g u \<and> live g v"
  by (auto simp: edge_val_def split: if_splits)

lemma edge_val_irrefl: "mg_inv g \<Longrightarrow> edge_val g u u = None"
  by (simp add: edge_val_None mg_inv_no_loop)

lemma edge_val_link_new:
  assumes "mg_inv g" "live g src" "live g dst" "src \<noteq> dst" "\<nexists>a. linked g src dst a"
  shows "edge_val (link_new d g src dst) u v =
    (if u = src \<and> v = dst \<or> u = dst \<and> v = src then Some d else edge_val g u v)"
proof (cases "u = src \<and> v = dst \<or> u = dst \<and> v = src")
  case True
  then have "linked (link_new d g src dst) u v (length (edgesF g))"
    using linked_link_new [OF assms(2-4)] by blast
  with True mg_inv_link_new [OF assms] show ?thesis by (simp add: edge_val_linked)
next
  case False
  then have "edge_val (link_new d g src dst) u v = edge_val g u v"
    using linked_link_new [OF assms(2-4)] linked_address [OF assms(1)]
    by (intro edge_val_eqI [OF assms(1) mg_inv_link_new [OF assms]]) (auto simp: nth_append)
  with False show ?thesis by (simp only: if_False)
qed

lemma edge_val_addEdge:
  assumes "mg_inv g" "live g src" "live g dst" "src \<noteq> dst"
  shows "edge_val (fst (addEdge d g src dst)) u v =
    (if (u = src \<and> v = dst \<or> u = dst \<and> v = src) \<and> edge_val g src dst = None then Some d
     else edge_val g u v)"
proof (cases "gNode_find g src dst False = length (edges (node g src))")
  case True
  then have "\<nexists>a. linked g src dst a"
    using gNode_find_less_iff [OF mg_inv_wf [OF assms(1)] assms(2,3)] by simp
  with True assms show ?thesis
    by (simp add: addEdge_new edge_val_link_new edge_val_None)
next
  case False
  then have f: "gNode_find g src dst False < length (edges (node g src))"
    using gNode_find_le [of g src dst False] by simp
  then obtain y where "edge_val g src dst = Some y" using assms by (simp add: edge_val_def findEdge_eq)
  with f assms show ?thesis by (simp add: addEdge_old)
qed

lemma addEdge_iterator:
  assumes "mg_inv g" "live g src" "live g dst" "src \<noteq> dst"
  shows "snd (addEdge d g src dst) = findEdge (fst (addEdge d g src dst)) src dst"
proof (cases "gNode_find g src dst False = length (edges (node g src))")
  case False
  then show ?thesis
    using assms gNode_find_le [of g src dst False] by (simp add: addEdge_old)
next
  case True
  let ?h = "link_new d g src dst" and ?i = "find_if (first_not_valid g) (edges (node g src))"
  let ?e = "\<lparr>first = dst, isInEdge = False, second = length (edgesF g)\<rparr>"
  have len: "src < length (nodes g)" "dst < length (nodes g)" using assms by (simp_all add: live_def)
  have es: "edges (node ?h src) = reuse_insert g (edges (node g src)) ?e"
    using len assms(4) by (simp add: edges_link_new)
  have nolink: "\<nexists>a. linked g src dst a"
    using True gNode_find_less_iff [OF mg_inv_wf [OF assms(1)] assms(2,3)] by simp
  then have inv: "mg_inv ?h" by (rule mg_inv_link_new [OF assms])
  have f: "findEdge ?h src dst < length (edges (node ?h src))"
    using findEdge_less_iff [OF inv, of src dst] assms linked_link_new [OF assms(2-4)] by auto
  then have fe: "first (edges (node ?h src) ! findEdge ?h src dst) = dst"
    using findEdge_entry(1) [of ?h src dst] assms by (simp add: getEdgeDst_def)
  have nodst: "first e \<noteq> dst" if "e \<in> set (edges (node g src))" for e
    using that nolink assms(2,3) by (auto simp: linked_def)
  have "k = ?i" if "k < length (edges (node ?h src))" "first (edges (node ?h src) ! k) = dst" for k
  proof (rule ccontr)
    assume "k \<noteq> ?i"
    with that(1) have "edges (node ?h src) ! k \<in> set (edges (node g src))"
      unfolding es reuse_insert_def Let_def by (auto simp: nth_append split: if_splits)
    with nodst that(2) show False by blast
  qed
  with f fe show ?thesis using assms True by (simp add: addEdge_new)
qed

lemma edge_val_removeNode:
  assumes "mg_inv g" "live g n"
  shows "edge_val (removeNode g n) u v = (if u = n \<or> v = n then None else edge_val g u v)"
  using edge_val_eqI [OF assms(1) mg_inv_removeNode [OF assms], of u v]
    edge_val_None [OF mg_inv_removeNode [OF assms]]
  by (auto simp: linked_removeNode [OF assms(2)])

lemma edge_val_new_node:
  assumes "mg_inv g"
  shows "edge_val (new_node g x) u v = edge_val g u v"
  using linked_new_node [OF mg_inv_wf [OF assms]]
  by (intro edge_val_eqI [OF assms mg_inv_new_node [OF assms]]) simp_all

lemma edge_val_unlink:
  assumes "mg_inv g" "live g src" "live g dst" "src \<noteq> dst" "unlink g src dst h"
  shows "edge_val h u v =
    (if u = src \<and> v = dst \<or> u = dst \<and> v = src then None else edge_val g u v)"
  using edge_val_eqI [OF assms(1) mg_inv_unlink [OF assms], of u v]
    edge_val_None [OF mg_inv_unlink [OF assms], of u v] assms(5)
  by (auto simp: linked_unlink [OF assms] unlink_def)

lemma linked_updEdgeData [simp]: "linked (updEdgeData g src it h) = linked g"
  by (simp add: linked_def fun_eq_iff)

lemma edge_val_updEdgeData:
  assumes "mg_inv g" "live g src" "live g dst" "findEdge g src dst < length (edges (node g src))"
  shows "edge_val (updEdgeData g src (findEdge g src dst) h) u v =
    (if u = src \<and> v = dst \<or> u = dst \<and> v = src then map_option h (edge_val g u v)
     else edge_val g u v)"
proof -
  let ?g = "updEdgeData g src (findEdge g src dst) h"
  let ?a = "second (edges (node g src) ! findEdge g src dst)"
  have a: "linked g src dst ?a" by (rule findEdge_entry(2) [OF assms(2-4)])
  have mem: "edgesF ?g = (edgesF g)[?a := h (edgesF g ! ?a)]"
    by (simp add: updEdgeData_def Let_def)
  have inv: "mg_inv ?g" by (rule mg_inv_updEdgeData [OF assms(1)])
  show ?thesis
  proof (cases "u = src \<and> v = dst \<or> u = dst \<and> v = src")
    case True
    then have "linked g u v ?a" using a mg_inv_sym [OF assms(1) a] by blast
    then have "edge_val g u v = Some (edgesF g ! ?a)" "edge_val ?g u v = Some (edgesF ?g ! ?a)"
      by (auto intro: edge_val_linked assms(1) inv)
    then show ?thesis using True linked_address [OF assms(1) a] by (simp add: mem)
  next
    case False
    have "?a \<noteq> b" if "linked g u v b" for b
      using mg_inv_inj [OF assms(1) a, of u v] that False by (auto simp: doubleton_eq_iff)
    then have "edge_val ?g u v = edge_val g u v"
      by (intro edge_val_eqI [OF assms(1) inv]) (simp_all add: mem)
    with False show ?thesis by (simp only: if_False)
  qed
qed

lemma edge_val_updData:
  assumes "mg_inv g" "n < length (nodes g)"
  shows "edge_val (updData g n h) u v = edge_val g u v"
proof (rule edge_val_eqI [OF assms(1) mg_inv_updData [OF assms]])
  show "linked (updData g n h) u v a \<longleftrightarrow> linked g u v a" for a
    using assms(2) by (auto simp: linked_def node_updData)
qed simp

end
