(* ===== verification/Mesh_Model.thy ===== *)
theory Mesh_Model
  imports Mesh_Utils Morph_Graph
begin

text \<open>
  \<open>model/Coordinates.h\<close>, \<open>model/NodeData.h\<close>, \<open>model/EdgeData.h\<close> and \<open>model/Graph.h\<close>: what the nodes
  and edges of the mesh carry. A node is either a vertex of the mesh or a hyperedge, the interior
  of a triangle. The comparison operators work up to the tolerance \<open>EPS\<close>; the lemmas say how far
  they are from an order.
\<close>

section \<open>Coordinates\<close>

record coordinates =
  getX :: real
  getY :: real
  getZ :: real

definition Coord :: "real \<Rightarrow> real \<Rightarrow> real \<Rightarrow> coordinates" where
  "Coord x y z = \<lparr>getX = x, getY = y, getZ = z\<rparr>"

text \<open>\<open>Coordinates()\<close> where the source value-initialises it.\<close>

definition Coord_default :: coordinates where
  "Coord_default = Coord 0 0 0"

definition Coord2 :: "real \<Rightarrow> real \<Rightarrow> coordinates" where
  "Coord2 x y = Coord x y 0"

definition setXYZ :: "coordinates \<Rightarrow> real \<Rightarrow> real \<Rightarrow> real \<Rightarrow> coordinates" where
  "setXYZ c x y z = c\<lparr>getX := x, getY := y, getZ := z\<rparr>"

definition dist3D :: "coordinates \<Rightarrow> coordinates \<Rightarrow> real" where
  "dist3D c rhs =
     sqrt ((getX c - getX rhs)\<^sup>2 + (getY c - getY rhs)\<^sup>2 + (getZ c - getZ rhs)\<^sup>2)"

definition dist2D :: "coordinates \<Rightarrow> coordinates \<Rightarrow> real" where
  "dist2D c rhs = sqrt ((getX c - getX rhs)\<^sup>2 + (getY c - getY rhs)\<^sup>2)"

definition coord_dist :: "coordinates \<Rightarrow> coordinates \<Rightarrow> bool \<Rightarrow> real" where
  "coord_dist c rhs version2D = (if version2D then dist2D c rhs else dist3D c rhs)"

definition isXYequal :: "coordinates \<Rightarrow> coordinates \<Rightarrow> bool" where
  "isXYequal c rhs \<longleftrightarrow> equals_eps (getX c) (getX rhs) \<and> equals_eps (getY c) (getY rhs)"

definition coord_add :: "coordinates \<Rightarrow> coordinates \<Rightarrow> coordinates" where
  "coord_add c rhs = Coord (getX c + getX rhs) (getY c + getY rhs) (getZ c + getZ rhs)"

definition coord_sub :: "coordinates \<Rightarrow> coordinates \<Rightarrow> coordinates" where
  "coord_sub c rhs = Coord (getX c - getX rhs) (getY c - getY rhs) (getZ c - getZ rhs)"

definition coord_mul :: "coordinates \<Rightarrow> real \<Rightarrow> coordinates" where
  "coord_mul c rhs = Coord (getX c * rhs) (getY c * rhs) (getZ c * rhs)"

text \<open>Division; the source only divides by the constants 2 and 3.\<close>

definition coord_div :: "coordinates \<Rightarrow> real \<Rightarrow> coordinates" where
  "coord_div c rhs = Coord (getX c / rhs) (getY c / rhs) (getZ c / rhs)"

definition coord_eq :: "coordinates \<Rightarrow> coordinates \<Rightarrow> bool" where
  "coord_eq c rhs \<longleftrightarrow>
     equals_eps (getX c) (getX rhs) \<and> equals_eps (getY c) (getY rhs) \<and> equals_eps (getZ c) (getZ rhs)"

definition coord_less :: "coordinates \<Rightarrow> coordinates \<Rightarrow> bool" where
  "coord_less c rhs =
     (if less_eps (getX c) (getX rhs) then True
      else if less_eps (getX rhs) (getX c) then False
      else if less_eps (getY c) (getY rhs) then True
      else if less_eps (getY rhs) (getY c) then False
      else less_eps (getZ c) (getZ rhs))"

section \<open>Node data\<close>

record node_data =
  hyperEdge :: bool
  coords :: coordinates
  toRefine :: bool
  hanging :: bool

definition NodeData_vertex :: "bool \<Rightarrow> coordinates \<Rightarrow> bool \<Rightarrow> node_data" where
  "NodeData_vertex isHyperEdge c h =
     \<lparr>hyperEdge = isHyperEdge, coords = setXYZ Coord_default (getX c) (getY c) (getZ c),
      toRefine = False, hanging = h\<rparr>"

definition NodeData_plain :: "bool \<Rightarrow> bool \<Rightarrow> node_data" where
  "NodeData_plain isHyperEdge refine =
     \<lparr>hyperEdge = isHyperEdge, coords = Coord_default, toRefine = refine, hanging = False\<rparr>"

definition NodeData_interior :: "bool \<Rightarrow> bool \<Rightarrow> coordinates \<Rightarrow> node_data" where
  "NodeData_interior isHyperEdge refine c =
     \<lparr>hyperEdge = isHyperEdge, coords = setXYZ Coord_default (getX c) (getY c) (getZ c),
      toRefine = refine, hanging = False\<rparr>"

definition setCoords :: "coordinates \<Rightarrow> node_data \<Rightarrow> node_data" where
  "setCoords c d = d\<lparr>coords := setXYZ (coords d) (getX c) (getY c) (getZ c)\<rparr>"

definition setToRefine :: "bool \<Rightarrow> node_data \<Rightarrow> node_data" where
  "setToRefine refine d = d\<lparr>toRefine := refine\<rparr>"

definition setHanging :: "bool \<Rightarrow> node_data \<Rightarrow> node_data" where
  "setHanging hangingNode d = d\<lparr>hanging := hangingNode\<rparr>"

definition node_eq :: "node_data \<Rightarrow> node_data \<Rightarrow> bool" where
  "node_eq d rhs \<longleftrightarrow>
     hyperEdge d = hyperEdge rhs \<and> coord_eq (coords d) (coords rhs) \<and>
     (if hyperEdge d then toRefine d = toRefine rhs else hanging d = hanging rhs)"

definition node_less :: "node_data \<Rightarrow> node_data \<Rightarrow> bool" where
  "node_less d rhs =
     (if hyperEdge d < hyperEdge rhs then True
      else if hyperEdge rhs < hyperEdge d then False
      else if coord_less (coords d) (coords rhs) then True
      else if coord_less (coords rhs) (coords d) then False
      else if hyperEdge d then toRefine d < toRefine rhs
      else hanging d < hanging rhs)"

section \<open>Edge data\<close>

record edge_data =
  border :: bool
  edge_length :: real
  middlePoint :: coordinates

definition EdgeData_default :: edge_data where
  "EdgeData_default = \<lparr>border = False, edge_length = -1, middlePoint = Coord_default\<rparr>"

definition EdgeData_new :: "bool \<Rightarrow> real \<Rightarrow> coordinates \<Rightarrow> edge_data" where
  "EdgeData_new b l m = \<lparr>border = b, edge_length = l, middlePoint = m\<rparr>"

definition setBorder :: "bool \<Rightarrow> edge_data \<Rightarrow> edge_data" where
  "setBorder isBorder d = d\<lparr>border := isBorder\<rparr>"

definition setLength :: "real \<Rightarrow> edge_data \<Rightarrow> edge_data" where
  "setLength l d = d\<lparr>edge_length := l\<rparr>"

definition setMiddlePoint :: "coordinates \<Rightarrow> edge_data \<Rightarrow> edge_data" where
  "setMiddlePoint c d = d\<lparr>middlePoint := setXYZ (middlePoint d) (getX c) (getY c) (getZ c)\<rparr>"

section \<open>The graph of the mesh\<close>

type_synonym mesh = "(node_data, edge_data) morph_graph"

section \<open>Laws of the data types\<close>

lemma Coord_simps [simp]:
  "getX (Coord x y z) = x" "getY (Coord x y z) = y" "getZ (Coord x y z) = z"
  by (simp_all add: Coord_def)

lemma Coord_collapse [simp]: "Coord (getX c) (getY c) (getZ c) = c"
  by (simp add: Coord_def)

lemma setXYZ_eq [simp]: "setXYZ c x y z = Coord x y z"
  by (simp add: setXYZ_def Coord_def)

lemma coord_eqI: "getX c = getX d \<Longrightarrow> getY c = getY d \<Longrightarrow> getZ c = getZ d \<Longrightarrow> c = (d :: coordinates)"
  by simp

lemma NodeData_simps [simp]:
  "hyperEdge (NodeData_vertex b c h) = b" "coords (NodeData_vertex b c h) = c"
  "toRefine (NodeData_vertex b c h) = False" "hanging (NodeData_vertex b c h) = h"
  "hyperEdge (NodeData_plain b r) = b" "toRefine (NodeData_plain b r) = r"
  "hanging (NodeData_plain b r) = False"
  "hyperEdge (NodeData_interior b r c) = b" "coords (NodeData_interior b r c) = c"
  "toRefine (NodeData_interior b r c) = r" "hanging (NodeData_interior b r c) = False"
  by (simp_all add: NodeData_vertex_def NodeData_plain_def NodeData_interior_def)

lemma node_setter_simps [simp]:
  "coords (setCoords c d) = c" "hyperEdge (setCoords c d) = hyperEdge d"
  "toRefine (setCoords c d) = toRefine d" "hanging (setCoords c d) = hanging d"
  "coords (setToRefine r d) = coords d" "hyperEdge (setToRefine r d) = hyperEdge d"
  "toRefine (setToRefine r d) = r" "hanging (setToRefine r d) = hanging d"
  "coords (setHanging h d) = coords d" "hyperEdge (setHanging h d) = hyperEdge d"
  "toRefine (setHanging h d) = toRefine d" "hanging (setHanging h d) = h"
  by (simp_all add: setCoords_def setToRefine_def setHanging_def)

lemma edge_setters: "setMiddlePoint c (setLength l (setBorder b d)) = EdgeData_new b l c"
  "setLength l (setMiddlePoint c (setBorder b d)) = EdgeData_new b l c"
  by (simp_all add: setMiddlePoint_def setLength_def setBorder_def EdgeData_new_def)

subsection \<open>Distances\<close>

lemma coord_dist_sym: "coord_dist c d v = coord_dist d c v"
  by (simp add: coord_dist_def dist2D_def dist3D_def power2_commute)

lemma coord_dist_nonneg: "0 \<le> coord_dist c d v"
  by (simp add: coord_dist_def dist2D_def dist3D_def)

lemma dist2D_le_dist3D: "dist2D c d \<le> dist3D c d"
  by (simp add: dist2D_def dist3D_def)

lemma dist3D_eq_0: "dist3D c d = 0 \<longleftrightarrow> c = d"
  by (auto simp: dist3D_def sum_power2_eq_zero_iff add_nonneg_eq_0_iff)

subsection \<open>Comparison\<close>

text \<open>Two coordinates are equal up to the tolerance exactly when neither is less than the other, and
  less is asymmetric.\<close>

lemma coord_trichotomy: "coord_eq c d \<longleftrightarrow> \<not> coord_less c d \<and> \<not> coord_less d c"
  using eps_trichotomy [of "getX c" "getX d"] eps_trichotomy [of "getY c" "getY d"]
    eps_trichotomy [of "getZ c" "getZ d"]
  by (auto simp: coord_eq_def coord_less_def eps_defs)

lemma coord_less_asym: "coord_less c d \<Longrightarrow> \<not> coord_less d c"
  by (auto simp: coord_less_def eps_defs split: if_splits)

lemma node_less_asym: "node_less c d \<Longrightarrow> \<not> node_less d c"
  by (auto simp: node_less_def dest: coord_less_asym split: if_splits)

lemma node_trichotomy: "node_eq c d \<longleftrightarrow> \<not> node_less c d \<and> \<not> node_less d c"
  by (auto simp: node_eq_def node_less_def coord_trichotomy)

text \<open>The comparison is not transitive: it is lexicographic over a tolerance.\<close>

lemma coord_less_not_transitive:
  "\<exists>a b c. coord_less a b \<and> coord_less b c \<and> coord_less c a"
proof (intro exI conjI)
  let ?a = "Coord 0 2 0" and ?b = "Coord (- 6 / 100000) 3 0" and ?c = "Coord (4 / 100000) 1 0"
  show "coord_less ?a ?b" "coord_less ?b ?c" "coord_less ?c ?a"
    by (simp_all add: coord_less_def eps_defs)
qed

end
