(* ===== verification/Connectivity.thy ===== *)
theory Connectivity
  imports Mesh_Model
begin

text \<open>
  \<open>utils/ConnectivityManager.h\<close>: the queries and updates of the mesh the productions are built
  from. An edge iterator is a source node and a position of its adjacency vector; an optional edge
  is an \<open>option\<close> of it. A node pushed to the work list of the Galois loop is returned in a list.
  The second half states what each operation does to the live nodes, to the data, to the edges and
  to the neighbour lists.
\<close>

section \<open>Queries\<close>

type_synonym edge_iterator = "nat \<times> nat"

definition getNeighbours :: "('n, 'e) morph_graph \<Rightarrow> nat \<Rightarrow> nat list" where
  "getNeighbours g n = map (getEdgeDst g n) (out_edges g n)"

definition convertToOptionalEdge :: "('n, 'e) morph_graph \<Rightarrow> edge_iterator \<Rightarrow> edge_iterator option" where
  "convertToOptionalEdge g edge =
     (if snd edge = length (edges (node g (fst edge))) then None else Some edge)"

definition getEdge :: "('n, 'e) morph_graph \<Rightarrow> nat \<Rightarrow> nat \<Rightarrow> edge_iterator option" where
  "getEdge g v1 v2 = convertToOptionalEdge g (v1, findEdge g v1 v2)"

fun getTriangleEdges_loop ::
  "('n, 'e) morph_graph \<Rightarrow> nat list \<Rightarrow> nat list \<Rightarrow> edge_iterator option list res" where
  "getTriangleEdges_loop g vertices [] = Inr []"
| "getTriangleEdges_loop g vertices (i # is) =
     bindR (get_at vertices (int i)) (\<lambda>v1.
     bindR (get_at vertices (int ((i + 1) mod 3))) (\<lambda>v2.
     mapR (Cons (getEdge g v1 v2)) (getTriangleEdges_loop g vertices is)))"

definition getTriangleEdges ::
  "('n, 'e) morph_graph \<Rightarrow> nat list \<Rightarrow> edge_iterator option list res" where
  "getTriangleEdges g vertices = getTriangleEdges_loop g vertices [0..<3]"

definition countBrokenEdges :: "edge_iterator option list \<Rightarrow> nat" where
  "countBrokenEdges es = length (filter (\<lambda>e. e = None) es)"

definition hasBrokenEdge :: "edge_iterator option list \<Rightarrow> bool" where
  "hasBrokenEdge es \<longleftrightarrow> countBrokenEdges es > 0"

text \<open>The two nested loops of \<open>findNodeBetween\<close>: the first neighbour of the first node that is
  also a neighbour of the second and lies at the expected location.\<close>

definition findNodeBetween :: "mesh \<Rightarrow> nat \<Rightarrow> nat \<Rightarrow> nat option" where
  "findNodeBetween g node1 node2 =
     (let expectedLocation =
            coord_div (coord_add (coords (getData g node1)) (coords (getData g node2))) 2;
          neighbours1 = getNeighbours g node1;
          neighbours2 = getNeighbours g node2
      in List.find
           (\<lambda>iNode. list_ex
              (\<lambda>jNode. iNode = jNode \<and> isXYequal (coords (getData g iNode)) expectedLocation)
              neighbours2)
           neighbours1)"

definition getVerticesCoords :: "mesh \<Rightarrow> nat \<Rightarrow> coordinates list" where
  "getVerticesCoords g n = map (\<lambda>neighbour. coords (getData g neighbour)) (getNeighbours g n)"

section \<open>Updates\<close>

definition cm_createNode :: "mesh \<Rightarrow> node_data \<Rightarrow> mesh \<times> nat" where
  "cm_createNode g nodeData = (let (g', n) = createNode g nodeData in (addNode g' n, n))"

definition cm_createNode_ctx :: "mesh \<Rightarrow> node_data \<Rightarrow> mesh \<times> nat \<times> nat list" where
  "cm_createNode_ctx g nodeData = (let (g', n) = cm_createNode g nodeData in (g', n, [n]))"

text \<open>A write through the reference an edge iterator gives; the past-the-end iterator has none.\<close>

definition upd_edge_at :: "mesh \<Rightarrow> edge_iterator \<Rightarrow> (edge_data \<Rightarrow> edge_data) \<Rightarrow> mesh res" where
  "upd_edge_at g edge h =
     (if snd edge < length (edges (node g (fst edge))) then Inr (updEdgeData g (fst edge) (snd edge) h)
      else Inl BadIterator)"

definition edge_at :: "mesh \<Rightarrow> edge_iterator \<Rightarrow> edge_data res" where
  "edge_at g edge =
     (if snd edge < length (edges (node g (fst edge))) then Inr (getEdgeData g (fst edge) (snd edge))
      else Inl BadIterator)"

definition cm_createEdge :: "mesh \<Rightarrow> nat \<Rightarrow> nat \<Rightarrow> bool \<Rightarrow> coordinates \<Rightarrow> real \<Rightarrow> mesh res" where
  "cm_createEdge g node1 node2 isBorder middle len =
     (let g1 = fst (addEdge EdgeData_default g node1 node2);
          edge = (node1, findEdge g1 node1 node2)
      in bindR (upd_edge_at g1 edge (setBorder isBorder)) (\<lambda>g2.
         bindR (upd_edge_at g2 edge (setMiddlePoint middle)) (\<lambda>g3.
         upd_edge_at g3 edge (setLength len))))"

definition createInterior :: "mesh \<Rightarrow> nat \<Rightarrow> nat \<Rightarrow> nat \<Rightarrow> mesh \<times> nat" where
  "createInterior g node1 node2 node3 =
     (let (g0, interior) = cm_createNode g (NodeData_plain True False);
          g1 = fst (addEdge EdgeData_default g0 interior node1);
          g2 = fst (addEdge EdgeData_default g1 interior node2);
          g3 = fst (addEdge EdgeData_default g2 interior node3)
      in (updData g3 interior (setCoords (coord_div
            (coord_add (coord_add (coords (getData g3 node1)) (coords (getData g3 node2)))
               (coords (getData g3 node3))) 3)), interior))"

text \<open>The overload with a context has the same body and pushes the node it creates.\<close>

definition createInterior_ctx :: "mesh \<Rightarrow> nat \<Rightarrow> nat \<Rightarrow> nat \<Rightarrow> mesh \<times> nat list" where
  "createInterior_ctx g node1 node2 node3 =
     (let (g0, interior, pushed) = cm_createNode_ctx g (NodeData_plain True False);
          g1 = fst (addEdge EdgeData_default g0 interior node1);
          g2 = fst (addEdge EdgeData_default g1 interior node2);
          g3 = fst (addEdge EdgeData_default g2 interior node3)
      in (updData g3 interior (setCoords (coord_div
            (coord_add (coord_add (coords (getData g3 node1)) (coords (getData g3 node2)))
               (coords (getData g3 node3))) 3)), pushed))"

definition cm_removeEdge :: "('n, 'e) morph_graph \<Rightarrow> nat \<Rightarrow> nat \<Rightarrow> ('n, 'e) morph_graph res" where
  "cm_removeEdge g node1 node2 =
     (let edge1 = findEdge g node1 node2
      in if edge1 \<noteq> length (edges (node g node1)) then removeEdge g node1 edge1
         else (let edge2 = findEdge g node2 node1
               in if edge2 \<noteq> length (edges (node g node2)) then removeEdge g node2 edge2
                  else Inr g))"

section \<open>Neighbour lists\<close>

lemma getNeighbours_eq:
  assumes "entries_wf g" "n < length (nodes g)"
  shows "getNeighbours g n = map first (live_entries g n)"
proof -
  let ?es = "edges (node g n)"
  have "getNeighbours g n = map first (map ((!) ?es) (filter (\<lambda>i. is_out_edge g (?es ! i)) [0..<length ?es]))"
    by (simp add: getNeighbours_def out_edges_def getEdgeDst_def comp_def)
  also have "map ((!) ?es) (filter (\<lambda>i. is_out_edge g (?es ! i)) [0..<length ?es]) =
      filter (is_out_edge g) ?es"
    by (subst (2) map_nth [symmetric]) (simp add: filter_map comp_def)
  also have "filter (is_out_edge g) ?es = live_entries g n"
    using entries_wfD(2) [OF assms] unfolding live_entries_def
    by (intro filter_cong) (simp_all add: is_out_edge_def)
  finally show ?thesis .
qed

lemma getNeighbours_distinct: "mg_inv g \<Longrightarrow> live g n \<Longrightarrow> distinct (getNeighbours g n)"
  by (simp add: getNeighbours_eq mg_inv_wf mg_inv_distinct live_def [of g n])

lemma getNeighbours_iff:
  assumes "mg_inv g" "live g n"
  shows "v \<in> set (getNeighbours g n) \<longleftrightarrow> edge_val g n v \<noteq> None"
proof -
  have "v \<in> set (getNeighbours g n) \<longleftrightarrow> (\<exists>a. linked g n v a)"
    using assms entries_wfD(1) [OF mg_inv_wf [OF assms(1)]]
    by (auto simp: getNeighbours_eq mg_inv_wf linked_def live_entries_def live_def)
  then show ?thesis by (simp add: edge_val_None [OF assms(1)])
qed

lemma getNeighbours_cong:
  assumes "mg_inv g" "mg_inv h" "live g n" "live h n" "edges (node h n) = edges (node g n)"
    and "\<And>m. m < length (nodes g) \<Longrightarrow> active (node h m) = active (node g m)"
  shows "getNeighbours h n = getNeighbours g n"
proof -
  have "live_entries h n = live_entries g n"
    using assms entries_wfD(1) [OF mg_inv_wf [OF assms(1)], of n]
    by (auto simp: live_entries_def live_def intro!: filter_cong)
  with assms show ?thesis by (simp add: getNeighbours_eq mg_inv_wf live_def)
qed

lemma getNeighbours_removeNode:
  assumes "mg_inv g" "live g n" "live g m" "m \<noteq> n"
  shows "getNeighbours (removeNode g n) m = filter (\<lambda>v. v \<noteq> n) (getNeighbours g m)"
proof -
  have "live_entries (removeNode g n) m = filter (\<lambda>e. first e \<noteq> n) (live_entries g m)"
    using assms by (auto simp: live_entries_def node_removeNode intro!: filter_cong)
  then show ?thesis
    using assms mg_inv_removeNode [OF assms(1,2)]
    by (simp add: getNeighbours_eq mg_inv_wf live_def filter_map comp_def)
qed

lemma getNeighbours_new_node:
  assumes "mg_inv g"
  shows "getNeighbours (new_node g x) (length (nodes g)) = []"
    and "live g n \<Longrightarrow> getNeighbours (new_node g x) n = getNeighbours g n"
proof -
  show "getNeighbours (new_node g x) (length (nodes g)) = []"
    using mg_inv_wf [OF mg_inv_new_node [OF assms]]
    by (simp add: getNeighbours_eq live_entries_def node_new_node)
  show "getNeighbours (new_node g x) n = getNeighbours g n" if "live g n"
    using that assms
    by (intro getNeighbours_cong mg_inv_new_node) (simp_all add: live_new_node node_new_node live_def)
qed

end
