(* ===== verification/Productions.thy ===== *)
theory Productions
  imports Connectivity
begin

text \<open>
  \<open>model/ProductionState.h\<close> and \<open>productions/Production.h\<close>, \<open>Production1.h\<close> to \<open>Production6.h\<close>: the
  graph grammar. A production looks at an interior, its three vertices and the three sides between
  them, and when it applies it splits the triangle along the segment from a point of one side to
  the opposite vertex. The point is new for the productions 1, 3 and 5, and a hanging node that is
  already there for 2, 4 and 6. \<open>execute\<close> returns the graph, the nodes pushed to the work list and
  the boolean result, or a fault.
\<close>

section \<open>The state of a production\<close>

text \<open>\<open>interiorData\<close> is a reference into the graph: it is read from the graph where it is used. The
  other data are copies made by the constructor.\<close>

record production_state =
  ps_interior :: nat
  ps_vertices :: "nat list"
  ps_verticesData :: "node_data list"
  ps_edgesIterators :: "edge_iterator option list"
  ps_edgesData :: "edge_data option list"
  ps_lengths :: "real list"
  ps_brokenEdges :: "nat list"
  ps_version2D :: bool
  ps_zGetter :: "real \<Rightarrow> real \<Rightarrow> real res"

definition ProductionState ::
  "mesh \<Rightarrow> nat \<Rightarrow> bool \<Rightarrow> (real \<Rightarrow> real \<Rightarrow> real res) \<Rightarrow> production_state res" where
  "ProductionState g interior version2D zGetter =
     (let vertices = getNeighbours g interior
      in bindR (getTriangleEdges g vertices) (\<lambda>edgesIterators.
           let edgesData = map (map_option (\<lambda>(src, it). getEdgeData g src it)) edgesIterators
           in Inr \<lparr>ps_interior = interior, ps_vertices = vertices,
                   ps_verticesData = map (\<lambda>i. getData g (vertices ! i)) [0..<3],
                   ps_edgesIterators = edgesIterators, ps_edgesData = edgesData,
                   ps_lengths = map (\<lambda>i. case edgesData ! i of None \<Rightarrow> -1 | Some d \<Rightarrow> edge_length d)
                                  [0..<3],
                   ps_brokenEdges = filter (\<lambda>i. edgesIterators ! i = None) [0..<3],
                   ps_version2D = version2D, ps_zGetter = zGetter\<rparr>))"

definition getLongestEdges :: "production_state \<Rightarrow> nat list" where
  "getLongestEdges ps =
     filter (\<lambda>i. \<not> less_eps (ps_lengths ps ! i) (ps_lengths ps ! ((i + 1) mod 3)) \<and>
                 \<not> less_eps (ps_lengths ps ! i) (ps_lengths ps ! ((i + 2) mod 3))) [0..<3]"

definition getAnyBrokenEdge :: "production_state \<Rightarrow> int" where
  "getAnyBrokenEdge ps = (if ps_brokenEdges ps \<noteq> [] then int (ps_brokenEdges ps ! 0) else -1)"

definition getLongestEdgesIncludingBrokenOnes :: "production_state \<Rightarrow> nat list" where
  "getLongestEdgesIncludingBrokenOnes ps =
     indexesOfMaxElems
       (map (\<lambda>i. coord_dist (coords (ps_verticesData ps ! i))
                   (coords (ps_verticesData ps ! ((i + 1) mod 3))) (ps_version2D ps)) [0..<3])"

section \<open>What the productions share\<close>

definition getEdgeVertices :: "nat \<Rightarrow> nat \<times> nat" where
  "getEdgeVertices edge = (edge, (edge + 1) mod 3)"

definition getNeutralVertex :: "nat \<Rightarrow> nat" where
  "getNeutralVertex edgeToBreak = (edgeToBreak + 2) mod 3"

text \<open>One pass of the loop of \<open>checkIfBrokenEdgeIsTheLongest\<close>; the state is the index \<open>j\<close> and the
  four lengths.\<close>

definition brokenEdgeLengths_step ::
  "mesh \<Rightarrow> nat \<Rightarrow> edge_iterator option list \<Rightarrow> nat list \<Rightarrow> nat \<Rightarrow> nat \<times> real list
     \<Rightarrow> (nat \<times> real list) res" where
  "brokenEdgeLengths_step g brokenEdge edgesIterators vertices i jl =
     (case jl of (j, lengths) \<Rightarrow>
        if i \<noteq> brokenEdge then
          bindR (get_opt (edgesIterators ! i)) (\<lambda>edge.
          bindR (edge_at g edge) (\<lambda>d. Inr (Suc j, lengths[j := edge_length d])))
        else
          (let v1 = vertices ! fst (getEdgeVertices brokenEdge);
               v2 = vertices ! snd (getEdgeVertices brokenEdge)
           in bindR (get_opt (findNodeBetween g v1 v2)) (\<lambda>hangingNode.
              bindR (edge_at g (v1, findEdge g v1 hangingNode)) (\<lambda>d1.
              bindR (edge_at g (v2, findEdge g v2 hangingNode)) (\<lambda>d2.
                Inr (j, lengths[2 := edge_length d1, 3 := edge_length d2]))))))"

definition checkIfBrokenEdgeIsTheLongest ::
  "mesh \<Rightarrow> nat \<Rightarrow> edge_iterator option list \<Rightarrow> nat list \<Rightarrow> bool res" where
  "checkIfBrokenEdgeIsTheLongest g brokenEdge edgesIterators vertices =
     bindR (brokenEdgeLengths_step g brokenEdge edgesIterators vertices 0 (0, [0, 0, 0, 0]))
       (\<lambda>s0. bindR (brokenEdgeLengths_step g brokenEdge edgesIterators vertices 1 s0)
       (\<lambda>s1. bindR (brokenEdgeLengths_step g brokenEdge edgesIterators vertices 2 s1)
       (\<lambda>(j, lengths).
          Inr (\<not> less_eps (lengths ! 2 + lengths ! 3) (lengths ! 0) \<and>
               \<not> less_eps (lengths ! 2 + lengths ! 3) (lengths ! 1)))))"

definition getHangingNode :: "mesh \<Rightarrow> nat \<Rightarrow> production_state \<Rightarrow> nat res" where
  "getHangingNode g edgeToBreak ps =
     (let (f, s) = getEdgeVertices edgeToBreak
      in get_opt (findNodeBetween g (ps_vertices ps ! f) (ps_vertices ps ! s)))"

text \<open>\<open>Production::addEdge\<close>: the edge the call returns gets its three fields.\<close>

definition prod_addEdge ::
  "mesh \<Rightarrow> nat \<Rightarrow> nat \<Rightarrow> bool \<Rightarrow> real \<Rightarrow> coordinates \<Rightarrow> mesh" where
  "prod_addEdge g node1 node2 isBorder len middle =
     (let (g1, newEdge) = addEdge EdgeData_default g node1 node2;
          g2 = updEdgeData g1 node1 newEdge (setBorder isBorder);
          g3 = updEdgeData g2 node1 newEdge (setLength len)
      in updEdgeData g3 node1 newEdge (setMiddlePoint middle))"

definition getNewPointCoords ::
  "coordinates \<Rightarrow> coordinates \<Rightarrow> (real \<Rightarrow> real \<Rightarrow> real res) \<Rightarrow> coordinates res" where
  "getNewPointCoords coords1 coords2 zGetter =
     (let x = (getX coords1 + getX coords2) / 2; y = (getY coords1 + getY coords2) / 2
      in mapR (Coord x y) (zGetter x y))"

text \<open>The loop body of \<open>createNodeOnEdge\<close>: the edge from the new node to the vertex \<open>i\<close>.\<close>

definition connectNewNode ::
  "production_state \<Rightarrow> nat \<Rightarrow> bool \<Rightarrow> node_data \<Rightarrow> nat \<Rightarrow> nat \<Rightarrow> mesh \<Rightarrow> mesh" where
  "connectNewNode ps neutralVertex breakingOnBorder newNodeData newNode i g =
     (let vertexData = ps_verticesData ps ! i;
          (g1, edge) = addEdge EdgeData_default g newNode (ps_vertices ps ! i);
          g2 = updEdgeData g1 newNode edge
                 (setBorder (if i \<noteq> neutralVertex then breakingOnBorder else False));
          g3 = updEdgeData g2 newNode edge
                 (setMiddlePoint (Coord
                    ((getX (coords newNodeData) + getX (coords vertexData)) / 2)
                    ((getY (coords newNodeData) + getY (coords vertexData)) / 2)
                    ((getZ (coords newNodeData) + getZ (coords vertexData)) / 2)))
      in updEdgeData g3 newNode edge
           (setLength (coord_dist (coords newNodeData) (coords vertexData) (ps_version2D ps))))"

definition createNodeOnEdge ::
  "mesh \<Rightarrow> nat \<Rightarrow> production_state \<Rightarrow> (mesh \<times> nat \<times> nat list) res" where
  "createNodeOnEdge g edgeToBreak ps =
     bindR (get_opt (ps_edgesData ps ! edgeToBreak)) (\<lambda>ed.
       let breakingOnBorder = border ed;
           neutralVertex = getNeutralVertex edgeToBreak;
           (f, s) = getEdgeVertices edgeToBreak
       in bindR (cm_removeEdge g (ps_vertices ps ! f) (ps_vertices ps ! s)) (\<lambda>g1.
          bindR (getNewPointCoords (coords (ps_verticesData ps ! f)) (coords (ps_verticesData ps ! s))
                   (ps_zGetter ps)) (\<lambda>newPointCoords.
            let newNodeData = NodeData_vertex False newPointCoords (\<not> breakingOnBorder);
                (g2, newNode) = createNode g1 newNodeData;
                g3 = addNode g2 newNode;
                g4 = fold (connectNewNode ps neutralVertex breakingOnBorder newNodeData newNode)
                       [0..<3] g3
            in Inr (g4, newNode, [newNode]))))"

definition breakElementUsingNode ::
  "mesh \<Rightarrow> nat \<Rightarrow> nat \<Rightarrow> production_state \<Rightarrow> mesh \<times> nat list" where
  "breakElementUsingNode g edgeToBreak hangingNode ps =
     (let (f, s) = getEdgeVertices edgeToBreak;
          neutralVertex = getNeutralVertex edgeToBreak;
          hNodeData = getData g hangingNode;
          neutralCoords = coords (ps_verticesData ps ! neutralVertex);
          len = coord_dist (coords hNodeData) neutralCoords (ps_version2D ps);
          g1 = prod_addEdge g hangingNode (ps_vertices ps ! neutralVertex) False len
                 (coord_div (coord_add (coords hNodeData) neutralCoords) 2);
          (g2, pushed1) = createInterior_ctx g1 hangingNode (ps_vertices ps ! neutralVertex)
                            (ps_vertices ps ! f);
          (g3, pushed2) = createInterior_ctx g2 hangingNode (ps_vertices ps ! neutralVertex)
                            (ps_vertices ps ! s)
      in (removeNode g3 (ps_interior ps), pushed1 @ pushed2))"

definition breakElementWithHangingNode ::
  "mesh \<Rightarrow> nat \<Rightarrow> production_state \<Rightarrow> (mesh \<times> nat list) res" where
  "breakElementWithHangingNode g edgeToBreak ps =
     bindR (getHangingNode g edgeToBreak ps) (\<lambda>hangingNode.
       let (g1, pushed) = breakElementUsingNode g edgeToBreak hangingNode ps
       in Inr (updData g1 hangingNode (setHanging False), pushed))"

definition breakElementWithoutHangingNode ::
  "mesh \<Rightarrow> nat \<Rightarrow> production_state \<Rightarrow> (mesh \<times> nat list) res" where
  "breakElementWithoutHangingNode g edgeToBreak ps =
     bindR (createNodeOnEdge g edgeToBreak ps) (\<lambda>(g1, newNode, pushed1).
       let (g2, pushed2) = breakElementUsingNode g1 edgeToBreak newNode ps
       in Inr (g2, pushed1 @ pushed2))"

section \<open>The productions\<close>

type_synonym production = "mesh \<Rightarrow> production_state \<Rightarrow> (mesh \<times> nat list \<times> bool) res"

definition applied :: "(mesh \<times> nat list) res \<Rightarrow> (mesh \<times> nat list \<times> bool) res" where
  "applied r = mapR (\<lambda>(g, pushed). (g, pushed, True)) r"

definition not_applied :: "mesh \<Rightarrow> (mesh \<times> nat list \<times> bool) res" where
  "not_applied g = Inr (g, [], False)"

subsection \<open>Production 1\<close>

definition P1_checkApplicabilityCondition :: "node_data \<Rightarrow> edge_iterator option list \<Rightarrow> bool" where
  "P1_checkApplicabilityCondition nodeData edgesIterators \<longleftrightarrow>
     toRefine nodeData \<and> \<not> hasBrokenEdge edgesIterators"

definition neither_hanging :: "production_state \<Rightarrow> nat \<Rightarrow> bool" where
  "neither_hanging ps edge \<longleftrightarrow>
     \<not> hanging (ps_verticesData ps ! fst (getEdgeVertices edge)) \<and>
     \<not> hanging (ps_verticesData ps ! snd (getEdgeVertices edge))"

fun P1_getEdgeToBreak_loop :: "production_state \<Rightarrow> nat list \<Rightarrow> int res" where
  "P1_getEdgeToBreak_loop ps [] = Inr (-1)"
| "P1_getEdgeToBreak_loop ps (longest # rest) =
     bindR (get_opt (ps_edgesData ps ! longest)) (\<lambda>d.
       if border d then Inr (int longest)
       else if neither_hanging ps longest then Inr (int longest)
       else P1_getEdgeToBreak_loop ps rest)"

definition P1_getEdgeToBreak :: "production_state \<Rightarrow> int res" where
  "P1_getEdgeToBreak ps = P1_getEdgeToBreak_loop ps (getLongestEdges ps)"

definition P1_execute :: production where
  "P1_execute g ps =
     (if \<not> P1_checkApplicabilityCondition (getData g (ps_interior ps)) (ps_edgesIterators ps)
      then not_applied g
      else bindR (P1_getEdgeToBreak ps) (\<lambda>edgeToBreak.
             if edgeToBreak = -1 then not_applied g
             else applied (breakElementWithoutHangingNode g (nat edgeToBreak) ps)))"

subsection \<open>Productions 2 and 3\<close>

definition P2_checkApplicabilityCondition :: "edge_iterator option list \<Rightarrow> bool" where
  "P2_checkApplicabilityCondition edgesIterators \<longleftrightarrow> countBrokenEdges edgesIterators = 1"

definition P2_execute :: production where
  "P2_execute g ps =
     (if \<not> P2_checkApplicabilityCondition (ps_edgesIterators ps) then not_applied g
      else (let brokenEdge = getAnyBrokenEdge ps
            in if brokenEdge = -1 then Inl AssertFail
               else bindR (checkIfBrokenEdgeIsTheLongest g (nat brokenEdge) (ps_edgesIterators ps)
                             (ps_vertices ps)) (\<lambda>longest.
                      if \<not> longest then not_applied g
                      else applied (breakElementWithHangingNode g (nat brokenEdge) ps))))"

definition P3_checkApplicabilityCondition :: "edge_iterator option list \<Rightarrow> bool" where
  "P3_checkApplicabilityCondition edgesIterators \<longleftrightarrow> countBrokenEdges edgesIterators = 1"

text \<open>The two loops of production 3: first a border edge among the longest ones, then one whose
  ends are not hanging.\<close>

fun P3_border_loop :: "production_state \<Rightarrow> nat list \<Rightarrow> nat option res" where
  "P3_border_loop ps [] = Inr None"
| "P3_border_loop ps (longest # rest) =
     bindR (get_opt (ps_edgesData ps ! longest)) (\<lambda>d.
       if border d then Inr (Some longest) else P3_border_loop ps rest)"

fun P3_hanging_loop :: "production_state \<Rightarrow> nat list \<Rightarrow> nat option" where
  "P3_hanging_loop ps [] = None"
| "P3_hanging_loop ps (longest # rest) =
     (if neither_hanging ps longest then Some longest else P3_hanging_loop ps rest)"

definition P3_execute :: production where
  "P3_execute g ps =
     (if \<not> P3_checkApplicabilityCondition (ps_edgesIterators ps) then not_applied g
      else (let brokenEdge = getAnyBrokenEdge ps
            in if brokenEdge = -1 then Inl AssertFail
               else bindR (checkIfBrokenEdgeIsTheLongest g (nat brokenEdge) (ps_edgesIterators ps)
                             (ps_vertices ps)) (\<lambda>isLongest.
                      if isLongest then not_applied g
                      else (let longestEdges = getLongestEdges ps
                            in bindR (P3_border_loop ps longestEdges) (\<lambda>found.
                               case found of
                                 Some longest \<Rightarrow> applied (breakElementWithoutHangingNode g longest ps)
                               | None \<Rightarrow>
                                   (case P3_hanging_loop ps longestEdges of
                                      Some longest \<Rightarrow>
                                        applied (breakElementWithoutHangingNode g longest ps)
                                    | None \<Rightarrow> not_applied g))))))"

subsection \<open>Productions 4 and 5\<close>

definition P4_checkApplicabilityCondition :: "edge_iterator option list \<Rightarrow> bool" where
  "P4_checkApplicabilityCondition edgesIterators \<longleftrightarrow> countBrokenEdges edgesIterators = 2"

definition P4_execute :: production where
  "P4_execute g ps =
     (if \<not> P4_checkApplicabilityCondition (ps_edgesIterators ps) then not_applied g
      else (case List.find (\<lambda>longest. longest \<in> set (ps_brokenEdges ps))
                   (getLongestEdgesIncludingBrokenOnes ps) of
              Some longest \<Rightarrow> applied (breakElementWithHangingNode g longest ps)
            | None \<Rightarrow> not_applied g))"

definition P5_checkApplicabilityCondition :: "edge_iterator option list \<Rightarrow> bool" where
  "P5_checkApplicabilityCondition edgesIterators \<longleftrightarrow> countBrokenEdges edgesIterators = 2"

definition P5_execute :: production where
  "P5_execute g ps =
     (if \<not> P5_checkApplicabilityCondition (ps_edgesIterators ps) then not_applied g
      else (let longestEdges = getLongestEdgesIncludingBrokenOnes ps
            in if length longestEdges > 1 then not_applied g
               else if longestEdges ! 0 \<notin> set (ps_brokenEdges ps)
               then applied (breakElementWithoutHangingNode g (longestEdges ! 0) ps)
               else not_applied g))"

subsection \<open>Production 6\<close>

definition P6_checkApplicabilityCondition :: "edge_iterator option list \<Rightarrow> bool" where
  "P6_checkApplicabilityCondition edgesIterators \<longleftrightarrow> countBrokenEdges edgesIterators = 3"

definition P6_execute :: production where
  "P6_execute g ps =
     (if \<not> P6_checkApplicabilityCondition (ps_edgesIterators ps) then not_applied g
      else (let longestEdges = getLongestEdgesIncludingBrokenOnes ps
            in applied (breakElementWithHangingNode g (longestEdges ! 0) ps)))"

end
