(* ===== verification/Mesh_Store.thy ===== *)
theory Mesh_Store
  imports Connectivity
begin

text \<open>
  The interface between the productions and the graph. The locale \<open>graph_store\<close> lists the
  operations the productions use and what they rely on: which nodes are live, what data they hold,
  which edges exist with which data, and the neighbour list of a node, after each operation. The
  locale \<open>triangle_store\<close> adds that some nodes are interiors of triangles. In it, a mesh is well
  formed when every interior has exactly three neighbours and all of them are vertices, and its
  abstraction is the multiset of the vertex triples of its interiors. The interpretation at the end
  discharges the laws for the Galois graph and \<open>ConnectivityManager\<close>.
\<close>

section \<open>The interface\<close>

definition same_pair :: "'a \<Rightarrow> 'a \<Rightarrow> 'a \<Rightarrow> 'a \<Rightarrow> bool" where
  "same_pair u v p q \<longleftrightarrow> p = u \<and> q = v \<or> p = v \<and> q = u"

locale graph_store =
  fixes inv :: "'g \<Rightarrow> bool"
    and liv :: "'g \<Rightarrow> nat \<Rightarrow> bool"
    and fresh :: "'g \<Rightarrow> nat"
    and dat :: "'g \<Rightarrow> nat \<Rightarrow> 'n"
    and val :: "'g \<Rightarrow> nat \<Rightarrow> nat \<Rightarrow> 'e option"
    and nbrs :: "'g \<Rightarrow> nat \<Rightarrow> nat list"
    and add_node :: "'g \<Rightarrow> 'n \<Rightarrow> 'g"
    and put_edge :: "'g \<Rightarrow> nat \<Rightarrow> nat \<Rightarrow> 'e \<Rightarrow> 'g"
    and del_edge :: "'g \<Rightarrow> nat \<Rightarrow> nat \<Rightarrow> 'g res"
    and del_node :: "'g \<Rightarrow> nat \<Rightarrow> 'g"
    and upd_data :: "'g \<Rightarrow> nat \<Rightarrow> ('n \<Rightarrow> 'n) \<Rightarrow> 'g"
  assumes liv_fresh: "inv g \<Longrightarrow> liv g n \<Longrightarrow> n < fresh g"
    and val_sym: "inv g \<Longrightarrow> val g u v = val g v u"
    and val_irrefl: "inv g \<Longrightarrow> val g u u = None"
    and val_liv: "inv g \<Longrightarrow> val g u v = Some w \<Longrightarrow> liv g u \<and> liv g v"
    and nbrs_iff: "inv g \<Longrightarrow> liv g n \<Longrightarrow> v \<in> set (nbrs g n) \<longleftrightarrow> val g n v \<noteq> None"
    and nbrs_distinct: "inv g \<Longrightarrow> liv g n \<Longrightarrow> distinct (nbrs g n)"
    and add_node_inv: "inv g \<Longrightarrow> inv (add_node g x)"
    and add_node_fresh: "inv g \<Longrightarrow> fresh (add_node g x) = Suc (fresh g)"
    and add_node_liv: "inv g \<Longrightarrow> liv (add_node g x) n \<longleftrightarrow> liv g n \<or> n = fresh g"
    and add_node_dat: "inv g \<Longrightarrow> n \<le> fresh g \<Longrightarrow>
          dat (add_node g x) n = (if n = fresh g then x else dat g n)"
    and add_node_val: "inv g \<Longrightarrow> val (add_node g x) u v = val g u v"
    and add_node_nbrs_new: "inv g \<Longrightarrow> nbrs (add_node g x) (fresh g) = []"
    and add_node_nbrs: "inv g \<Longrightarrow> liv g n \<Longrightarrow> nbrs (add_node g x) n = nbrs g n"
    and put_edge_inv: "inv g \<Longrightarrow> liv g u \<Longrightarrow> liv g v \<Longrightarrow> u \<noteq> v \<Longrightarrow> inv (put_edge g u v e)"
    and put_edge_fresh: "inv g \<Longrightarrow> liv g u \<Longrightarrow> liv g v \<Longrightarrow> u \<noteq> v \<Longrightarrow> fresh (put_edge g u v e) = fresh g"
    and put_edge_liv: "inv g \<Longrightarrow> liv g u \<Longrightarrow> liv g v \<Longrightarrow> u \<noteq> v \<Longrightarrow> liv (put_edge g u v e) n = liv g n"
    and put_edge_dat: "inv g \<Longrightarrow> liv g u \<Longrightarrow> liv g v \<Longrightarrow> u \<noteq> v \<Longrightarrow> dat (put_edge g u v e) n = dat g n"
    and put_edge_val: "inv g \<Longrightarrow> liv g u \<Longrightarrow> liv g v \<Longrightarrow> u \<noteq> v \<Longrightarrow>
          val (put_edge g u v e) p q = (if same_pair u v p q then Some e else val g p q)"
    and put_edge_nbrs: "inv g \<Longrightarrow> liv g u \<Longrightarrow> liv g v \<Longrightarrow> u \<noteq> v \<Longrightarrow> liv g n \<Longrightarrow> n \<noteq> u \<Longrightarrow> n \<noteq> v \<Longrightarrow>
          nbrs (put_edge g u v e) n = nbrs g n"
    and del_edge_ok: "inv g \<Longrightarrow> val g u v = Some w \<Longrightarrow> \<exists>h. del_edge g u v = Inr h"
    and del_edge_inv: "inv g \<Longrightarrow> val g u v = Some w \<Longrightarrow> del_edge g u v = Inr h \<Longrightarrow> inv h"
    and del_edge_fresh: "inv g \<Longrightarrow> val g u v = Some w \<Longrightarrow> del_edge g u v = Inr h \<Longrightarrow> fresh h = fresh g"
    and del_edge_liv: "inv g \<Longrightarrow> val g u v = Some w \<Longrightarrow> del_edge g u v = Inr h \<Longrightarrow> liv h n = liv g n"
    and del_edge_dat: "inv g \<Longrightarrow> val g u v = Some w \<Longrightarrow> del_edge g u v = Inr h \<Longrightarrow> dat h n = dat g n"
    and del_edge_val: "inv g \<Longrightarrow> val g u v = Some w \<Longrightarrow> del_edge g u v = Inr h \<Longrightarrow>
          val h p q = (if same_pair u v p q then None else val g p q)"
    and del_edge_nbrs: "inv g \<Longrightarrow> val g u v = Some w \<Longrightarrow> del_edge g u v = Inr h \<Longrightarrow>
          liv g n \<Longrightarrow> n \<noteq> u \<Longrightarrow> n \<noteq> v \<Longrightarrow> nbrs h n = nbrs g n"
    and del_node_inv: "inv g \<Longrightarrow> liv g n \<Longrightarrow> inv (del_node g n)"
    and del_node_fresh: "inv g \<Longrightarrow> liv g n \<Longrightarrow> fresh (del_node g n) = fresh g"
    and del_node_liv: "inv g \<Longrightarrow> liv g n \<Longrightarrow> liv (del_node g n) m \<longleftrightarrow> liv g m \<and> m \<noteq> n"
    and del_node_dat: "inv g \<Longrightarrow> liv g n \<Longrightarrow> dat (del_node g n) m = dat g m"
    and del_node_val: "inv g \<Longrightarrow> liv g n \<Longrightarrow>
          val (del_node g n) p q = (if p = n \<or> q = n then None else val g p q)"
    and del_node_nbrs: "inv g \<Longrightarrow> liv g n \<Longrightarrow> liv g m \<Longrightarrow> m \<noteq> n \<Longrightarrow>
          nbrs (del_node g n) m = filter (\<lambda>v. v \<noteq> n) (nbrs g m)"
    and upd_data_inv: "inv g \<Longrightarrow> liv g n \<Longrightarrow> inv (upd_data g n f)"
    and upd_data_fresh: "inv g \<Longrightarrow> liv g n \<Longrightarrow> fresh (upd_data g n f) = fresh g"
    and upd_data_liv: "inv g \<Longrightarrow> liv g n \<Longrightarrow> liv (upd_data g n f) m = liv g m"
    and upd_data_dat: "inv g \<Longrightarrow> liv g n \<Longrightarrow>
          dat (upd_data g n f) m = (if m = n then f (dat g n) else dat g m)"
    and upd_data_val: "inv g \<Longrightarrow> liv g n \<Longrightarrow> val (upd_data g n f) p q = val g p q"
    and upd_data_nbrs: "inv g \<Longrightarrow> liv g n \<Longrightarrow> liv g m \<Longrightarrow> nbrs (upd_data g n f) m = nbrs g m"

section \<open>Meshes of triangles\<close>

locale triangle_store = graph_store inv liv fresh dat val nbrs add_node put_edge del_edge del_node
    upd_data
  for inv :: "'g \<Rightarrow> bool" and liv fresh and dat :: "'g \<Rightarrow> nat \<Rightarrow> 'n"
    and val :: "'g \<Rightarrow> nat \<Rightarrow> nat \<Rightarrow> 'e option"
    and nbrs add_node put_edge del_edge del_node upd_data +
  fixes hyper :: "'n \<Rightarrow> bool"
    and add_tri :: "'g \<Rightarrow> nat \<Rightarrow> nat \<Rightarrow> nat \<Rightarrow> 'g"
    and tri_data :: "'n \<Rightarrow> 'n \<Rightarrow> 'n \<Rightarrow> 'n"
    and tri_edge :: 'e
  assumes tri_data_hyper: "hyper (tri_data x y z)"
    and add_tri_inv: "inv g \<Longrightarrow> \<forall>v \<in> {a, b, c}. liv g v \<Longrightarrow> distinct [a, b, c] \<Longrightarrow> inv (add_tri g a b c)"
    and add_tri_fresh: "inv g \<Longrightarrow> \<forall>v \<in> {a, b, c}. liv g v \<Longrightarrow> distinct [a, b, c] \<Longrightarrow>
          fresh (add_tri g a b c) = Suc (fresh g)"
    and add_tri_liv: "inv g \<Longrightarrow> \<forall>v \<in> {a, b, c}. liv g v \<Longrightarrow> distinct [a, b, c] \<Longrightarrow>
          liv (add_tri g a b c) n \<longleftrightarrow> liv g n \<or> n = fresh g"
    and add_tri_dat: "inv g \<Longrightarrow> \<forall>v \<in> {a, b, c}. liv g v \<Longrightarrow> distinct [a, b, c] \<Longrightarrow> n \<le> fresh g \<Longrightarrow>
          dat (add_tri g a b c) n =
            (if n = fresh g then tri_data (dat g a) (dat g b) (dat g c) else dat g n)"
    and add_tri_val: "inv g \<Longrightarrow> \<forall>v \<in> {a, b, c}. liv g v \<Longrightarrow> distinct [a, b, c] \<Longrightarrow>
          val (add_tri g a b c) p q =
            (if p = fresh g \<and> q \<in> {a, b, c} \<or> q = fresh g \<and> p \<in> {a, b, c} then Some tri_edge
             else val g p q)"
    and add_tri_nbrs_new: "inv g \<Longrightarrow> \<forall>v \<in> {a, b, c}. liv g v \<Longrightarrow> distinct [a, b, c] \<Longrightarrow>
          nbrs (add_tri g a b c) (fresh g) = [a, b, c]"
    and add_tri_nbrs: "inv g \<Longrightarrow> \<forall>v \<in> {a, b, c}. liv g v \<Longrightarrow> distinct [a, b, c] \<Longrightarrow>
          liv g n \<Longrightarrow> n \<notin> {a, b, c} \<Longrightarrow> nbrs (add_tri g a b c) n = nbrs g n"
begin

text \<open>The interiors, and the well-formed meshes.\<close>

definition interiors :: "'g \<Rightarrow> nat set" where
  "interiors g = {n. liv g n \<and> hyper (dat g n)}"

definition vertex :: "'g \<Rightarrow> nat \<Rightarrow> bool" where
  "vertex g v \<longleftrightarrow> liv g v \<and> \<not> hyper (dat g v)"

definition tri_ok :: "'g \<Rightarrow> bool" where
  "tri_ok g \<longleftrightarrow> inv g \<and>
     (\<forall>n \<in> interiors g. length (nbrs g n) = 3 \<and> (\<forall>v \<in> set (nbrs g n). vertex g v))"

definition triangles :: "'g \<Rightarrow> nat list multiset" where
  "triangles g = image_mset (nbrs g) (mset_set (interiors g))"

lemma tri_okD:
  assumes "tri_ok g"
  shows "inv g" "n \<in> interiors g \<Longrightarrow> length (nbrs g n) = 3"
    "n \<in> interiors g \<Longrightarrow> v \<in> set (nbrs g n) \<Longrightarrow> vertex g v"
  using assms by (auto simp: tri_ok_def)

lemma interior_not_vertex: "n \<in> interiors g \<Longrightarrow> \<not> vertex g n"
  by (simp add: interiors_def vertex_def)

lemma finite_interiors [simp]: "inv g \<Longrightarrow> finite (interiors g)"
  by (rule finite_subset [of _ "{..<fresh g}"]) (auto simp: interiors_def dest: liv_fresh)

text \<open>An operation that leaves the interiors and their neighbours alone.\<close>

lemma keep_interiors:
  assumes "tri_ok g" "inv h" "interiors h = interiors g"
    and "\<And>n. n \<in> interiors g \<Longrightarrow> nbrs h n = nbrs g n"
    and "\<And>v. vertex g v \<Longrightarrow> vertex h v"
  shows "tri_ok h" "triangles h = triangles g"
proof -
  show "tri_ok h"
    using assms by (auto simp: tri_ok_def)
  show "triangles h = triangles g"
    using assms tri_okD(1) [OF assms(1)] unfolding triangles_def assms(3)
    by (intro image_mset_cong) simp
qed

lemma add_vertex:
  assumes "tri_ok g" "\<not> hyper x"
  shows "tri_ok (add_node g x)" "triangles (add_node g x) = triangles g"
    "interiors (add_node g x) = interiors g"
proof -
  note inv = tri_okD(1) [OF assms(1)]
  have *: "dat (add_node g x) n = dat g n" if "liv g n" for n
    using that liv_fresh [OF inv that] by (simp add: add_node_dat [OF inv])
  show int: "interiors (add_node g x) = interiors g"
    using assms(2) * by (auto simp: interiors_def add_node_liv [OF inv] add_node_dat [OF inv])
  show "tri_ok (add_node g x)" "triangles (add_node g x) = triangles g"
    by (rule keep_interiors [OF assms(1) add_node_inv [OF inv] int];
        auto simp: vertex_def interiors_def * add_node_liv [OF inv] add_node_nbrs [OF inv])+
qed

lemma put_vertex_edge:
  assumes "tri_ok g" "vertex g u" "vertex g v" "u \<noteq> v"
  shows "tri_ok (put_edge g u v e)" "triangles (put_edge g u v e) = triangles g"
    "interiors (put_edge g u v e) = interiors g"
proof -
  note inv = tri_okD(1) [OF assms(1)]
  have l: "liv g u" "liv g v" using assms(2,3) by (simp_all add: vertex_def)
  note frame = put_edge_liv [OF inv l assms(4)] put_edge_dat [OF inv l assms(4)]
  show int: "interiors (put_edge g u v e) = interiors g"
    by (simp add: interiors_def frame)
  have nb: "nbrs (put_edge g u v e) n = nbrs g n" if "n \<in> interiors g" for n
    using that assms(2,3) interior_not_vertex [OF that]
    by (intro put_edge_nbrs [OF inv l assms(4)]) (auto simp: interiors_def)
  show "tri_ok (put_edge g u v e)" "triangles (put_edge g u v e) = triangles g"
    by (rule keep_interiors [OF assms(1) put_edge_inv [OF inv l assms(4)] int nb];
        simp add: vertex_def frame)+
qed

lemma del_vertex_edge:
  assumes "tri_ok g" "vertex g u" "vertex g v" "val g u v = Some x" "del_edge g u v = Inr h"
  shows "tri_ok h" "triangles h = triangles g" "interiors h = interiors g"
proof -
  note inv = tri_okD(1) [OF assms(1)]
  note frame = del_edge_liv [OF inv assms(4,5)] del_edge_dat [OF inv assms(4,5)]
  show int: "interiors h = interiors g"
    by (simp add: interiors_def frame)
  have nb: "nbrs h n = nbrs g n" if "n \<in> interiors g" for n
    using that assms(2,3) interior_not_vertex [OF that]
    by (intro del_edge_nbrs [OF inv assms(4,5)]) (auto simp: interiors_def)
  show "tri_ok h" "triangles h = triangles g"
    by (rule keep_interiors [OF assms(1) del_edge_inv [OF inv assms(4,5)] int nb];
        simp add: vertex_def frame)+
qed

lemma upd_vertex_data:
  assumes "tri_ok g" "liv g v" "hyper (f (dat g v)) = hyper (dat g v)"
  shows "tri_ok (upd_data g v f)" "triangles (upd_data g v f) = triangles g"
    "interiors (upd_data g v f) = interiors g"
proof -
  note inv = tri_okD(1) [OF assms(1)]
  note frame = upd_data_liv [OF inv assms(2)] upd_data_dat [OF inv assms(2)]
  show int: "interiors (upd_data g v f) = interiors g"
    using assms(3) by (auto simp: interiors_def frame)
  have nb: "nbrs (upd_data g v f) n = nbrs g n" if "n \<in> interiors g" for n
    using that by (intro upd_data_nbrs [OF inv assms(2)]) (simp add: interiors_def)
  show "tri_ok (upd_data g v f)" "triangles (upd_data g v f) = triangles g"
    by (rule keep_interiors [OF assms(1) upd_data_inv [OF inv assms(2)] int nb];
        use assms(3) in \<open>auto simp: vertex_def frame\<close>)+
qed

text \<open>A new triangle.\<close>

lemma add_triangle:
  assumes "tri_ok g" "vertex g a" "vertex g b" "vertex g c" "distinct [a, b, c]"
  shows "tri_ok (add_tri g a b c)" "triangles (add_tri g a b c) = add_mset [a, b, c] (triangles g)"
    "interiors (add_tri g a b c) = insert (fresh g) (interiors g)"
proof -
  note inv = tri_okD(1) [OF assms(1)]
  have l: "\<forall>v \<in> {a, b, c}. liv g v" using assms(2-4) by (simp add: vertex_def)
  let ?h = "add_tri g a b c"
  have new: "fresh g \<notin> interiors g" using liv_fresh [OF inv] by (auto simp: interiors_def)
  have dat: "dat ?h n = dat g n" if "liv g n" for n
    using liv_fresh [OF inv that] by (simp add: add_tri_dat [OF inv l assms(5)])
  have dat_new: "hyper (dat ?h (fresh g))"
    by (simp add: add_tri_dat [OF inv l assms(5)] tri_data_hyper)
  show int: "interiors ?h = insert (fresh g) (interiors g)"
    using dat dat_new by (auto simp: interiors_def add_tri_liv [OF inv l assms(5)])
  have nb: "nbrs ?h n = nbrs g n" if "n \<in> interiors g" for n
    using that assms(2-4) interior_not_vertex [OF that]
    by (intro add_tri_nbrs [OF inv l assms(5)]) (auto simp: interiors_def)
  have vx: "vertex ?h v" if "vertex g v" for v
    using that dat by (simp add: vertex_def add_tri_liv [OF inv l assms(5)])
  show "tri_ok ?h"
    unfolding tri_ok_def int
    using add_tri_inv [OF inv l assms(5)] add_tri_nbrs_new [OF inv l assms(5)] nb vx assms(2-4)
      tri_okD(2,3) [OF assms(1)]
    by auto
  have "image_mset (nbrs ?h) (mset_set (interiors g)) = triangles g"
    unfolding triangles_def using inv nb by (intro image_mset_cong) simp
  then show "triangles ?h = add_mset [a, b, c] (triangles g)"
    unfolding triangles_def [of ?h] int
    using new inv by (simp add: add_tri_nbrs_new [OF inv l assms(5)])
qed

text \<open>An interior goes away.\<close>

lemma del_interior:
  assumes "tri_ok g" "n \<in> interiors g"
  shows "tri_ok (del_node g n)" "triangles (del_node g n) = triangles g - {#nbrs g n#}"
    "interiors (del_node g n) = interiors g - {n}"
proof -
  note inv = tri_okD(1) [OF assms(1)]
  have l: "liv g n" using assms(2) by (simp add: interiors_def)
  note frame = del_node_liv [OF inv l] del_node_dat [OF inv l]
  show int: "interiors (del_node g n) = interiors g - {n}"
    by (auto simp: interiors_def frame)
  have nb: "nbrs (del_node g n) m = nbrs g m" if "m \<in> interiors g" "m \<noteq> n" for m
  proof -
    have "v \<noteq> n" if "v \<in> set (nbrs g m)" for v
      using tri_okD(3) [OF assms(1) \<open>m \<in> interiors g\<close> that] interior_not_vertex [OF assms(2)] by auto
    then show ?thesis
      using that l by (subst del_node_nbrs [OF inv l]) (auto simp: interiors_def filter_id_conv)
  qed
  have vx: "vertex (del_node g n) v" if "vertex g v" for v
    using that interior_not_vertex [OF assms(2)] by (auto simp: vertex_def frame)
  show "tri_ok (del_node g n)"
    unfolding tri_ok_def int
    using del_node_inv [OF inv l] nb vx tri_okD(2,3) [OF assms(1)] by auto
  have eq: "mset_set (interiors g) = add_mset n (mset_set (interiors g - {n}))"
    using assms(2) inv by (simp add: mset_set.remove)
  have "image_mset (nbrs (del_node g n)) (mset_set (interiors g - {n})) =
      image_mset (nbrs g) (mset_set (interiors g - {n}))"
    using inv nb by (intro image_mset_cong) auto
  then show "triangles (del_node g n) = triangles g - {#nbrs g n#}"
    unfolding triangles_def int eq by simp
qed

end

section \<open>The Galois graph as a store\<close>

text \<open>What the pattern \<open>addEdge\<close> followed by writes to all fields of the edge comes down to.\<close>

definition put_edge :: "mesh \<Rightarrow> nat \<Rightarrow> nat \<Rightarrow> edge_data \<Rightarrow> mesh" where
  "put_edge g u v x =
     (let (g1, it) = addEdge EdgeData_default g u v in updEdgeData g1 u it (\<lambda>_. x))"

lemma put_edge_laws:
  assumes "mg_inv g" "live g u" "live g v" "u \<noteq> v"
  shows "mg_inv (put_edge g u v x)"
    and "length (nodes (put_edge g u v x)) = length (nodes g)"
    and "live (put_edge g u v x) n = live g n"
    and "getData (put_edge g u v x) n = getData g n"
    and "edge_val (put_edge g u v x) p q = (if same_pair u v p q then Some x else edge_val g p q)"
    and "live g n \<Longrightarrow> n \<noteq> u \<Longrightarrow> n \<noteq> v \<Longrightarrow> getNeighbours (put_edge g u v x) n = getNeighbours g n"
proof -
  let ?g1 = "fst (addEdge EdgeData_default g u v)"
  have eq: "put_edge g u v x = updEdgeData ?g1 u (findEdge ?g1 u v) (\<lambda>_. x)"
    using addEdge_iterator [OF assms, of EdgeData_default]
    by (simp add: put_edge_def Let_def case_prod_beta)
  note inv1 = mg_inv_addEdge [OF assms, of EdgeData_default]
  note f = addEdge_frame [OF assms(2-4), of EdgeData_default]
  show "mg_inv (put_edge g u v x)" "length (nodes (put_edge g u v x)) = length (nodes g)"
    "live (put_edge g u v x) n = live g n" "getData (put_edge g u v x) n = getData g n"
    unfolding eq by (simp_all add: mg_inv_updEdgeData inv1 f getData_def)
  have some: "edge_val ?g1 u v \<noteq> None"
    by (simp add: edge_val_addEdge [OF assms])
  then have "findEdge ?g1 u v < length (edges (node ?g1 u))"
    by (simp add: edge_val_def split: if_splits)
  then have "edge_val (put_edge g u v x) p q =
      (if same_pair u v p q then map_option (\<lambda>_. x) (edge_val ?g1 p q) else edge_val ?g1 p q)"
    using edge_val_updEdgeData [OF inv1, of u v "\<lambda>_. x" p q] assms f(4)
    unfolding eq same_pair_def by simp
  moreover have "edge_val ?g1 p q \<noteq> None" if "same_pair u v p q"
    using some edge_val_sym [OF inv1, of u v] that by (auto simp: same_pair_def)
  moreover have "edge_val ?g1 p q = edge_val g p q" if "\<not> same_pair u v p q"
    using that by (simp only: edge_val_addEdge [OF assms] same_pair_def simp_thms if_False)
  ultimately show "edge_val (put_edge g u v x) p q =
      (if same_pair u v p q then Some x else edge_val g p q)"
    by (cases "same_pair u v p q") auto
  show "getNeighbours (put_edge g u v x) n = getNeighbours g n" if "live g n" "n \<noteq> u" "n \<noteq> v"
    unfolding eq using that assms inv1
    by (intro getNeighbours_cong mg_inv_updEdgeData) (simp_all add: f addEdge_edges_other)
qed

lemma cm_removeEdge_unlink:
  assumes "mg_inv g" "edge_val g u v = Some x"
  shows "\<exists>h. cm_removeEdge g u v = Inr h \<and> unlink g u v h"
proof -
  obtain a where a: "linked g u v a"
    using edge_val_None [OF assms(1), of u v] assms(2) by auto
  then have l: "live g u" "live g v" by (simp_all add: linked_def)
  have "findEdge g u v < length (edges (node g u))"
    using assms(2) by (simp add: edge_val_def split: if_splits)
  then show ?thesis
    using removeEdge_unlink [OF assms(1) l a] by (simp add: cm_removeEdge_def)
qed

lemma cm_removeEdge_laws:
  assumes "mg_inv g" "edge_val g u v = Some x" "cm_removeEdge g u v = Inr h"
  shows "mg_inv h" "length (nodes h) = length (nodes g)" "live h n = live g n"
    "getData h n = getData g n"
    "edge_val h p q = (if same_pair u v p q then None else edge_val g p q)"
    "live g n \<Longrightarrow> n \<noteq> u \<Longrightarrow> n \<noteq> v \<Longrightarrow> getNeighbours h n = getNeighbours g n"
proof -
  have l: "live g u" "live g v" using edge_val_live [OF assms(2)] by simp_all
  have neq: "u \<noteq> v" using assms(1,2) edge_val_irrefl [OF assms(1)] by auto
  have un: "unlink g u v h" using cm_removeEdge_unlink [OF assms(1,2)] assms(3) by simp
  show inv: "mg_inv h" by (rule mg_inv_unlink [OF assms(1) l neq un])
  show "length (nodes h) = length (nodes g)" "getData h n = getData g n" "live h n = live g n"
    using un unlink_live [OF un] by (simp_all add: unlink_def getData_def)
  show "edge_val h p q = (if same_pair u v p q then None else edge_val g p q)"
    unfolding same_pair_def by (rule edge_val_unlink [OF assms(1) l neq un])
  show "getNeighbours h n = getNeighbours g n" if "live g n" "n \<noteq> u" "n \<noteq> v"
    using that un unlink_live [OF un]
    by (intro getNeighbours_cong [OF assms(1) inv]) (simp_all add: unlink_def)
qed

subsection \<open>Creating an interior\<close>

lemma live_entries_addEdge_new:
  assumes "mg_inv g" "live g n" "live g v" "n \<noteq> v" "edge_val g n v = None"
    and "live_entries g n = edges (node g n)"
  shows "getNeighbours (fst (addEdge d g n v)) n = getNeighbours g n @ [v]"
    and "live_entries (fst (addEdge d g n v)) n = edges (node (fst (addEdge d g n v)) n)"
proof -
  have "gNode_find g n v False = length (edges (node g n))"
    using assms(2,3,5) gNode_find_le [of g n v False]
    by (simp add: edge_val_def findEdge_eq split: if_splits)
  then have eq: "fst (addEdge d g n v) = link_new d g n v"
    using assms(2-4) by (simp add: addEdge_new)
  let ?e = "\<lparr>first = v, isInEdge = False, second = length (edgesF g)\<rparr>"
  have act: "\<forall>x \<in> set (edges (node g n)). active (node g (first x))"
    using assms(6) unfolding live_entries_def by (metis filter_id_conv)
  have es: "edges (node (link_new d g n v) n) = edges (node g n) @ [?e]"
    using assms(2-4) act by (simp add: edges_link_new live_def reuse_insert_no_hole)
  show le: "live_entries (fst (addEdge d g n v)) n = edges (node (fst (addEdge d g n v)) n)"
    using assms(3) act unfolding eq live_entries_def es by (simp add: live_def)
  have "mg_inv (link_new d g n v)" using mg_inv_addEdge [OF assms(1-4), of d] eq by simp
  then show "getNeighbours (fst (addEdge d g n v)) n = getNeighbours g n @ [v]"
    using assms(1,2,6) le unfolding eq
    by (simp add: getNeighbours_eq mg_inv_wf live_def es)
qed

text \<open>Linking a node without holes in its vector to three others, one after the other.\<close>

definition link3 :: "mesh \<Rightarrow> nat \<Rightarrow> nat \<Rightarrow> nat \<Rightarrow> nat \<Rightarrow> mesh" where
  "link3 g n a b c =
     fst (addEdge EdgeData_default (fst (addEdge EdgeData_default
       (fst (addEdge EdgeData_default g n a)) n b)) n c)"

lemma addEdge_step:
  assumes "mg_inv g" "live g n" "live g v" "n \<noteq> v"
  defines "h \<equiv> fst (addEdge EdgeData_default g n v)"
  shows "mg_inv h" "live h = live g" "length (nodes h) = length (nodes g)" "getData h = getData g"
    "edge_val g n v = None \<Longrightarrow>
       edge_val h p q = (if same_pair n v p q then Some EdgeData_default else edge_val g p q)"
    "live g m \<Longrightarrow> m \<noteq> n \<Longrightarrow> m \<noteq> v \<Longrightarrow> getNeighbours h m = getNeighbours g m"
proof -
  note f = addEdge_frame [OF assms(2-4), of EdgeData_default]
  show inv: "mg_inv h" unfolding h_def by (rule mg_inv_addEdge [OF assms(1-4)])
  show "live h = live g" "length (nodes h) = length (nodes g)" "getData h = getData g"
    by (simp_all add: h_def f getData_def fun_eq_iff)
  show "edge_val h p q = (if same_pair n v p q then Some EdgeData_default else edge_val g p q)"
    if "edge_val g n v = None"
    using that unfolding h_def edge_val_addEdge [OF assms(1-4)] same_pair_def by simp
  show "getNeighbours h m = getNeighbours g m" if "live g m" "m \<noteq> n" "m \<noteq> v"
    using that assms inv unfolding h_def
    by (intro getNeighbours_cong) (simp_all add: f addEdge_edges_other)
qed

lemma link3_laws:
  assumes "mg_inv g" "live g n" "\<forall>v \<in> {a, b, c}. live g v" "distinct [n, a, b, c]"
    and "getNeighbours g n = []" "edges (node g n) = []"
  defines "h \<equiv> link3 g n a b c"
  shows "mg_inv h" "live h = live g" "length (nodes h) = length (nodes g)" "getData h = getData g"
    "edge_val h p q = (if p = n \<and> q \<in> {a, b, c} \<or> q = n \<and> p \<in> {a, b, c} then Some EdgeData_default
                       else edge_val g p q)"
    "getNeighbours h n = [a, b, c]"
    "live g m \<Longrightarrow> m \<noteq> n \<Longrightarrow> m \<notin> {a, b, c} \<Longrightarrow> getNeighbours h m = getNeighbours g m"
proof -
  let ?g1 = "fst (addEdge EdgeData_default g n a)"
  let ?g2 = "fst (addEdge EdgeData_default ?g1 n b)"
  have none: "edge_val g n v = None" for v
    using getNeighbours_iff [OF assms(1,2), of v] assms(5) by auto
  have l: "live g a" "live g b" "live g c" "n \<noteq> a" "n \<noteq> b" "n \<noteq> c" "a \<noteq> b" "a \<noteq> c" "b \<noteq> c"
    using assms(3,4) by auto
  note s1 = addEdge_step [OF assms(1,2) l(1,4)]
  have l1: "live ?g1 n" "live ?g1 b" "edge_val ?g1 n b = None"
    using s1(2) assms(2) l s1(5) [OF none, of n b] none by (simp_all add: same_pair_def)
  note s2 = addEdge_step [OF s1(1) l1(1,2) l(5)]
  have l2: "live ?g2 n" "live ?g2 c" "edge_val ?g2 n c = None"
    using s1(2) s2(2) assms(2) l s2(5) [OF l1(3), of n c] s1(5) [OF none, of n c] none
    by (simp_all add: same_pair_def)
  note s3 = addEdge_step [OF s2(1) l2(1,2) l(6)]
  have h: "h = fst (addEdge EdgeData_default ?g2 n c)" by (simp add: h_def link3_def)
  show "mg_inv h" "live h = live g" "length (nodes h) = length (nodes g)" "getData h = getData g"
    unfolding h by (simp_all only: s3(1-4) s2(2-4) s1(2-4))
  show "edge_val h p q = (if p = n \<and> q \<in> {a, b, c} \<or> q = n \<and> p \<in> {a, b, c}
      then Some EdgeData_default else edge_val g p q)"
  proof -
    have "edge_val h p q = (if same_pair n c p q then Some EdgeData_default
        else if same_pair n b p q then Some EdgeData_default
        else if same_pair n a p q then Some EdgeData_default else edge_val g p q)"
      by (simp only: h s3(5) [OF l2(3)] s2(5) [OF l1(3)] s1(5) [OF none])
    moreover have "p = n \<and> q \<in> {a, b, c} \<or> q = n \<and> p \<in> {a, b, c} \<longleftrightarrow>
        same_pair n c p q \<or> same_pair n b p q \<or> same_pair n a p q"
      by (auto simp: same_pair_def)
    ultimately show ?thesis
      by simp
  qed
  have "live_entries g n = edges (node g n)" by (simp add: live_entries_def assms(6))
  note e1 = live_entries_addEdge_new [OF assms(1,2) l(1,4) none this, of EdgeData_default]
  note e2 = live_entries_addEdge_new [OF s1(1) l1(1,2) l(5) l1(3) e1(2), of EdgeData_default]
  note e3 = live_entries_addEdge_new [OF s2(1) l2(1,2) l(6) l2(3) e2(2), of EdgeData_default]
  show "getNeighbours h n = [a, b, c]"
    unfolding h e3(1) e2(1) e1(1) assms(5) by simp
  show "getNeighbours h m = getNeighbours g m" if "live g m" "m \<noteq> n" "m \<notin> {a, b, c}"
    unfolding h using that by (simp add: s3(6) s2(6) s1(6) s2(2) s1(2))
qed

definition tri_data :: "node_data \<Rightarrow> node_data \<Rightarrow> node_data \<Rightarrow> node_data" where
  "tri_data x y z =
     setCoords (coord_div (coord_add (coord_add (coords x) (coords y)) (coords z)) 3)
       (NodeData_plain True False)"

lemma cm_createNode_eq: "cm_createNode g x = (new_node g x, length (nodes g))"
  by (simp add: cm_createNode_def new_node_def case_prod_beta)

lemma getData_new_node:
  "n \<le> length (nodes g) \<Longrightarrow> getData (new_node g x) n = (if n = length (nodes g) then x else getData g n)"
  by (simp add: getData_def node_new_node)

lemma createInterior_eq:
  "createInterior g a b c =
     (let n = length (nodes g); h = link3 (new_node g (NodeData_plain True False)) n a b c
      in (updData h n (setCoords (coord_div (coord_add (coord_add (coords (getData h a))
            (coords (getData h b))) (coords (getData h c))) 3)), n))"
  by (simp add: createInterior_def cm_createNode_eq link3_def Let_def)

lemma createInterior_ctx_eq:
  "createInterior_ctx g a b c =
     (fst (createInterior g a b c), [snd (createInterior g a b c)])"
  by (simp add: createInterior_ctx_def createInterior_def cm_createNode_ctx_def cm_createNode_eq
      Let_def)

lemma createInterior_laws:
  assumes "mg_inv g" "\<forall>v \<in> {a, b, c}. live g v" "distinct [a, b, c]"
  defines "h \<equiv> fst (createInterior g a b c)"
  shows "mg_inv h" "length (nodes h) = Suc (length (nodes g))"
    "live h n \<longleftrightarrow> live g n \<or> n = length (nodes g)"
    "n \<le> length (nodes g) \<Longrightarrow> getData h n =
       (if n = length (nodes g) then tri_data (getData g a) (getData g b) (getData g c) else getData g n)"
    "edge_val h p q = (if p = length (nodes g) \<and> q \<in> {a, b, c} \<or> q = length (nodes g) \<and> p \<in> {a, b, c}
       then Some EdgeData_default else edge_val g p q)"
    "getNeighbours h (length (nodes g)) = [a, b, c]"
    "live g n \<Longrightarrow> n \<notin> {a, b, c} \<Longrightarrow> getNeighbours h n = getNeighbours g n"
proof -
  let ?n = "length (nodes g)" and ?g0 = "new_node g (NodeData_plain True False)"
  let ?g3 = "link3 ?g0 ?n a b c"
  have lt: "a < ?n" "b < ?n" "c < ?n" using assms(2) by (auto simp: live_def)
  have l0: "\<forall>v \<in> {a, b, c}. live ?g0 v" "live ?g0 ?n" "distinct [?n, a, b, c]"
    using assms(2,3) lt by (auto simp: live_new_node)
  note laws = link3_laws [OF mg_inv_new_node [OF assms(1)] l0(2,1,3)
      getNeighbours_new_node(1) [OF assms(1)]]
  have es: "edges (node ?g0 ?n) = []" by (simp add: node_new_node)
  note laws = laws [OF es]
  have lt3: "?n < length (nodes ?g3)" by (simp add: laws)
  have h: "h = updData ?g3 ?n (setCoords (coord_div (coord_add (coord_add (coords (getData g a))
      (coords (getData g b))) (coords (getData g c))) 3))"
    using lt by (simp add: h_def createInterior_eq Let_def laws getData_new_node)
  have dat: "getData h m = (if m = ?n then setCoords (coord_div (coord_add (coord_add
      (coords (getData g a)) (coords (getData g b))) (coords (getData g c))) 3) (getData ?g3 ?n)
      else getData ?g3 m)" for m
    unfolding h getData_def using lt3 by (simp add: node_updData)
  show inv: "mg_inv h" unfolding h by (rule mg_inv_updData [OF laws(1) lt3])
  show "length (nodes h) = Suc ?n" by (simp add: h laws)
  show lv: "live h n \<longleftrightarrow> live g n \<or> n = ?n" for n
    using lt3 by (simp add: h laws live_new_node)
  show "getData h n = (if n = ?n then tri_data (getData g a) (getData g b) (getData g c) else getData g n)"
    if "n \<le> ?n"
    using that by (simp add: dat laws getData_new_node tri_data_def)
  show "edge_val h p q = (if p = ?n \<and> q \<in> {a, b, c} \<or> q = ?n \<and> p \<in> {a, b, c}
       then Some EdgeData_default else edge_val g p q)"
    unfolding h edge_val_updData [OF laws(1) lt3] laws(5) edge_val_new_node [OF assms(1)] ..
  have nb: "getNeighbours h m = getNeighbours ?g3 m" if "live h m" for m
    using that lt3 laws(1) inv unfolding h
    by (intro getNeighbours_cong) (auto simp: node_updData)
  show "getNeighbours h ?n = [a, b, c]"
    using nb [of ?n] lv laws(6) by simp
  show "getNeighbours h n = getNeighbours g n" if "live g n" "n \<notin> {a, b, c}"
  proof -
    have "n \<noteq> ?n" using that(1) by (auto simp: live_def)
    then show ?thesis
      using that nb [of n] lv laws(7) [of n] getNeighbours_new_node(2) [OF assms(1), of n]
      by (simp add: live_new_node)
  qed
qed

lemma updData_laws:
  assumes "mg_inv g" "live g n"
  shows "mg_inv (updData g n f)" "length (nodes (updData g n f)) = length (nodes g)"
    "live (updData g n f) m = live g m"
    "getData (updData g n f) m = (if m = n then f (getData g n) else getData g m)"
    "edge_val (updData g n f) p q = edge_val g p q"
    "live g m \<Longrightarrow> getNeighbours (updData g n f) m = getNeighbours g m"
proof -
  have lt: "n < length (nodes g)" using assms(2) by (simp add: live_def)
  show inv: "mg_inv (updData g n f)" by (rule mg_inv_updData [OF assms(1) lt])
  show "length (nodes (updData g n f)) = length (nodes g)" "live (updData g n f) m = live g m"
    "getData (updData g n f) m = (if m = n then f (getData g n) else getData g m)"
    using lt by (simp_all add: getData_def node_updData)
  show "edge_val (updData g n f) p q = edge_val g p q" by (rule edge_val_updData [OF assms(1) lt])
  show "getNeighbours (updData g n f) m = getNeighbours g m" if "live g m"
    using that lt by (intro getNeighbours_cong [OF assms(1) inv]) (auto simp: node_updData)
qed

lemma getData_removeNode: "live g n \<Longrightarrow> getData (removeNode g n) m = getData g m"
  by (simp add: getData_def node_removeNode)

lemma cm_removeEdge_ok:
  "mg_inv g \<Longrightarrow> edge_val g u v = Some x \<Longrightarrow> \<exists>h. cm_removeEdge g u v = Inr h"
  using cm_removeEdge_unlink [of g u v x] by auto

interpretation mesh_store: triangle_store mg_inv live "\<lambda>g. length (nodes g)" getData edge_val
    getNeighbours new_node put_edge cm_removeEdge removeNode updData hyperEdge
    "\<lambda>g a b c. fst (createInterior g a b c)" tri_data EdgeData_default
  by unfold_locales
    ((rule edge_val_sym edge_val_live cm_removeEdge_ok cm_removeEdge_laws; assumption)
      | (simp add: live_def [of _ n for n]; fail)
      | (simp add: edge_val_irrefl getNeighbours_iff getNeighbours_distinct
        mg_inv_new_node live_new_node getData_new_node edge_val_new_node getNeighbours_new_node
        put_edge_laws mg_inv_removeNode live_removeNode getData_removeNode edge_val_removeNode
        getNeighbours_removeNode updData_laws createInterior_laws tri_data_def; fail))+

end
