(* ===== verification/Production_Laws.thy ===== *)
theory Production_Laws
  imports Productions Mesh_Store
begin

text \<open>
  What a production does to the mesh. The lemmas show that the two ways of breaking a triangle are
  compositions of the operations of \<open>triangle_store\<close>, so that the well-formedness of the mesh and
  its multiset of triangles follow from the laws of that interface: the triangle of the interior is
  replaced by the two triangles on either side of the segment from the point on the broken side to
  the opposite vertex.
\<close>

section \<open>Well-formed meshes\<close>

definition mesh_interiors :: "mesh \<Rightarrow> nat list" where
  "mesh_interiors g = filter (\<lambda>n. hyperEdge (getData g n)) (graph_nodes g)"

definition mesh_vertices :: "mesh \<Rightarrow> nat list" where
  "mesh_vertices g = filter (\<lambda>n. \<not> hyperEdge (getData g n)) (graph_nodes g)"

definition mesh_ok :: "mesh \<Rightarrow> bool" where
  "mesh_ok g \<longleftrightarrow> mg_inv g \<and>
     (\<forall>n \<in> set (mesh_interiors g). length (getNeighbours g n) = 3 \<and>
        (\<forall>v \<in> set (getNeighbours g n). \<not> hyperEdge (getData g v)))"

text \<open>The triangles, each as the list of the three vertices of an interior.\<close>

definition mesh_triangles :: "mesh \<Rightarrow> nat list multiset" where
  "mesh_triangles g = mset (map (getNeighbours g) (mesh_interiors g))"

abbreviation is_vertex :: "mesh \<Rightarrow> nat \<Rightarrow> bool" where
  "is_vertex \<equiv> mesh_store.vertex"

lemma set_graph_nodes [simp]: "set (graph_nodes g) = {n. live g n}"
  by (auto simp: graph_nodes_def live_def)

lemma distinct_graph_nodes [simp]: "distinct (graph_nodes g)"
  by (simp add: graph_nodes_def)

lemma set_mesh_interiors: "set (mesh_interiors g) = mesh_store.interiors g"
  by (auto simp: mesh_interiors_def mesh_store.interiors_def)

lemma is_vertex_iff: "is_vertex g v \<longleftrightarrow> v \<in> set (mesh_vertices g)"
  by (auto simp: mesh_vertices_def mesh_store.vertex_def)

lemma mesh_ok_iff: "mesh_ok g \<longleftrightarrow> mesh_store.tri_ok g"
proof -
  have "live g v" if "mg_inv g" "live g n" "v \<in> set (getNeighbours g n)" for n v
    using that getNeighbours_iff [OF that(1,2)] edge_val_live [of g n v] by auto
  then show ?thesis
    by (auto simp: mesh_ok_def mesh_store.tri_ok_def set_mesh_interiors mesh_store.interiors_def
        mesh_store.vertex_def)
qed

lemma mesh_triangles_eq: "mesh_triangles g = mesh_store.triangles g"
proof -
  have "mset (mesh_interiors g) = mset_set (mesh_store.interiors g)"
    unfolding set_mesh_interiors [symmetric]
    by (rule mset_set_set [symmetric]) (simp add: mesh_interiors_def)
  then show ?thesis by (simp add: mesh_triangles_def mesh_store.triangles_def)
qed

lemma mesh_interiors_count: "length (mesh_interiors g) = size (mesh_triangles g)"
  by (simp add: mesh_triangles_def)

section \<open>Edges written field by field\<close>

lemma updEdgeData_twice:
  assumes "mg_inv g" "live g src" "it < length (edges (node g src))"
  shows "updEdgeData (updEdgeData g src it f) src it h = updEdgeData g src it (\<lambda>d. h (f d))"
proof -
  have "second (edges (node g src) ! it) < length (edgesF g)"
    using entries_wfD(3) [OF mg_inv_wf [OF assms(1)] _ nth_mem [OF assms(3)]] assms(2)
    by (simp add: live_def)
  then show ?thesis by (simp add: updEdgeData_def Let_def)
qed

lemma addEdge_iterator_valid:
  assumes "mg_inv g" "live g u" "live g v" "u \<noteq> v"
  shows "snd (addEdge d g u v) < length (edges (node (fst (addEdge d g u v)) u))"
proof -
  have "edge_val (fst (addEdge d g u v)) u v \<noteq> None"
    by (simp add: edge_val_addEdge [OF assms])
  then show ?thesis
    unfolding addEdge_iterator [OF assms] by (simp add: edge_val_def split: if_splits)
qed

text \<open>Three writes through the iterator \<open>addEdge\<close> returned that together set every field.\<close>

lemma addEdge_write3:
  assumes "mg_inv g" "live g u" "live g v" "u \<noteq> v" "\<And>d. f3 (f2 (f1 d)) = x"
  shows "(let (g1, it) = addEdge EdgeData_default g u v
          in updEdgeData (updEdgeData (updEdgeData g1 u it f1) u it f2) u it f3) = put_edge g u v x"
proof -
  let ?g1 = "fst (addEdge EdgeData_default g u v)" and ?it = "snd (addEdge EdgeData_default g u v)"
  have inv: "mg_inv ?g1" "live ?g1 u"
    using mg_inv_addEdge [OF assms(1-4)] assms(2-4) by simp_all
  note it = addEdge_iterator_valid [OF assms(1-4), of EdgeData_default]
  have "updEdgeData (updEdgeData ?g1 u ?it f1) u ?it f2 = updEdgeData ?g1 u ?it (\<lambda>d. f2 (f1 d))"
    by (rule updEdgeData_twice [OF inv it])
  moreover have "updEdgeData (updEdgeData ?g1 u ?it (\<lambda>d. f2 (f1 d))) u ?it f3 =
      updEdgeData ?g1 u ?it (\<lambda>d. x)"
    using updEdgeData_twice [OF inv it, of "\<lambda>d. f2 (f1 d)" f3] assms(5) by simp
  ultimately show ?thesis
    by (simp add: put_edge_def Let_def case_prod_beta)
qed

lemma prod_addEdge_eq:
  assumes "mg_inv g" "live g u" "live g v" "u \<noteq> v"
  shows "prod_addEdge g u v b l m = put_edge g u v (EdgeData_new b l m)"
  unfolding prod_addEdge_def Let_def
  using addEdge_write3 [OF assms, of "setMiddlePoint m" "setLength l" "setBorder b"]
  by (simp add: edge_setters case_prod_beta Let_def)

lemma connectNewNode_eq:
  assumes "mg_inv g" "live g newNode" "live g (ps_vertices ps ! i)" "newNode \<noteq> ps_vertices ps ! i"
  shows "connectNewNode ps neutral b nd newNode i g = put_edge g newNode (ps_vertices ps ! i)
    (EdgeData_new (i \<noteq> neutral \<and> b)
       (coord_dist (coords nd) (coords (ps_verticesData ps ! i)) (ps_version2D ps))
       (coord_div (coord_add (coords nd) (coords (ps_verticesData ps ! i))) 2))"
proof -
  let ?m = "coord_div (coord_add (coords nd) (coords (ps_verticesData ps ! i))) 2"
  let ?l = "coord_dist (coords nd) (coords (ps_verticesData ps ! i)) (ps_version2D ps)"
  have m: "Coord ((getX (coords nd) + getX (coords (ps_verticesData ps ! i))) / 2)
      ((getY (coords nd) + getY (coords (ps_verticesData ps ! i))) / 2)
      ((getZ (coords nd) + getZ (coords (ps_verticesData ps ! i))) / 2) = ?m"
    by (simp add: coord_div_def coord_add_def)
  have b: "(if i \<noteq> neutral then b else False) = (i \<noteq> neutral \<and> b)" by simp
  show ?thesis
    unfolding connectNewNode_def Let_def m b
    using addEdge_write3 [OF assms, of "setLength ?l" "setMiddlePoint ?m" "setBorder (i \<noteq> neutral \<and> b)"]
    by (simp add: edge_setters case_prod_beta Let_def)
qed

section \<open>The state of a production on a well-formed mesh\<close>

text \<open>The three vertices from the side \<open>e\<close> on: the two ends of the side and the opposite vertex.\<close>

definition side_first :: "'a list \<Rightarrow> nat \<Rightarrow> 'a" where
  "side_first vs e = vs ! e"

definition side_second :: "'a list \<Rightarrow> nat \<Rightarrow> 'a" where
  "side_second vs e = vs ! ((e + 1) mod 3)"

definition opposite :: "'a list \<Rightarrow> nat \<Rightarrow> 'a" where
  "opposite vs e = vs ! ((e + 2) mod 3)"

lemma less_3_cases: "(e :: nat) < 3 \<longleftrightarrow> e = 0 \<or> e = 1 \<or> e = 2"
  by auto

lemma length_3_conv: "length vs = 3 \<longleftrightarrow> (\<exists>a b c. vs = [a, b, c])"
  by (auto simp: numeral_3_eq_3 length_Suc_conv)

lemma sides:
  assumes "length vs = 3" "e < 3"
  shows "set vs = {side_first vs e, side_second vs e, opposite vs e}"
    and "distinct vs \<longleftrightarrow> distinct [side_first vs e, side_second vs e, opposite vs e]"
  using assms
  by (auto simp: length_3_conv less_3_cases side_first_def side_second_def opposite_def)

text \<open>The production states the main loop builds.\<close>

definition state_of :: "mesh \<Rightarrow> nat \<Rightarrow> production_state \<Rightarrow> bool" where
  "state_of g n ps \<longleftrightarrow> mesh_ok g \<and> n \<in> set (mesh_interiors g) \<and>
     ProductionState g n (ps_version2D ps) (ps_zGetter ps) = Inr ps"

lemma get_edge_val:
  assumes "mg_inv g" "live g u" "live g v"
  shows "getEdge g u v = (if edge_val g u v = None then None else Some (u, findEdge g u v))"
    and "map_option (\<lambda>(src, it). getEdgeData g src it) (getEdge g u v) = edge_val g u v"
proof -
  have "findEdge g u v = length (edges (node g u)) \<longleftrightarrow> edge_val g u v = None"
    using assms findEdge_le [of g u v] by (auto simp: edge_val_def)
  then show "getEdge g u v = (if edge_val g u v = None then None else Some (u, findEdge g u v))"
    by (simp add: getEdge_def convertToOptionalEdge_def)
  then show "map_option (\<lambda>(src, it). getEdgeData g src it) (getEdge g u v) = edge_val g u v"
    using assms by (auto simp: edge_val_def)
qed

lemma triangle_edges:
  "getTriangleEdges g [a, b, c] = Inr [getEdge g a b, getEdge g b c, getEdge g c a]"
  by (simp add: getTriangleEdges_def upt_3 mapR_def get_at_def)

lemma ProductionState_ok:
  assumes "mesh_ok g" "n \<in> set (mesh_interiors g)"
  obtains a b c where "getNeighbours g n = [a, b, c]" "distinct [a, b, c]"
    "is_vertex g a" "is_vertex g b" "is_vertex g c"
    "ProductionState g n v z = Inr
       \<lparr>ps_interior = n, ps_vertices = [a, b, c],
        ps_verticesData = [getData g a, getData g b, getData g c],
        ps_edgesIterators = [getEdge g a b, getEdge g b c, getEdge g c a],
        ps_edgesData = [edge_val g a b, edge_val g b c, edge_val g c a],
        ps_lengths = map (\<lambda>d. case d of None \<Rightarrow> -1 | Some d \<Rightarrow> edge_length d)
                       [edge_val g a b, edge_val g b c, edge_val g c a],
        ps_brokenEdges = filter (\<lambda>i. [edge_val g a b, edge_val g b c, edge_val g c a] ! i = None) [0..<3],
        ps_version2D = v, ps_zGetter = z\<rparr>"
proof -
  have tri: "mesh_store.tri_ok g" and n: "n \<in> mesh_store.interiors g"
    using assms by (simp_all add: mesh_ok_iff set_mesh_interiors)
  note inv = mesh_store.tri_okD(1) [OF tri]
  obtain a b c where vs: "getNeighbours g n = [a, b, c]"
    using mesh_store.tri_okD(2) [OF tri n] by (auto simp: length_3_conv)
  have vx: "is_vertex g a" "is_vertex g b" "is_vertex g c"
    using mesh_store.tri_okD(3) [OF tri n] by (simp_all add: vs)
  have l: "live g a" "live g b" "live g c" using vx by (simp_all add: mesh_store.vertex_def)
  have "live g n" using n by (simp add: mesh_store.interiors_def)
  then have d: "distinct [a, b, c]" using getNeighbours_distinct [OF inv, of n] by (simp add: vs)
  have broken: "getEdge g u v = None \<longleftrightarrow> edge_val g u v = None" if "live g u" "live g v" for u v
    using get_edge_val(1) [OF inv that] by simp
  show thesis
    by (rule that [OF vs d vx])
      (simp add: ProductionState_def vs triangle_edges Let_def get_edge_val(2) [OF inv] l upt_3 broken)
qed

section \<open>Splitting a triangle\<close>

text \<open>The data of an edge the productions create between two points.\<close>

definition segment :: "bool \<Rightarrow> bool \<Rightarrow> coordinates \<Rightarrow> coordinates \<Rightarrow> edge_data" where
  "segment v2D isBorder p q = EdgeData_new isBorder (coord_dist p q v2D) (coord_div (coord_add p q) 2)"

text \<open>The abstract effect: the interior \<open>n\<close> goes, two interiors with the handles \<open>N\<close> and \<open>Suc N\<close>
  come, and the triangles change accordingly.\<close>

definition split_triangle :: "nat list multiset \<Rightarrow> nat list \<Rightarrow> nat \<Rightarrow> nat \<Rightarrow> nat list multiset" where
  "split_triangle T vs e h =
     T - {#vs#} + {#[h, opposite vs e, side_first vs e], [h, opposite vs e, side_second vs e]#}"

text \<open>A triangle with a vertex \<open>h\<close> that is not one of its own, about to be split at the side \<open>e\<close>.\<close>

definition can_split :: "mesh \<Rightarrow> nat \<Rightarrow> nat list \<Rightarrow> nat \<Rightarrow> nat \<Rightarrow> bool" where
  "can_split g n vs e h \<longleftrightarrow> mesh_store.tri_ok g \<and> n \<in> mesh_store.interiors g \<and>
     getNeighbours g n = vs \<and> e < 3 \<and> is_vertex g h \<and> h \<notin> set vs"

lemma triangle_sides:
  assumes "mesh_store.tri_ok g" "n \<in> mesh_store.interiors g" "getNeighbours g n = vs" "e < 3"
  shows "mg_inv g" "length vs = 3" "distinct vs" "is_vertex g (side_first vs e)"
    "is_vertex g (side_second vs e)" "is_vertex g (opposite vs e)"
    "distinct [side_first vs e, side_second vs e, opposite vs e]"
proof -
  show inv: "mg_inv g" and len: "length vs = 3"
    using mesh_store.tri_okD(1,2) [OF assms(1)] assms(2,3) by auto
  show d: "distinct vs"
    using getNeighbours_distinct [OF inv, of n] assms(2,3) by (simp add: mesh_store.interiors_def)
  note sd = sides [OF len assms(4)]
  show "is_vertex g (side_first vs e)" "is_vertex g (side_second vs e)" "is_vertex g (opposite vs e)"
    using mesh_store.tri_okD(3) [OF assms(1,2)] assms(3) sd(1) by auto
  show "distinct [side_first vs e, side_second vs e, opposite vs e]"
    using d unfolding sd(2) .
qed

lemma can_splitD:
  assumes "can_split g n vs e h"
  shows "mesh_store.tri_ok g" "n \<in> mesh_store.interiors g" "getNeighbours g n = vs" "e < 3"
    "is_vertex g h" "mg_inv g" "is_vertex g (side_first vs e)"
    "is_vertex g (side_second vs e)" "is_vertex g (opposite vs e)"
    "distinct [h, opposite vs e, side_first vs e]" "distinct [h, opposite vs e, side_second vs e]"
proof -
  show *: "mesh_store.tri_ok g" "n \<in> mesh_store.interiors g" "getNeighbours g n = vs" "e < 3"
    "is_vertex g h"
    using assms by (simp_all add: can_split_def)
  note sd = triangle_sides [OF *(1-4)]
  show "mg_inv g" "is_vertex g (side_first vs e)"
    "is_vertex g (side_second vs e)" "is_vertex g (opposite vs e)"
    by (rule sd)+
  show "distinct [h, opposite vs e, side_first vs e]" "distinct [h, opposite vs e, side_second vs e]"
    using sd(7) assms by (auto simp: can_split_def sides [OF sd(2) *(4)])
qed

lemma vertex_keep:
  assumes "is_vertex g v" "mesh_store.interiors g' = mesh_store.interiors g" "live g' v"
  shows "is_vertex g' v"
  using assms by (auto simp: mesh_store.vertex_def mesh_store.interiors_def)

text \<open>The sequence of operations of \<open>breakElementUsingNode\<close>.\<close>

definition split_using :: "mesh \<Rightarrow> nat \<Rightarrow> nat list \<Rightarrow> nat \<Rightarrow> nat \<Rightarrow> edge_data \<Rightarrow> mesh" where
  "split_using g n vs e h x =
     removeNode (fst (createInterior (fst (createInterior (put_edge g h (opposite vs e) x)
       h (opposite vs e) (side_first vs e))) h (opposite vs e) (side_second vs e))) n"

lemma split_using_laws:
  fixes x :: edge_data
  assumes can: "can_split g n vs e h"
  defines "g' \<equiv> split_using g n vs e h x" and "N \<equiv> length (nodes g)"
  shows "mesh_store.tri_ok g'"
    and "mesh_store.triangles g' = split_triangle (mesh_store.triangles g) vs e h"
    and "mesh_store.interiors g' = mesh_store.interiors g - {n} \<union> {N, Suc N}"
    and "length (nodes g') = N + 2"
    and "live g' m \<longleftrightarrow> live g m \<and> m \<noteq> n \<or> m = N \<or> m = Suc N"
    and "m < N \<Longrightarrow> getData g' m = getData g m"
    and "p < N \<Longrightarrow> q < N \<Longrightarrow> edge_val g' p q =
           (if p = n \<or> q = n then None
            else if same_pair h (opposite vs e) p q then Some x else edge_val g p q)"
    and "mg_inv (put_edge g h (opposite vs e) x)"
proof -
  note cs = can_splitD [OF can]
  let ?a = "side_first vs e" and ?b = "side_second vs e" and ?c = "opposite vs e"
  let ?g1 = "put_edge g h ?c x"
  let ?g2 = "fst (createInterior ?g1 h ?c ?a)"
  let ?g3 = "fst (createInterior ?g2 h ?c ?b)"
  have g': "g' = removeNode ?g3 n" by (simp add: g'_def split_using_def)
  have lv: "live g h" "live g ?c" "live g ?a" "live g ?b" "live g n" "h \<noteq> ?c"
    using cs by (simp_all add: mesh_store.vertex_def mesh_store.interiors_def)
  have lt: "h < N" "?c < N" "?a < N" "?b < N" "n < N"
    using lv unfolding N_def by (simp_all add: live_def)
  note p1 = put_edge_laws [OF cs(6) lv(1,2,6), where x = x]
  note t1 = mesh_store.put_vertex_edge [OF cs(1,5,9) lv(6), where e = x]
  note keep1 = vertex_keep [OF _ t1(3)]
  have vx1: "is_vertex ?g1 h" "is_vertex ?g1 ?c" "is_vertex ?g1 ?a" "is_vertex ?g1 ?b"
    using lv by (auto intro!: keep1 cs(5,7-9) simp: p1(3))
  note t2 = mesh_store.add_triangle [OF t1(1) vx1(1-3) cs(10)]
  have l1: "\<forall>v \<in> {h, ?c, ?a}. live ?g1 v" using lv by (simp add: p1(3))
  note p2 = createInterior_laws [OF p1(1) l1 cs(10), unfolded p1(2), folded N_def]
  have vx2: "is_vertex ?g2 v" if "is_vertex ?g1 v" "v < N" for v
    using that p2(3,4) by (simp add: mesh_store.vertex_def)
  note vx2 = vx2 [OF vx1(1) lt(1)] vx2 [OF vx1(2) lt(2)] vx2 [OF vx1(4) lt(4)]
  note t3 = mesh_store.add_triangle [OF t2(1) vx2 cs(11)]
  have l2: "\<forall>v \<in> {h, ?c, ?b}. live ?g2 v" using vx2 by (simp add: mesh_store.vertex_def)
  note p3 = createInterior_laws [OF p2(1) l2 cs(11), unfolded p2(2)]
  have int3: "mesh_store.interiors ?g3 = insert (Suc N) (insert N (mesh_store.interiors g))"
    unfolding t3(3) t2(3) t1(3) p2(2) p1(2) N_def ..
  have n3: "n \<in> mesh_store.interiors ?g3"
    unfolding int3 using cs(2) by simp
  then have ln3: "live ?g3 n"
    unfolding mesh_store.interiors_def by simp
  note t4 = mesh_store.del_interior [OF t3(1) n3]
  show "mesh_store.tri_ok g'" unfolding g' by (rule t4(1))
  show "mesh_store.interiors g' = mesh_store.interiors g - {n} \<union> {N, Suc N}"
    unfolding g' t4(3) int3 using lt(5) by auto
  show "length (nodes g') = N + 2" by (simp add: g' p3(2))
  show lvm: "live g' m \<longleftrightarrow> live g m \<and> m \<noteq> n \<or> m = N \<or> m = Suc N" for m
    using lt(5) unfolding g' live_removeNode [OF ln3] p3(3) p2(3) p1(3) by auto
  show "getData g' m = getData g m" if "m < N"
    using that p3(4) [of m] p2(4) [of m] p1(4) by (simp add: g' getData_removeNode [OF ln3])
  show "edge_val g' p q = (if p = n \<or> q = n then None
      else if same_pair h ?c p q then Some x else edge_val g p q)" if "p < N" "q < N"
    using that unfolding g' edge_val_removeNode [OF p3(1) ln3] p3(5) p2(5) p1(5) by simp
  show "mg_inv ?g1" by (rule p1(1))
  have "n \<notin> {h, ?c, ?b, ?a}"
    using mesh_store.interior_not_vertex [OF cs(2)] cs by auto
  then have nb: "getNeighbours ?g3 n = vs"
    using p3(7) [of n] p2(7) [of n] p1(6) [of n] p2(3) p1(3) lv(5) cs(3) by simp
  have "vs \<in># mesh_store.triangles g"
    using cs(2,3) mesh_store.finite_interiors [OF cs(6)] by (auto simp: mesh_store.triangles_def)
  then obtain T where "mesh_store.triangles g = add_mset vs T"
    by (auto dest: multi_member_split)
  then show "mesh_store.triangles g' = split_triangle (mesh_store.triangles g) vs e h"
    unfolding g' t4(2) t3(2) t2(2) t1(2) split_triangle_def nb by simp
qed

lemma breakElementUsingNode_eq:
  assumes can: "can_split g n (ps_vertices ps) e h" and "ps_interior ps = n"
  defines "x \<equiv> segment (ps_version2D ps) False (coords (getData g h))
      (coords (opposite (ps_verticesData ps) e))"
  shows "breakElementUsingNode g e h ps =
    (split_using g n (ps_vertices ps) e h x, [length (nodes g), Suc (length (nodes g))])"
proof -
  note cs = can_splitD [OF can]
  let ?c = "opposite (ps_vertices ps) e" and ?a = "side_first (ps_vertices ps) e"
  have lv: "live g h" "live g ?c" "live g ?a" "h \<noteq> ?c"
    using cs by (simp_all add: mesh_store.vertex_def)
  have put: "prod_addEdge g h ?c False l m = put_edge g h ?c (EdgeData_new False l m)" for l m
    by (rule prod_addEdge_eq [OF cs(6) lv(1,2,4)])
  note p1 = put_edge_laws [OF cs(6) lv(1,2,4)]
  have "length (nodes (fst (createInterior (put_edge g h ?c x) h ?c ?a))) = Suc (length (nodes g))"
    using createInterior_laws(2) [OF p1(1) _ cs(10)] lv p1(2,3) by simp
  moreover have "snd (createInterior k u v w) = length (nodes k)" for k u v w
    by (simp add: createInterior_eq Let_def)
  ultimately show ?thesis
    using p1(2) assms(2) put
    by (simp add: breakElementUsingNode_def getEdgeVertices_def getNeutralVertex_def
        opposite_def side_first_def side_second_def createInterior_ctx_eq split_using_def x_def segment_def Let_def case_prod_beta)
qed

section \<open>Splitting at a hanging node\<close>

lemma findNodeBetween_Some:
  assumes "mg_inv g" "live g u" "live g v" "findNodeBetween g u v = Some h"
  shows "edge_val g u h \<noteq> None" "edge_val g v h \<noteq> None" "live g h" "h \<noteq> u" "h \<noteq> v"
    "isXYequal (coords (getData g h)) (coord_div (coord_add (coords (getData g u)) (coords (getData g v))) 2)"
proof -
  have "h \<in> set (getNeighbours g u)" "h \<in> set (getNeighbours g v)"
    and "isXYequal (coords (getData g h)) (coord_div (coord_add (coords (getData g u)) (coords (getData g v))) 2)"
    using assms(4) by (auto simp: findNodeBetween_def Let_def find_Some_iff list_ex_iff)
  then show *: "edge_val g u h \<noteq> None" "edge_val g v h \<noteq> None"
    "isXYequal (coords (getData g h)) (coord_div (coord_add (coords (getData g u)) (coords (getData g v))) 2)"
    using getNeighbours_iff [OF assms(1)] assms(2,3) by auto
  then show "live g h" "h \<noteq> u" "h \<noteq> v"
    using edge_val_live [of g u h] edge_val_irrefl [OF assms(1)] by auto
qed

text \<open>The node found on a broken side is a vertex and not the opposite one. This is a condition on
  the geometry: it can only fail when a vertex or an interior lies within the tolerance of the
  midpoint of a side.\<close>

definition hanging_proper :: "mesh \<Rightarrow> nat list \<Rightarrow> bool" where
  "hanging_proper g vs \<longleftrightarrow>
     (\<forall>e < 3. edge_val g (side_first vs e) (side_second vs e) = None \<longrightarrow>
        (\<forall>h. findNodeBetween g (side_first vs e) (side_second vs e) = Some h \<longrightarrow>
           \<not> hyperEdge (getData g h) \<and> h \<noteq> opposite vs e))"

lemma hanging_can_split:
  assumes "mesh_store.tri_ok g" "n \<in> mesh_store.interiors g" "e < 3"
    and "hanging_proper g (getNeighbours g n)"
    and "edge_val g (side_first (getNeighbours g n) e) (side_second (getNeighbours g n) e) = None"
    and "findNodeBetween g (side_first (getNeighbours g n) e) (side_second (getNeighbours g n) e) = Some h"
  shows "can_split g n (getNeighbours g n) e h"
proof -
  note sd = triangle_sides [OF assms(1,2) refl assms(3)]
  have "live g (side_first (getNeighbours g n) e)" "live g (side_second (getNeighbours g n) e)"
    using sd by (simp_all add: mesh_store.vertex_def)
  note f = findNodeBetween_Some [OF sd(1) this assms(6)]
  have "\<not> hyperEdge (getData g h)" "h \<noteq> opposite (getNeighbours g n) e"
    using assms(3-6) unfolding hanging_proper_def by blast+
  then show ?thesis
    using f(3-5) assms(1-3)
    by (simp add: can_split_def sides(1) [OF sd(2) assms(3)] mesh_store.vertex_def)
qed

lemma breakElementWithHangingNode_Inr:
  assumes "mesh_store.tri_ok g" "n \<in> mesh_store.interiors g" "e < 3"
    and "ps_interior ps = n" "ps_vertices ps = getNeighbours g n" "hanging_proper g (ps_vertices ps)"
    and "breakElementWithHangingNode g e ps = Inr (g', pushed)"
    and "edge_val g (side_first (ps_vertices ps) e) (side_second (ps_vertices ps) e) = None"
  obtains h where
    "findNodeBetween g (side_first (ps_vertices ps) e) (side_second (ps_vertices ps) e) = Some h"
    "can_split g n (ps_vertices ps) e h"
    "g' = updData (split_using g n (ps_vertices ps) e h (segment (ps_version2D ps) False
       (coords (getData g h)) (coords (opposite (ps_verticesData ps) e)))) h (setHanging False)"
    "pushed = [length (nodes g), Suc (length (nodes g))]"
proof -
  from assms(7) obtain h where
    h: "findNodeBetween g (side_first (ps_vertices ps) e) (side_second (ps_vertices ps) e) = Some h"
    by (auto simp: breakElementWithHangingNode_def getHangingNode_def getEdgeVertices_def
        bindR_Inr_iff get_opt_def side_first_def side_second_def split: option.splits)
  have can: "can_split g n (ps_vertices ps) e h"
    using hanging_can_split [OF assms(1-3)] assms(5,6,8) h by simp
  show thesis
    using assms(7) h breakElementUsingNode_eq [OF can assms(4)]
    by (intro that [OF h can])
      (simp_all add: breakElementWithHangingNode_def getHangingNode_def getEdgeVertices_def
        side_first_def side_second_def)
qed

section \<open>Splitting at a new node\<close>

text \<open>The edges from the new node to the three vertices.\<close>

definition spoke :: "production_state \<Rightarrow> nat \<Rightarrow> bool \<Rightarrow> node_data \<Rightarrow> nat \<Rightarrow> edge_data" where
  "spoke ps neutral b nd i =
     segment (ps_version2D ps) (i \<noteq> neutral \<and> b) (coords nd) (coords (ps_verticesData ps ! i))"

lemma connect_step:
  fixes neutral :: nat and b :: bool and nd :: node_data
  assumes "mesh_store.tri_ok g" "is_vertex g h" "is_vertex g (ps_vertices ps ! i)"
    "h \<noteq> ps_vertices ps ! i"
  defines "g' \<equiv> connectNewNode ps neutral b nd h i g"
  shows "mesh_store.tri_ok g'" "mesh_store.triangles g' = mesh_store.triangles g"
    "mesh_store.interiors g' = mesh_store.interiors g" "length (nodes g') = length (nodes g)"
    "live g' m = live g m" "getData g' m = getData g m"
    "edge_val g' p q = (if same_pair h (ps_vertices ps ! i) p q then Some (spoke ps neutral b nd i)
       else edge_val g p q)"
    "is_vertex g' = is_vertex g"
    "n \<in> mesh_store.interiors g \<Longrightarrow> getNeighbours g' n = getNeighbours g n"
proof -
  note inv = mesh_store.tri_okD(1) [OF assms(1)]
  have l: "live g h" "live g (ps_vertices ps ! i)"
    using assms(2,3) by (simp_all add: mesh_store.vertex_def)
  have g': "g' = put_edge g h (ps_vertices ps ! i) (spoke ps neutral b nd i)"
    unfolding g'_def spoke_def segment_def by (rule connectNewNode_eq [OF inv l assms(4)])
  note p = put_edge_laws [OF inv l assms(4)]
  show "mesh_store.tri_ok g'" "mesh_store.triangles g' = mesh_store.triangles g"
    "mesh_store.interiors g' = mesh_store.interiors g"
    unfolding g' by (rule mesh_store.put_vertex_edge [OF assms(1-4)])+
  show "length (nodes g') = length (nodes g)" "live g' m = live g m" "getData g' m = getData g m"
    "edge_val g' p q = (if same_pair h (ps_vertices ps ! i) p q then Some (spoke ps neutral b nd i)
       else edge_val g p q)"
    unfolding g' by (rule p)+
  show "is_vertex g' = is_vertex g"
    unfolding g' by (simp add: mesh_store.vertex_def p(3,4) fun_eq_iff)
  show "getNeighbours g' n = getNeighbours g n" if "n \<in> mesh_store.interiors g"
    using that assms(2,3) mesh_store.interior_not_vertex [OF that] unfolding g'
    by (intro p(6)) (auto simp: mesh_store.interiors_def)
qed

text \<open>The new node before it is connected.\<close>

lemma new_vertex_laws:
  assumes "mesh_store.tri_ok g" "is_vertex g a" "is_vertex g b" "edge_val g a b = Some ed"
    and "cm_removeEdge g a b = Inr g1" "\<not> hyperEdge nd"
  defines "N \<equiv> length (nodes g)" and "g2 \<equiv> new_node g1 nd"
  shows "mesh_store.tri_ok g2" "mesh_store.triangles g2 = mesh_store.triangles g"
    "mesh_store.interiors g2 = mesh_store.interiors g" "length (nodes g1) = N"
    "length (nodes g2) = Suc N" "live g2 m \<longleftrightarrow> live g m \<or> m = N"
    "m \<le> N \<Longrightarrow> getData g2 m = (if m = N then nd else getData g m)"
    "edge_val g2 p q = (if same_pair a b p q then None else edge_val g p q)"
    "is_vertex g2 m \<longleftrightarrow> is_vertex g m \<or> m = N"
    "n \<in> mesh_store.interiors g \<Longrightarrow> getNeighbours g2 n = getNeighbours g n"
proof -
  note inv = mesh_store.tri_okD(1) [OF assms(1)]
  note d = cm_removeEdge_laws [OF inv assms(4,5)]
  note t1 = mesh_store.del_vertex_edge [OF assms(1-5)]
  note t2 = mesh_store.add_vertex [OF t1(1) assms(6)]
  show "mesh_store.tri_ok g2" "mesh_store.triangles g2 = mesh_store.triangles g"
    "mesh_store.interiors g2 = mesh_store.interiors g"
    using t1 t2 unfolding g2_def by simp_all
  show len: "length (nodes g1) = N" and "length (nodes g2) = Suc N"
    by (simp_all add: d(2) N_def g2_def)
  show lv: "live g2 m \<longleftrightarrow> live g m \<or> m = N" for m
    by (simp add: g2_def live_new_node d(3) len)
  show dt: "getData g2 m = (if m = N then nd else getData g m)" if "m \<le> N" for m
    using that by (simp add: g2_def getData_new_node len d(4))
  show "edge_val g2 p q = (if same_pair a b p q then None else edge_val g p q)"
    unfolding g2_def edge_val_new_node [OF d(1)] by (rule d(5))
  show "is_vertex g2 m \<longleftrightarrow> is_vertex g m \<or> m = N"
  proof (cases "m \<le> N")
    case True
    have "\<not> live g N" by (simp add: N_def live_def)
    then show ?thesis
      using True assms(6) by (auto simp: mesh_store.vertex_def lv dt)
  next
    case False
    then have "\<not> live g m" by (simp add: N_def live_def)
    then show ?thesis
      using False by (simp add: mesh_store.vertex_def lv)
  qed
  show "getNeighbours g2 n = getNeighbours g n" if n: "n \<in> mesh_store.interiors g"
  proof -
    have "live g n" "n \<noteq> a" "n \<noteq> b"
      using n assms(2,3) mesh_store.interior_not_vertex [OF n] by (auto simp: mesh_store.interiors_def)
    then show ?thesis
      unfolding g2_def using getNeighbours_new_node(2) [OF d(1), of n] d(3,6) by simp
  qed
qed

section \<open>Reading the state of a production\<close>

lemma state_ofD:
  assumes "state_of g n ps"
  defines "vs \<equiv> getNeighbours g n"
  shows "mesh_store.tri_ok g" "n \<in> mesh_store.interiors g" "ps_interior ps = n" "ps_vertices ps = vs"
    "i < 3 \<Longrightarrow> ps_verticesData ps ! i = getData g (vs ! i)"
    "e < 3 \<Longrightarrow> ps_edgesData ps ! e = edge_val g (side_first vs e) (side_second vs e)"
    "e < 3 \<Longrightarrow> ps_edgesIterators ps ! e = getEdge g (side_first vs e) (side_second vs e)"
    "e < 3 \<Longrightarrow> ps_lengths ps ! e =
       (case edge_val g (side_first vs e) (side_second vs e) of None \<Rightarrow> -1 | Some d \<Rightarrow> edge_length d)"
    "ps_brokenEdges ps = filter (\<lambda>e. edge_val g (side_first vs e) (side_second vs e) = None) [0..<3]"
    "countBrokenEdges (ps_edgesIterators ps) = length (ps_brokenEdges ps)"
    "length (ps_lengths ps) = 3"
proof -
  have ok: "mesh_ok g" "n \<in> set (mesh_interiors g)"
    and ps: "ProductionState g n (ps_version2D ps) (ps_zGetter ps) = Inr ps"
    using assms(1) by (simp_all add: state_of_def)
  then show tri: "mesh_store.tri_ok g" "n \<in> mesh_store.interiors g"
    by (simp_all add: mesh_ok_iff set_mesh_interiors)
  obtain a b c where abc: "getNeighbours g n = [a, b, c]"
    "is_vertex g a" "is_vertex g b" "is_vertex g c"
    and eq: "ps = \<lparr>ps_interior = n, ps_vertices = [a, b, c],
        ps_verticesData = [getData g a, getData g b, getData g c],
        ps_edgesIterators = [getEdge g a b, getEdge g b c, getEdge g c a],
        ps_edgesData = [edge_val g a b, edge_val g b c, edge_val g c a],
        ps_lengths = map (\<lambda>d. case d of None \<Rightarrow> -1 | Some d \<Rightarrow> edge_length d)
                       [edge_val g a b, edge_val g b c, edge_val g c a],
        ps_brokenEdges = filter (\<lambda>i. [edge_val g a b, edge_val g b c, edge_val g c a] ! i = None) [0..<3],
        ps_version2D = ps_version2D ps, ps_zGetter = ps_zGetter ps\<rparr>"
    by (rule ProductionState_ok [OF ok, of "ps_version2D ps" "ps_zGetter ps"]) (use ps in simp)
  have l: "live g a" "live g b" "live g c" using abc by (simp_all add: mesh_store.vertex_def)
  have br: "getEdge g u v = None \<longleftrightarrow> edge_val g u v = None" if "live g u" "live g v" for u v
    using get_edge_val(1) [OF mesh_store.tri_okD(1) [OF tri(1)] that] by simp
  show "ps_interior ps = n" "ps_vertices ps = vs" "length (ps_lengths ps) = 3"
    unfolding vs_def abc(1) by (subst eq, simp)+
  show "i < 3 \<Longrightarrow> ps_verticesData ps ! i = getData g (vs ! i)"
    unfolding vs_def abc(1) by (subst eq) (auto simp: less_3_cases)
  show "e < 3 \<Longrightarrow> ps_edgesData ps ! e = edge_val g (side_first vs e) (side_second vs e)"
    "e < 3 \<Longrightarrow> ps_edgesIterators ps ! e = getEdge g (side_first vs e) (side_second vs e)"
    "e < 3 \<Longrightarrow> ps_lengths ps ! e =
       (case edge_val g (side_first vs e) (side_second vs e) of None \<Rightarrow> -1 | Some d \<Rightarrow> edge_length d)"
    unfolding vs_def abc(1) by (subst eq, auto simp: less_3_cases side_first_def side_second_def)+
  show "ps_brokenEdges ps = filter (\<lambda>e. edge_val g (side_first vs e) (side_second vs e) = None) [0..<3]"
    unfolding vs_def abc(1) by (subst eq) (simp add: upt_3 side_first_def side_second_def)
  show "countBrokenEdges (ps_edgesIterators ps) = length (ps_brokenEdges ps)"
    by (subst eq, subst (2) eq) (simp add: countBrokenEdges_def upt_3 br l)
qed

lemma brokenEdges_iff:
  assumes "state_of g n ps"
  shows "e \<in> set (ps_brokenEdges ps) \<longleftrightarrow>
    e < 3 \<and> edge_val g (side_first (getNeighbours g n) e) (side_second (getNeighbours g n) e) = None"
  by (auto simp: state_ofD(9) [OF assms])

section \<open>The new node\<close>

text \<open>The data of the node production 1, 3 or 5 puts on the side \<open>e\<close>, given the height.\<close>

definition midpoint_node :: "mesh \<Rightarrow> nat list \<Rightarrow> nat \<Rightarrow> edge_data \<Rightarrow> real \<Rightarrow> node_data" where
  "midpoint_node g vs e ed z =
     (let a = coords (getData g (side_first vs e)); b = coords (getData g (side_second vs e))
      in NodeData_vertex False (Coord ((getX a + getX b) / 2) ((getY a + getY b) / 2) z)
           (\<not> border ed))"

text \<open>The edges after the old side is gone and the three new ones are there.\<close>

definition unlink_pair :: "'a \<Rightarrow> 'a \<Rightarrow> ('a \<Rightarrow> 'a \<Rightarrow> 'b option) \<Rightarrow> 'a \<Rightarrow> 'a \<Rightarrow> 'b option" where
  "unlink_pair a b E p q = (if same_pair a b p q then None else E p q)"

definition connect3 ::
  "(nat \<Rightarrow> 'b) \<Rightarrow> 'a \<Rightarrow> 'a list \<Rightarrow> ('a \<Rightarrow> 'a \<Rightarrow> 'b option) \<Rightarrow> 'a \<Rightarrow> 'a \<Rightarrow> 'b option" where
  "connect3 x h vs E p q =
     (if same_pair h (vs ! 2) p q then Some (x 2)
      else if same_pair h (vs ! 1) p q then Some (x 1)
      else if same_pair h (vs ! 0) p q then Some (x 0) else E p q)"

lemma connect3_hit:
  assumes "length vs = 3" "distinct vs" "h \<notin> set vs" "k < 3" "same_pair h (vs ! k) p q"
  shows "connect3 x h vs E p q = Some (x k)"
  using assms by (auto simp: connect3_def same_pair_def length_3_conv less_3_cases)

lemma createNodeOnEdge_Inr:
  assumes st: "state_of g n ps" and e: "e < 3"
    and res: "createNodeOnEdge g e ps = Inr (g', h, pushed)"
  defines "vs \<equiv> getNeighbours g n" and "N \<equiv> length (nodes g)"
  obtains ed z where
    "edge_val g (side_first vs e) (side_second vs e) = Some ed"
    "h = N" "pushed = [N]" "length (nodes g') = Suc N" "can_split g' n vs e N"
    "mesh_store.triangles g' = mesh_store.triangles g"
    "mesh_store.interiors g' = mesh_store.interiors g"
    "\<And>m. live g' m \<longleftrightarrow> live g m \<or> m = N"
    "\<And>m. m \<le> N \<Longrightarrow> getData g' m = (if m = N then midpoint_node g vs e ed z else getData g m)"
    "\<And>p q. edge_val g' p q = connect3 (spoke ps (getNeutralVertex e) (border ed) (midpoint_node g vs e ed z))
       N vs (unlink_pair (side_first vs e) (side_second vs e) (edge_val g)) p q"
    "ps_zGetter ps (getX (coords (midpoint_node g vs e ed z))) (getY (coords (midpoint_node g vs e ed z))) = Inr z"
proof -
  note sd = state_ofD [OF st, folded vs_def]
  have vs: "getNeighbours g n = vs" by (simp add: vs_def)
  note ts = triangle_sides [OF sd(1,2) vs e]
  let ?a = "side_first vs e" and ?b = "side_second vs e"
  have e': "Suc e mod 3 < 3" by simp
  have dat: "ps_verticesData ps ! e = getData g ?a" "ps_verticesData ps ! (Suc e mod 3) = getData g ?b"
    using sd(5) [OF e] sd(5) [OF e'] by (simp_all add: side_first_def side_second_def)
  from res obtain ed g1 z where
    ed: "edge_val g ?a ?b = Some ed" and g1: "cm_removeEdge g ?a ?b = Inr g1"
    and z: "ps_zGetter ps ((getX (coords (getData g ?a)) + getX (coords (getData g ?b))) / 2)
              ((getY (coords (getData g ?a)) + getY (coords (getData g ?b))) / 2) = Inr z"
    and g': "g' = fold (connectNewNode ps (getNeutralVertex e) (border ed)
                (midpoint_node g vs e ed z) (length (nodes g1))) [0..<3]
              (new_node g1 (midpoint_node g vs e ed z))"
    and hp: "h = length (nodes g1)" "pushed = [length (nodes g1)]"
    by (auto simp: createNodeOnEdge_def Let_def bindR_Inr_iff get_opt_def sd(6) [OF e]
        getEdgeVertices_def sd(4) dat getNewPointCoords_def mapR_def midpoint_node_def
        side_first_def side_second_def new_node_def case_prod_beta split: option.splits)
  let ?nd = "midpoint_node g vs e ed z" and ?neu = "getNeutralVertex e"
  have "\<not> hyperEdge ?nd" by (simp add: midpoint_node_def Let_def)
  note v = new_vertex_laws [OF sd(1) ts(4,5) ed g1 this, folded N_def]
  let ?g2 = "new_node g1 ?nd"
  have vx: "is_vertex ?g2 (vs ! i)" "N \<noteq> vs ! i" "is_vertex ?g2 N" if "i < 3" for i
  proof -
    have "is_vertex g (vs ! i)"
      using mesh_store.tri_okD(3) [OF sd(1,2)] ts(2) that by (simp add: vs_def)
    then show "is_vertex ?g2 (vs ! i)" "is_vertex ?g2 N"
      by (simp_all only: v(9) simp_thms)
    show "N \<noteq> vs ! i"
      using \<open>is_vertex g (vs ! i)\<close> by (auto simp: mesh_store.vertex_def live_def N_def)
  qed
  let ?c = "connectNewNode ps ?neu (border ed) ?nd N"
  have vi: "ps_vertices ps ! i = vs ! i" for i by (simp add: sd(4))
  have lt: "(0::nat) < 3" "(1::nat) < 3" "(2::nat) < 3" by simp_all
  note step = connect_step [where h = N and ps = ps and neutral = ?neu and b = "border ed" and nd = ?nd,
      unfolded vi]
  note s0 = step [OF v(1) vx(3) [OF lt(1)] vx(1) [OF lt(1)] vx(2) [OF lt(1)]]
  note s1 = step [OF s0(1), unfolded s0(8), OF vx(3) [OF lt(2)] vx(1) [OF lt(2)] vx(2) [OF lt(2)]]
  note s2 = step [OF s1(1), unfolded s1(8) s0(8), OF vx(3) [OF lt(3)] vx(1) [OF lt(3)] vx(2) [OF lt(3)]]
  have g'_eq: "g' = ?c 2 (?c 1 (?c 0 ?g2))" by (simp add: g' v(4) upt_3)
  show thesis
  proof (rule that [OF ed])
    show "h = N" "pushed = [N]" using hp v(4) by simp_all
    show "length (nodes g') = Suc N" unfolding g'_eq s2(4) s1(4) s0(4) by (rule v(5))
    show "mesh_store.triangles g' = mesh_store.triangles g"
      "mesh_store.interiors g' = mesh_store.interiors g"
      unfolding g'_eq using s2(2,3) s1(2,3) s0(2,3) v(2,3) by simp_all
    show "live g' m \<longleftrightarrow> live g m \<or> m = N" for m
      unfolding g'_eq s2(5) s1(5) s0(5) by (rule v(6))
    show "getData g' m = (if m = N then midpoint_node g vs e ed z else getData g m)" if "m \<le> N" for m
      unfolding g'_eq s2(6) s1(6) s0(6) using that by (rule v(7))
    show "can_split g' n vs e N"
      unfolding can_split_def
    proof (intro conjI)
      show "mesh_store.tri_ok g'" "n \<in> mesh_store.interiors g'" "is_vertex g' N" "e < 3"
        using s2(1,3,8) s1(3,8) s0(3,8) v(3,9) sd(2) e unfolding g'_eq by simp_all
      show "getNeighbours g' n = vs"
        using s2(3,9) s1(3,9) s0(3,9) v(3,10) sd(2) unfolding g'_eq by (simp add: vs_def)
      show "N \<notin> set vs" using vx(2) ts(2) by (auto simp: in_set_conv_nth)
    qed
    show "edge_val g' p q = connect3 (spoke ps ?neu (border ed) ?nd) N vs
        (unlink_pair ?a ?b (edge_val g)) p q" for p q
      unfolding g'_eq s2(7) s1(7) s0(7) v(8) connect3_def unlink_pair_def ..
    show "ps_zGetter ps (getX (coords ?nd)) (getY (coords ?nd)) = Inr z"
      using z by (simp add: midpoint_node_def Let_def)
  qed
qed

section \<open>The effect of a production\<close>

text \<open>The mesh \<open>g'\<close> comes from \<open>g\<close> by splitting the interior \<open>n\<close> at its side \<open>e\<close> with the node \<open>h\<close>:
  it is well formed, the triangle of \<open>n\<close> is replaced by the two halves, and the old vertices are
  all still there, with their coordinates.\<close>

definition split_at :: "mesh \<Rightarrow> nat \<Rightarrow> nat \<Rightarrow> nat \<Rightarrow> mesh \<Rightarrow> bool" where
  "split_at g n e h g' \<longleftrightarrow> e < 3 \<and> mesh_ok g' \<and>
     mesh_triangles g' = split_triangle (mesh_triangles g) (getNeighbours g n) e h \<and>
     h \<notin> set (getNeighbours g n) \<and> set (mesh_vertices g') = insert h (set (mesh_vertices g)) \<and>
     (\<forall>v \<in> set (mesh_vertices g). coords (getData g' v) = coords (getData g v))"

lemma set_mesh_vertices: "set (mesh_vertices g) = {v. is_vertex g v}"
  using is_vertex_iff by auto

lemma distinct_mesh_vertices: "distinct (mesh_vertices g)"
  by (simp add: mesh_vertices_def)

lemma split_using_vertices:
  assumes can: "can_split g n vs e h"
  shows "is_vertex (split_using g n vs e h x) v \<longleftrightarrow> is_vertex g v"
proof -
  note l = split_using_laws [OF can, where x = x]
  have n: "hyperEdge (getData g n)" "n < length (nodes g)"
    using can_splitD(2) [OF can] by (simp_all add: mesh_store.interiors_def live_def)
  show ?thesis
  proof (cases "v < length (nodes g)")
    case True
    then show ?thesis using l(5,6) n by (auto simp: mesh_store.vertex_def)
  next
    case False
    have "v \<in> mesh_store.interiors (split_using g n vs e h x)"
      if "v = length (nodes g) \<or> v = Suc (length (nodes g))"
      using l(3) that by auto
    then show ?thesis
      using False l(5) [of v] mesh_store.interior_not_vertex
      by (auto simp: mesh_store.vertex_def live_def)
  qed
qed

lemma hanging_split_at:
  assumes st: "state_of g n ps" and e: "e < 3" and proper: "hanging_proper g (getNeighbours g n)"
    and broken: "edge_val g (side_first (getNeighbours g n) e) (side_second (getNeighbours g n) e) = None"
    and res: "breakElementWithHangingNode g e ps = Inr (g', pushed)"
  obtains h where "split_at g n e h g'" "h \<in> set (mesh_vertices g)"
    "findNodeBetween g (side_first (getNeighbours g n) e) (side_second (getNeighbours g n) e) = Some h"
    "pushed = [length (nodes g), Suc (length (nodes g))]"
    "set (mesh_interiors g') = set (mesh_interiors g) - {n} \<union> set pushed"
    "\<And>v. is_vertex g v \<Longrightarrow> getData g' v = (if v = h then setHanging False (getData g h) else getData g v)"
    "\<And>p q. is_vertex g p \<Longrightarrow> is_vertex g q \<Longrightarrow> edge_val g' p q =
       (if same_pair h (opposite (getNeighbours g n) e) p q
        then Some (segment (ps_version2D ps) False (coords (getData g h))
               (coords (getData g (opposite (getNeighbours g n) e))))
        else edge_val g p q)"
proof -
  note sd = state_ofD [OF st]
  let ?x = "\<lambda>h. segment (ps_version2D ps) False (coords (getData g h))
               (coords (getData g (opposite (getNeighbours g n) e)))"
  have od: "opposite (ps_verticesData ps) e = getData g (opposite (getNeighbours g n) e)"
    using sd(5) [of "(e + 2) mod 3"] by (simp add: opposite_def)
  obtain h where f: "findNodeBetween g (side_first (getNeighbours g n) e)
      (side_second (getNeighbours g n) e) = Some h"
    and can: "can_split g n (getNeighbours g n) e h"
    and g': "g' = updData (split_using g n (getNeighbours g n) e h (?x h)) h (setHanging False)"
    and pu: "pushed = [length (nodes g), Suc (length (nodes g))]"
    using breakElementWithHangingNode_Inr [OF sd(1,2) e sd(3) sd(4) _ res] proper broken sd(4) od by auto
  let ?g1 = "split_using g n (getNeighbours g n) e h (?x h)"
  note cs = can_splitD [OF can] and l = split_using_laws [OF can, where x = "?x h"]
  have lt: "v < length (nodes g)" if "is_vertex g v" for v
    using that by (simp add: mesh_store.vertex_def live_def)
  have "is_vertex ?g1 h" using split_using_vertices [OF can] cs(5) by blast
  then have h1: "live ?g1 h" by (simp add: mesh_store.vertex_def)
  note u = updData_laws [OF mesh_store.tri_okD(1) [OF l(1)] h1, where f = "setHanging False"]
  note t = mesh_store.upd_vertex_data [OF l(1) h1, where f = "setHanging False"]
  have vx: "is_vertex g' v \<longleftrightarrow> is_vertex g v" for v
    using split_using_vertices [OF can, of "?x h" v] unfolding g'
    by (cases "v = h") (simp_all add: mesh_store.vertex_def u(3,4))
  have "split_at g n e h g'"
    unfolding split_at_def
  proof (intro conjI ballI)
    show "mesh_ok g'" unfolding mesh_ok_iff g' by (rule t(1)) simp
    show "mesh_triangles g' = split_triangle (mesh_triangles g) (getNeighbours g n) e h"
      unfolding mesh_triangles_eq l(2) [symmetric] g' by (rule t(2)) simp
    show "h \<notin> set (getNeighbours g n)" using can by (simp add: can_split_def)
    show "set (mesh_vertices g') = insert h (set (mesh_vertices g))"
      using cs(5) by (auto simp: set_mesh_vertices vx)
    show "coords (getData g' v) = coords (getData g v)" if "v \<in> set (mesh_vertices g)" for v
    proof -
      have v: "is_vertex g v" using that by (simp add: is_vertex_iff)
      show ?thesis using l(6) [OF lt [OF v]] by (auto simp: g' u(4))
    qed
  qed (rule e)
  moreover have "set (mesh_interiors g') = set (mesh_interiors g) - {n} \<union> set pushed"
    using t(3) l(3) unfolding set_mesh_interiors g' pu by simp
  moreover have "getData g' v = (if v = h then setHanging False (getData g h) else getData g v)"
    if "is_vertex g v" for v
    using l(6) [OF lt [OF that]] l(6) [OF lt [OF cs(5)]] by (simp add: g' u(4))
  moreover have "edge_val g' p q = (if same_pair h (opposite (getNeighbours g n) e) p q
      then Some (?x h) else edge_val g p q)" if "is_vertex g p" "is_vertex g q" for p q
    using l(7) [OF lt [OF that(1)] lt [OF that(2)]] that mesh_store.interior_not_vertex [OF cs(2)]
    by (auto simp: g' u(5))
  ultimately show thesis
    using cs(5) f pu by (intro that) (auto simp: is_vertex_iff)
qed

lemma new_node_split_at:
  assumes st: "state_of g n ps" and e: "e < 3"
    and res: "breakElementWithoutHangingNode g e ps = Inr (g', pushed)"
  defines "vs \<equiv> getNeighbours g n" and "N \<equiv> length (nodes g)"
  obtains ed z where "split_at g n e N g'" "N \<notin> set (mesh_vertices g)"
    "edge_val g (side_first vs e) (side_second vs e) = Some ed"
    "getData g' N = midpoint_node g vs e ed z" "pushed = [N, Suc N, Suc (Suc N)]"
    "set (mesh_interiors g') = set (mesh_interiors g) - {n} \<union> {Suc N, Suc (Suc N)}"
    "\<And>v. v < N \<Longrightarrow> getData g' v = getData g v"
    "\<And>p q. p \<le> N \<Longrightarrow> q \<le> N \<Longrightarrow> p \<noteq> n \<Longrightarrow> q \<noteq> n \<Longrightarrow> edge_val g' p q =
       connect3 (spoke ps (getNeutralVertex e) (border ed) (midpoint_node g vs e ed z))
         N vs (unlink_pair (side_first vs e) (side_second vs e) (edge_val g)) p q"
    "ps_zGetter ps (getX (coords (midpoint_node g vs e ed z))) (getY (coords (midpoint_node g vs e ed z))) = Inr z"
proof -
  note sd = state_ofD [OF st, folded vs_def]
  from res obtain g1 h pushed1 where c: "createNodeOnEdge g e ps = Inr (g1, h, pushed1)"
    and b: "breakElementUsingNode g1 e h ps = (g', drop (length pushed1) pushed)"
    and pu: "pushed = pushed1 @ drop (length pushed1) pushed"
    by (auto simp: breakElementWithoutHangingNode_def bindR_Inr_iff case_prod_beta Let_def)
  from c show thesis
  proof (rule createNodeOnEdge_Inr [OF st e, folded vs_def N_def], goal_cases)
    case (1 ed z)
    note k = 1
    have can: "can_split g1 n (ps_vertices ps) e h" using k(2,5) by (simp add: sd(4))
    let ?sp = "spoke ps (getNeutralVertex e) (border ed) (midpoint_node g vs e ed z)"
    define x where "x = segment (ps_version2D ps) False (coords (getData g1 h))
      (coords (opposite (ps_verticesData ps) e))"
    have bx: "breakElementUsingNode g1 e h ps =
        (split_using g1 n (ps_vertices ps) e h x, [length (nodes g1), Suc (length (nodes g1))])"
      unfolding x_def by (rule breakElementUsingNode_eq [OF can sd(3)])
    have x: "x = ?sp (getNeutralVertex e)"
      using k(2) k(9) [of N] by (simp add: x_def spoke_def opposite_def getNeutralVertex_def)
    have can: "can_split g1 n vs e N" using k(5) .
    have g': "g' = split_using g1 n vs e N x" and pu': "pushed = [N, Suc N, Suc (Suc N)]"
      using b bx pu k(2-4) sd(4) by auto
    note l = split_using_laws [OF can, where x = x, folded g']
    have vx1: "is_vertex g1 v \<longleftrightarrow> is_vertex g v \<or> v = N" for v
    proof (cases "v < N")
      case True
      then show ?thesis by (simp add: mesh_store.vertex_def k(8,9))
    next
      case False
      then show ?thesis
        using k(8) [of v] can_splitD(5) [OF can] by (auto simp: mesh_store.vertex_def live_def N_def)
    qed
    have lt: "v < N" if "is_vertex g v" for v
      using that by (simp add: mesh_store.vertex_def live_def N_def)
    show thesis
    proof (rule that [OF _ _ k(1) _ pu'])
      show "split_at g n e N g'"
        unfolding split_at_def vs_def [symmetric]
      proof (intro conjI ballI)
        show "mesh_ok g'" unfolding mesh_ok_iff by (rule l(1))
        show "mesh_triangles g' = split_triangle (mesh_triangles g) vs e N"
          using l(2) k(6) by (simp add: mesh_triangles_eq)
        show "N \<notin> set vs" using can by (simp add: can_split_def)
        show "set (mesh_vertices g') = insert N (set (mesh_vertices g))"
          using split_using_vertices [OF can, of x] vx1 by (auto simp: set_mesh_vertices g')
        show "coords (getData g' v) = coords (getData g v)" if "v \<in> set (mesh_vertices g)" for v
          using lt [of v] l(6) [of v] k(4) k(9) [of v] that by (simp add: is_vertex_iff)
      qed (rule e)
      show "N \<notin> set (mesh_vertices g)" using lt [of N] is_vertex_iff by auto
      show "getData g' N = midpoint_node g vs e ed z" using l(6) [of N] k(4,9) by simp
      show "set (mesh_interiors g') = set (mesh_interiors g) - {n} \<union> {Suc N, Suc (Suc N)}"
        using l(3) k(4,7) by (simp add: set_mesh_interiors)
      show "getData g' v = getData g v" if "v < N" for v using l(6) [of v] k(4) k(9) [of v] that by simp
      show "edge_val g' p q = connect3 ?sp N vs (unlink_pair (side_first vs e) (side_second vs e) (edge_val g)) p q"
        if "p \<le> N" "q \<le> N" "p \<noteq> n" "q \<noteq> n" for p q
      proof -
        have "getNeighbours g n = vs" by (simp add: vs_def)
        note ts = triangle_sides [OF sd(1,2) this e]
        have "connect3 ?sp N vs E p q = Some x" if "same_pair N (opposite vs e) p q" for E
          unfolding x
          using connect3_hit [of vs N "getNeutralVertex e" p q ?sp] that ts can
          by (simp add: opposite_def getNeutralVertex_def can_split_def)
        then show ?thesis
          using l(7) [of p q] that k(4) k(10) [of p q] by auto
      qed
      show "ps_zGetter ps (getX (coords (midpoint_node g vs e ed z)))
          (getY (coords (midpoint_node g vs e ed z))) = Inr z"
        by (rule k(11))
    qed
  qed
qed

end
