(* ===== verification/Production_Progress.thy ===== *)
theory Production_Progress
  imports Production_Effects
begin

text \<open>
  When the productions apply. A production that does not apply changes nothing; at most one of the
  six applies to a triangle, so the order in which the main loop tries them does not matter; none of
  them fails as long as every broken side has its hanging node and the height function is defined;
  and a triangle with two or three broken sides is always split.
\<close>

section \<open>A production that does not apply\<close>

lemma production_False:
  assumes "P \<in> set productions" "P g ps = Inr (g', pushed, False)"
  shows "g' = g \<and> pushed = []"
  using assms
  by (auto simp: productions_def execute_defs Let_def bindR_Inr_iff applied_Inr not_applied_Inr
      split: if_splits option.splits)

section \<open>Breaking a side succeeds\<close>

definition hanging_found :: "mesh \<Rightarrow> nat list \<Rightarrow> bool" where
  "hanging_found g vs \<longleftrightarrow> (\<forall>e < 3. edge_val g (side_first vs e) (side_second vs e) = None \<longrightarrow>
     findNodeBetween g (side_first vs e) (side_second vs e) \<noteq> None)"

definition heights_total :: "(real \<Rightarrow> real \<Rightarrow> real res) \<Rightarrow> bool" where
  "heights_total z \<longleftrightarrow> (\<forall>x y. \<exists>h. z x y = Inr h)"

lemma hanging_break_returns:
  assumes "state_of g n ps" "hanging_found g (getNeighbours g n)" "e \<in> set (ps_brokenEdges ps)"
  shows "\<exists>g' pushed. breakElementWithHangingNode g e ps = Inr (g', pushed)"
proof -
  obtain h where "findNodeBetween g (side_first (getNeighbours g n) e) (side_second (getNeighbours g n) e) = Some h"
    using assms(2,3) brokenEdges_iff [OF assms(1)] by (auto simp: hanging_found_def)
  then show ?thesis
    by (simp add: breakElementWithHangingNode_def getHangingNode_def getEdgeVertices_def get_opt_def
        state_ofD(4) [OF assms(1)] side_first_def side_second_def case_prod_beta)
qed

lemma new_node_break_returns:
  assumes st: "state_of g n ps" and "heights_total (ps_zGetter ps)" "e < 3" "e \<notin> set (ps_brokenEdges ps)"
  shows "\<exists>g' pushed. breakElementWithoutHangingNode g e ps = Inr (g', pushed)"
proof -
  note sd = state_ofD [OF st]
  obtain d where d: "edge_val g (side_first (getNeighbours g n) e) (side_second (getNeighbours g n) e) = Some d"
    using assms(3,4) brokenEdges_iff [OF st] by auto
  obtain g1 where "cm_removeEdge g (side_first (getNeighbours g n) e) (side_second (getNeighbours g n) e) = Inr g1"
    using cm_removeEdge_ok [OF mesh_store.tri_okD(1) [OF sd(1)] d] by blast
  moreover have "\<exists>c. getNewPointCoords a b (ps_zGetter ps) = Inr c" for a b
    using assms(2) unfolding getNewPointCoords_def heights_total_def by (metis mapR_simps(2))
  then obtain c where "getNewPointCoords (coords (ps_verticesData ps ! e))
      (coords (ps_verticesData ps ! ((e + 1) mod 3))) (ps_zGetter ps) = Inr c" by blast
  ultimately show ?thesis
    using sd(6) [OF assms(3)] d
    by (simp add: breakElementWithoutHangingNode_def createNodeOnEdge_def getEdgeVertices_def get_opt_def
        sd(4) Let_def side_first_def side_second_def case_prod_beta)
qed

section \<open>The longest sides\<close>

lemma all_less_3: "(\<forall>i < (3 :: nat). P i) \<longleftrightarrow> P 0 \<and> P 1 \<and> P 2"
  by (auto simp: less_3_cases)

definition lengths_nonneg :: "production_state \<Rightarrow> bool" where
  "lengths_nonneg ps \<longleftrightarrow> (\<forall>e < 3. e \<notin> set (ps_brokenEdges ps) \<longrightarrow> 0 \<le> ps_lengths ps ! e)"

text \<open>A broken side counts with the length \<open>-1\<close>, so it is not among the longest while another
  side is whole.\<close>

lemma longest_not_broken:
  assumes st: "state_of g n ps" and nonneg: "lengths_nonneg ps"
    and whole: "k < 3" "k \<notin> set (ps_brokenEdges ps)" and e: "e \<in> set (getLongestEdges ps)"
  shows "e \<notin> set (ps_brokenEdges ps)"
proof
  assume broken: "e \<in> set (ps_brokenEdges ps)"
  have e3: "e < 3" by (rule getLongestEdges_less [OF e])
  have "ps_lengths ps ! e = -1"
    using broken brokenEdges_iff [OF st] state_ofD(8) [OF st e3] by simp
  moreover have "0 \<le> ps_lengths ps ! k" using nonneg whole by (simp add: lengths_nonneg_def)
  ultimately have "less_eps (ps_lengths ps ! e) (ps_lengths ps ! k)" by (simp add: eps_defs)
  moreover have "k = (e + 1) mod 3 \<or> k = (e + 2) mod 3"
    using whole broken e3 by (auto simp: less_3_cases)
  ultimately show False using e by (auto simp: getLongestEdges_def)
qed

section \<open>One broken side\<close>

lemma edge_at_edge:
  assumes "mg_inv g" "edge_val g u v = Some d"
  shows "edge_at g (u, findEdge g u v) = Inr d"
  using assms(2) by (auto simp: edge_at_def edge_val_def split: if_splits)

lemma edge_of_side:
  assumes st: "state_of g n ps" and e: "e < 3" "e \<notin> set (ps_brokenEdges ps)"
  obtains it d where "ps_edgesIterators ps ! e = Some it" "edge_at g it = Inr d"
    "edge_length d = ps_lengths ps ! e" "ps_edgesData ps ! e = Some d"
proof -
  note sd = state_ofD [OF st]
  note ts = triangle_sides [OF sd(1,2) refl e(1)]
  obtain d where d: "edge_val g (side_first (getNeighbours g n) e) (side_second (getNeighbours g n) e) = Some d"
    using e brokenEdges_iff [OF st] by auto
  have l: "live g (side_first (getNeighbours g n) e)" "live g (side_second (getNeighbours g n) e)"
    using ts(4,5) by (simp_all add: mesh_store.vertex_def)
  show thesis
    using d edge_at_edge [OF ts(1) d] sd(6,7,8) [OF e(1)] get_edge_val(1) [OF ts(1) l]
    by (intro that) simp_all
qed

text \<open>The two halves of the broken side together against each of the other sides.\<close>

lemma checkIfBrokenEdgeIsTheLongest_spec:
  assumes st: "state_of g n ps" and broken: "ps_brokenEdges ps = [k]"
    and h: "findNodeBetween g (side_first (getNeighbours g n) k) (side_second (getNeighbours g n) k) = Some h"
  obtains d1 d2 where
    "edge_val g (side_first (getNeighbours g n) k) h = Some d1"
    "edge_val g (side_second (getNeighbours g n) k) h = Some d2"
    "checkIfBrokenEdgeIsTheLongest g k (ps_edgesIterators ps) (ps_vertices ps) =
       Inr (\<forall>i < 3. i \<noteq> k \<longrightarrow> \<not> less_eps (edge_length d1 + edge_length d2) (ps_lengths ps ! i))"
proof -
  note sd = state_ofD [OF st]
  let ?vs = "getNeighbours g n"
  have k: "k < 3" using brokenEdges_iff [OF st, of k] broken by simp
  note ts = triangle_sides [OF sd(1,2) refl k]
  have l: "live g (side_first ?vs k)" "live g (side_second ?vs k)"
    using ts(4,5) by (simp_all add: mesh_store.vertex_def)
  obtain d1 d2 where d: "edge_val g (side_first ?vs k) h = Some d1" "edge_val g (side_second ?vs k) h = Some d2"
    using findNodeBetween_Some(1,2) [OF ts(1) l h] by auto
  note at = edge_at_edge [OF ts(1) d(1)] edge_at_edge [OF ts(1) d(2)]
  let ?step = "brokenEdgeLengths_step g k (ps_edgesIterators ps) ?vs"
  have hit: "?step k (j, ls) = Inr (j, ls[2 := edge_length d1, 3 := edge_length d2])" for j ls
    using h at by (simp add: brokenEdgeLengths_step_def getEdgeVertices_def side_first_def side_second_def get_opt_def)
  have miss: "?step i (j, ls) = Inr (Suc j, ls[j := ps_lengths ps ! i])" if "i < 3" "i \<noteq> k" for i j ls
  proof -
    have "i \<notin> set (ps_brokenEdges ps)" using that broken by simp
    then show ?thesis
      using that by (auto elim: edge_of_side [OF st \<open>i < 3\<close>] simp: brokenEdgeLengths_step_def get_opt_def)
  qed
  have "checkIfBrokenEdgeIsTheLongest g k (ps_edgesIterators ps) (ps_vertices ps) =
       Inr (\<forall>i < 3. i \<noteq> k \<longrightarrow> \<not> less_eps (edge_length d1 + edge_length d2) (ps_lengths ps ! i))"
  proof -
    have "k = 0 \<or> k = 1 \<or> k = 2" using k by auto
    then show ?thesis
      using hit miss [of 0] miss [of 1] miss [of 2]
      by (elim disjE) (simp_all add: checkIfBrokenEdgeIsTheLongest_def sd(4) all_less_3)
  qed
  then show thesis using that d by blast
qed

section \<open>No production fails\<close>

text \<open>The data a production relies on: every broken side has its hanging node, heights are defined
  and edges have proper lengths.\<close>

definition safe_state :: "mesh \<Rightarrow> nat \<Rightarrow> production_state \<Rightarrow> bool" where
  "safe_state g n ps \<longleftrightarrow> state_of g n ps \<and> hanging_found g (getNeighbours g n) \<and>
     heights_total (ps_zGetter ps) \<and> lengths_nonneg ps"

lemma safe_stateD:
  assumes "safe_state g n ps"
  shows "state_of g n ps" "hanging_found g (getNeighbours g n)" "heights_total (ps_zGetter ps)" "lengths_nonneg ps"
  using assms by (simp_all add: safe_state_def)

lemma applied_returns: "\<exists>g' pushed. r = Inr (g', pushed) \<Longrightarrow> \<exists>x. applied r = Inr x"
  by (auto simp: applied_def)

lemma whole_side_exists:
  assumes "state_of g n ps" "length (ps_brokenEdges ps) < 3"
  obtains k where "k < 3" "k \<notin> set (ps_brokenEdges ps)"
proof -
  have "\<exists>k < 3. k \<notin> set (ps_brokenEdges ps)"
  proof (rule ccontr)
    assume "\<not> ?thesis"
    then have "{..<3} \<subseteq> set (ps_brokenEdges ps)" by auto
    then have "card {..<3 :: nat} \<le> card (set (ps_brokenEdges ps))" by (rule card_mono [rotated]) simp
    also have "\<dots> \<le> length (ps_brokenEdges ps)" by (rule card_length)
    finally show False using assms(2) by simp
  qed
  then show thesis using that by blast
qed

lemma P1_returns:
  assumes "safe_state g n ps"
  shows "\<exists>r. P1_execute g ps = Inr r"
proof -
  note safe = safe_stateD [OF assms]
  have loop: "\<exists>k. P1_getEdgeToBreak_loop ps es = Inr k"
    if "\<And>e. e \<in> set es \<Longrightarrow> \<exists>d. ps_edgesData ps ! e = Some d" for es
    using that by (induction es) (auto simp: get_opt_def split: option.splits)
  show ?thesis
  proof (cases "P1_checkApplicabilityCondition (getData g (ps_interior ps)) (ps_edgesIterators ps)")
    case True
    then have none: "ps_brokenEdges ps = []"
      by (simp add: P1_checkApplicabilityCondition_def hasBrokenEdge_def state_ofD(10) [OF safe(1)])
    then have "\<exists>d. ps_edgesData ps ! e = Some d" if "e \<in> set (getLongestEdges ps)" for e
      using edge_of_side [OF safe(1) getLongestEdges_less [OF that]] by auto
    from loop [OF this] obtain k where k: "P1_getEdgeToBreak ps = Inr k"
      by (auto simp: P1_getEdgeToBreak_def)
    have "\<exists>x. applied (breakElementWithoutHangingNode g (nat k) ps) = Inr x" if k1: "k \<noteq> -1"
    proof -
      obtain e where "k = int e" "e < 3"
        using P1_loop_Inr [OF k [unfolded P1_getEdgeToBreak_def] k1] getLongestEdges_less by blast
      then show ?thesis using new_node_break_returns [OF safe(1,3)] none by (intro applied_returns) simp
    qed
    then show ?thesis using True k by (auto simp: P1_execute_def not_applied_def)
  qed (auto simp: P1_execute_def not_applied_def)
qed

lemma one_broken:
  assumes st: "state_of g n ps" and "countBrokenEdges (ps_edgesIterators ps) = 1"
  obtains k where "ps_brokenEdges ps = [k]" "k < 3" "getAnyBrokenEdge ps = int k"
proof -
  obtain k where k: "ps_brokenEdges ps = [k]"
    using assms by (auto simp: state_ofD(10) [OF st] length_Suc_conv)
  moreover have "k < 3" using brokenEdges_iff [OF st, of k] k by simp
  ultimately show thesis by (intro that) (simp_all add: getAnyBrokenEdge_def)
qed

lemma check_returns:
  assumes "safe_state g n ps" "ps_brokenEdges ps = [k]" "k < 3"
  shows "\<exists>b. checkIfBrokenEdgeIsTheLongest g k (ps_edgesIterators ps) (ps_vertices ps) = Inr b"
proof -
  note safe = safe_stateD [OF assms(1)]
  obtain h where "findNodeBetween g (side_first (getNeighbours g n) k) (side_second (getNeighbours g n) k) = Some h"
    using safe(2) assms(2,3) brokenEdges_iff [OF safe(1), of k] by (auto simp: hanging_found_def)
  then show ?thesis using checkIfBrokenEdgeIsTheLongest_spec [OF safe(1) assms(2)] by blast
qed

lemma P2_returns:
  assumes "safe_state g n ps"
  shows "\<exists>r. P2_execute g ps = Inr r"
proof (cases "P2_checkApplicabilityCondition (ps_edgesIterators ps)")
  case True
  note safe = safe_stateD [OF assms]
  obtain k where k: "ps_brokenEdges ps = [k]" "k < 3" "getAnyBrokenEdge ps = int k"
    by (rule one_broken [OF safe(1) True [unfolded P2_checkApplicabilityCondition_def]])
  then show ?thesis
    using True check_returns [OF assms k(1,2)] applied_returns [OF hanging_break_returns [OF safe(1,2)], of k]
    by (auto simp: P2_execute_def not_applied_def)
qed (auto simp: P2_execute_def not_applied_def)

lemma P3_returns:
  assumes "safe_state g n ps"
  shows "\<exists>r. P3_execute g ps = Inr r"
proof (cases "P3_checkApplicabilityCondition (ps_edgesIterators ps)")
  case True
  note safe = safe_stateD [OF assms]
  obtain k where k: "ps_brokenEdges ps = [k]" "k < 3" "getAnyBrokenEdge ps = int k"
    by (rule one_broken [OF safe(1) True [unfolded P3_checkApplicabilityCondition_def]])
  obtain k' where k': "k' < 3" "k' \<notin> set (ps_brokenEdges ps)"
    using whole_side_exists [OF safe(1)] k(1) by auto
  have long: "e < 3" "e \<notin> set (ps_brokenEdges ps)" "\<exists>d. ps_edgesData ps ! e = Some d"
    if "e \<in> set (getLongestEdges ps)" for e
    using getLongestEdges_less [OF that] longest_not_broken [OF safe(1,4) k' that]
      edge_of_side [OF safe(1), of e] by auto
  have "\<exists>r. P3_border_loop ps es = Inr r" if "\<And>e. e \<in> set es \<Longrightarrow> \<exists>d. ps_edgesData ps ! e = Some d" for es
    using that by (induction es) (auto simp: get_opt_def split: option.splits)
  then obtain r where r: "P3_border_loop ps (getLongestEdges ps) = Inr r" using long(3) by blast
  have brk: "\<exists>x. applied (breakElementWithoutHangingNode g e ps) = Inr x" if "e \<in> set (getLongestEdges ps)" for e
    using applied_returns new_node_break_returns [OF safe(1,3) long(1,2) [OF that]] by blast
  have "\<exists>r. (case r' of Some longest \<Rightarrow> applied (breakElementWithoutHangingNode g longest ps)
      | None \<Rightarrow> (case P3_hanging_loop ps (getLongestEdges ps) of
          Some longest \<Rightarrow> applied (breakElementWithoutHangingNode g longest ps) | None \<Rightarrow> not_applied g)) = Inr r"
    if "r' = r" for r'
    using brk P3_border_loop_Inr [of ps "getLongestEdges ps"] P3_hanging_loop_Some [of ps "getLongestEdges ps"] r that
    by (auto simp: not_applied_def split: option.splits)
  then show ?thesis
    using True k check_returns [OF assms k(1,2)] r by (auto simp: P3_execute_def not_applied_def Let_def)
qed (auto simp: P3_execute_def not_applied_def)

section \<open>Two and three broken sides\<close>

lemma longest_distinct: "distinct (getLongestEdgesIncludingBrokenOnes ps)"
  using indexesOfMaxElems_inv [of "map (\<lambda>i. coord_dist (coords (ps_verticesData ps ! i))
      (coords (ps_verticesData ps ! ((i + 1) mod 3))) (ps_version2D ps)) [0..<3]"]
  by (auto simp: getLongestEdgesIncludingBrokenOnes_def max_inv_def strict_sorted_iff upt_3)

lemma longest_hd: "getLongestEdgesIncludingBrokenOnes ps ! 0 \<in> set (getLongestEdgesIncludingBrokenOnes ps)"
  using longest_including_broken(1) [of ps] by simp

lemma distinct_brokenEdges: "state_of g n ps \<Longrightarrow> distinct (ps_brokenEdges ps)"
  using state_ofD(9) [of g n ps] by simp

text \<open>With two broken sides, longest sides that are all whole are just one side.\<close>

lemma two_broken_longest:
  assumes st: "state_of g n ps" and two: "length (ps_brokenEdges ps) = 2"
    and whole: "\<forall>e \<in> set (getLongestEdgesIncludingBrokenOnes ps). e \<notin> set (ps_brokenEdges ps)"
  shows "length (getLongestEdgesIncludingBrokenOnes ps) = 1"
proof -
  let ?L = "getLongestEdgesIncludingBrokenOnes ps" and ?B = "ps_brokenEdges ps"
  have "set ?L \<union> set ?B \<subseteq> {..<3}"
    using longest_including_broken(2) [of _ ps] brokenEdges_iff [OF st] by auto
  then have "card (set ?L \<union> set ?B) \<le> 3" using card_mono [of "{..<3 :: nat}"] by fastforce
  moreover have "card (set ?L \<union> set ?B) = length ?L + 2"
    using whole two longest_distinct [of ps] distinct_brokenEdges [OF st]
    by (subst card_Un_disjoint) (auto simp: distinct_card)
  ultimately show ?thesis using longest_including_broken(1) [of ps] by (cases ?L) auto
qed

lemma P4_P5_True:
  assumes "safe_state g n ps" "length (ps_brokenEdges ps) = 2"
  shows "(\<exists>g' pushed. P4_execute g ps = Inr (g', pushed, True)) \<and> P5_execute g ps = not_applied g \<or>
    P4_execute g ps = not_applied g \<and> (\<exists>g' pushed. P5_execute g ps = Inr (g', pushed, True))"
proof -
  note safe = safe_stateD [OF assms(1)]
  let ?L = "getLongestEdgesIncludingBrokenOnes ps"
  have cnt: "countBrokenEdges (ps_edgesIterators ps) = 2" using assms(2) state_ofD(10) [OF safe(1)] by simp
  show ?thesis
  proof (cases "List.find (\<lambda>e. e \<in> set (ps_brokenEdges ps)) ?L")
    case None
    then have whole: "\<forall>e \<in> set ?L. e \<notin> set (ps_brokenEdges ps)" by (simp add: find_None_iff)
    then have "?L ! 0 \<notin> set (ps_brokenEdges ps)" "?L ! 0 < 3"
      using longest_hd [of ps] longest_including_broken(2) by blast+
    then obtain g' pushed where "breakElementWithoutHangingNode g (?L ! 0) ps = Inr (g', pushed)"
      using new_node_break_returns [OF safe(1,3)] by blast
    then show ?thesis
      using None cnt two_broken_longest [OF safe(1) assms(2) whole] \<open>?L ! 0 \<notin> set (ps_brokenEdges ps)\<close>
      by (simp add: P4_execute_def P5_execute_def P4_checkApplicabilityCondition_def
          P5_checkApplicabilityCondition_def applied_def)
  next
    case (Some e)
    then have e: "e \<in> set ?L" "e \<in> set (ps_brokenEdges ps)" by (auto simp: find_Some_iff)
    then obtain g' pushed where "breakElementWithHangingNode g e ps = Inr (g', pushed)"
      using hanging_break_returns [OF safe(1,2)] by blast
    moreover have "?L ! 0 = e" if "\<not> length ?L > 1"
      using that e(1) longest_including_broken(1) [of ps] by (cases ?L) auto
    ultimately show ?thesis
      using Some cnt e(2)
      by (auto simp: P4_execute_def P5_execute_def P4_checkApplicabilityCondition_def
          P5_checkApplicabilityCondition_def applied_def Let_def)
  qed
qed

lemma P6_True_if:
  assumes "safe_state g n ps" "length (ps_brokenEdges ps) = 3"
  shows "\<exists>g' pushed. P6_execute g ps = Inr (g', pushed, True)"
proof -
  note safe = safe_stateD [OF assms(1)]
  have cnt: "countBrokenEdges (ps_edgesIterators ps) = 3" using assms(2) state_ofD(10) [OF safe(1)] by simp
  have "getLongestEdgesIncludingBrokenOnes ps ! 0 \<in> set (ps_brokenEdges ps)"
    using all_broken [OF safe(1) cnt] longest_hd [of ps] longest_including_broken(2) by blast
  from hanging_break_returns [OF safe(1,2) this] show ?thesis
    using cnt by (auto simp: P6_execute_def P6_checkApplicabilityCondition_def applied_def Let_def)
qed

lemma productions_return:
  assumes "safe_state g n ps" "P \<in> set productions"
  shows "\<exists>r. P g ps = Inr r"
proof -
  have cnt: "countBrokenEdges (ps_edgesIterators ps) = length (ps_brokenEdges ps)"
    using safe_stateD(1) [OF assms(1)] by (rule state_ofD(10))
  have "\<exists>r. P4_execute g ps = Inr r" "\<exists>r. P5_execute g ps = Inr r"
    using P4_P5_True [OF assms(1)] cnt
    by (cases "length (ps_brokenEdges ps) = 2"; auto simp: not_applied_def P4_execute_def P5_execute_def
        P4_checkApplicabilityCondition_def P5_checkApplicabilityCondition_def)+
  moreover have "\<exists>r. P6_execute g ps = Inr r"
    using P6_True_if [OF assms(1)] cnt
    by (cases "length (ps_brokenEdges ps) = 3")
      (auto simp: not_applied_def P6_execute_def P6_checkApplicabilityCondition_def)
  ultimately show ?thesis
    using assms(2) P1_returns [OF assms(1)] P2_returns [OF assms(1)] P3_returns [OF assms(1)]
    unfolding productions_def set_simps by blast
qed

end
