(* ===== verification/Tran_Merc.thy ===== *)
theory Tran_Merc
  imports Mesh_Utils
begin

text \<open>
  \<open>libmgrs/tranmerc.c\<close>: conversion between geodetic coordinates and the Transverse Mercator
  projection. The static variables of the file are the record \<open>tranmerc\<close>; every function takes
  the record and returns what the C function writes. An output parameter that the C function
  leaves alone when it reports an error is \<open>None\<close>. Error codes are combined by bitwise or, as in
  the code. Angles are in radians.
\<close>

unbundle bit_operations_syntax

section \<open>Error codes and limits\<close>

definition TRANMERC_NO_ERROR :: int where "TRANMERC_NO_ERROR = 0x0000"
definition TRANMERC_LAT_ERROR :: int where "TRANMERC_LAT_ERROR = 0x0001"
definition TRANMERC_LON_ERROR :: int where "TRANMERC_LON_ERROR = 0x0002"
definition TRANMERC_EASTING_ERROR :: int where "TRANMERC_EASTING_ERROR = 0x0004"
definition TRANMERC_NORTHING_ERROR :: int where "TRANMERC_NORTHING_ERROR = 0x0008"
definition TRANMERC_ORIGIN_LAT_ERROR :: int where "TRANMERC_ORIGIN_LAT_ERROR = 0x0010"
definition TRANMERC_CENT_MER_ERROR :: int where "TRANMERC_CENT_MER_ERROR = 0x0020"
definition TRANMERC_A_ERROR :: int where "TRANMERC_A_ERROR = 0x0040"
definition TRANMERC_INV_F_ERROR :: int where "TRANMERC_INV_F_ERROR = 0x0080"
definition TRANMERC_SCALE_FACTOR_ERROR :: int where "TRANMERC_SCALE_FACTOR_ERROR = 0x0100"
definition TRANMERC_LON_WARNING :: int where "TRANMERC_LON_WARNING = 0x0200"

lemmas tranmerc_codes =
  TRANMERC_NO_ERROR_def TRANMERC_LAT_ERROR_def TRANMERC_LON_ERROR_def TRANMERC_EASTING_ERROR_def
  TRANMERC_NORTHING_ERROR_def TRANMERC_ORIGIN_LAT_ERROR_def TRANMERC_CENT_MER_ERROR_def
  TRANMERC_A_ERROR_def TRANMERC_INV_F_ERROR_def TRANMERC_SCALE_FACTOR_ERROR_def
  TRANMERC_LON_WARNING_def

definition PI_OVER_2 :: real where "PI_OVER_2 = PI_C / 2"
definition TM_MAX_LAT :: real where "TM_MAX_LAT = (PI_C * 8999 / 100) / 180"
definition MAX_DELTA_LONG :: real where "MAX_DELTA_LONG = (PI_C * 90) / 180"
definition MIN_SCALE_FACTOR :: real where "MIN_SCALE_FACTOR = 3 / 10"
definition MAX_SCALE_FACTOR :: real where "MAX_SCALE_FACTOR = 3"

section \<open>The state of the projection\<close>

record tranmerc =
  TranMerc_a :: real
  TranMerc_f :: real
  TranMerc_es :: real
  TranMerc_ebs :: real
  TranMerc_Origin_Lat :: real
  TranMerc_Origin_Long :: real
  TranMerc_False_Northing :: real
  TranMerc_False_Easting :: real
  TranMerc_Scale_Factor :: real
  TranMerc_ap :: real
  TranMerc_bp :: real
  TranMerc_cp :: real
  TranMerc_dp :: real
  TranMerc_ep :: real
  TranMerc_Delta_Easting :: real
  TranMerc_Delta_Northing :: real

definition tranmerc_init :: tranmerc where
  "tranmerc_init =
    \<lparr>TranMerc_a = 6378137, TranMerc_f = 1 / (298257223563 / 10 ^ 9),
     TranMerc_es = 66943799901413800 / 10 ^ 19, TranMerc_ebs = 67394967565869 / 10 ^ 16,
     TranMerc_Origin_Lat = 0, TranMerc_Origin_Long = 0,
     TranMerc_False_Northing = 0, TranMerc_False_Easting = 0, TranMerc_Scale_Factor = 1,
     TranMerc_ap = 63674491458008 / 10 ^ 7, TranMerc_bp = 16038508696861 / 10 ^ 9,
     TranMerc_cp = 16832613334334 / 10 ^ 12, TranMerc_dp = 21984404273757 / 10 ^ 15,
     TranMerc_ep = 31148371319283 / 10 ^ 18,
     TranMerc_Delta_Easting = 40000000, TranMerc_Delta_Northing = 40000000\<rparr>"

definition SPHTMD :: "tranmerc \<Rightarrow> real \<Rightarrow> real" where
  "SPHTMD s Latitude = TranMerc_ap s * Latitude
     - TranMerc_bp s * sin (2 * Latitude) + TranMerc_cp s * sin (4 * Latitude)
     - TranMerc_dp s * sin (6 * Latitude) + TranMerc_ep s * sin (8 * Latitude)"

definition SPHSN :: "tranmerc \<Rightarrow> real \<Rightarrow> real" where
  "SPHSN s Latitude = TranMerc_a s / sqrt (1 - TranMerc_es s * (sin Latitude)\<^sup>2)"

definition DENOM :: "tranmerc \<Rightarrow> real \<Rightarrow> real" where
  "DENOM s Latitude = sqrt (1 - TranMerc_es s * (sin Latitude)\<^sup>2)"

definition SPHSR :: "tranmerc \<Rightarrow> real \<Rightarrow> real" where
  "SPHSR s Latitude = TranMerc_a s * (1 - TranMerc_es s) / (DENOM s Latitude) ^ 3"

section \<open>From geodetic to Transverse Mercator\<close>

text \<open>The range check of \<open>Convert_Geodetic_To_Transverse_Mercator\<close> on a longitude that is already
  reduced to at most \<open>PI\<close>.\<close>

definition tm_lon_out_of_range :: "tranmerc \<Rightarrow> real \<Rightarrow> bool" where
  "tm_lon_out_of_range s Longitude \<longleftrightarrow>
     (Longitude < TranMerc_Origin_Long s - MAX_DELTA_LONG \<or>
      Longitude > TranMerc_Origin_Long s + MAX_DELTA_LONG) \<and>
     (let temp_Long = (if Longitude < 0 then Longitude + 2 * PI_C else Longitude);
          temp_Origin = (if TranMerc_Origin_Long s < 0 then TranMerc_Origin_Long s + 2 * PI_C
                         else TranMerc_Origin_Long s)
      in temp_Long < temp_Origin - MAX_DELTA_LONG \<or> temp_Long > temp_Origin + MAX_DELTA_LONG)"

text \<open>The difference of longitude the series are evaluated at.\<close>

definition tm_dlam :: "tranmerc \<Rightarrow> real \<Rightarrow> real" where
  "tm_dlam s Longitude =
     (let dlam = Longitude - TranMerc_Origin_Long s;
          dlam = (if dlam > PI_C then dlam - 2 * PI_C else dlam);
          dlam = (if dlam < - PI_C then dlam + 2 * PI_C else dlam)
      in if \<bar>dlam\<bar> < 2 / 10 ^ 10 then 0 else dlam)"

definition tm_northing :: "tranmerc \<Rightarrow> real \<Rightarrow> real \<Rightarrow> real" where
  "tm_northing st Latitude dlam =
     (let s = sin Latitude; c = cos Latitude; c2 = c * c; c3 = c2 * c; c5 = c3 * c2; c7 = c5 * c2;
          t = tan Latitude; tan2 = t * t; tan3 = tan2 * t; tan4 = tan3 * t; tan5 = tan4 * t;
          tan6 = tan5 * t;
          eta = TranMerc_ebs st * c2; eta2 = eta * eta; eta3 = eta2 * eta; eta4 = eta3 * eta;
          sn = SPHSN st Latitude; tmd = SPHTMD st Latitude;
          tmdo = SPHTMD st (TranMerc_Origin_Lat st);
          t1 = (tmd - tmdo) * TranMerc_Scale_Factor st;
          t2 = sn * s * c * TranMerc_Scale_Factor st / 2;
          t3 = sn * s * c3 * TranMerc_Scale_Factor st * (5 - tan2 + 9 * eta + 4 * eta2) / 24;
          t4 = sn * s * c5 * TranMerc_Scale_Factor st
                 * (61 - 58 * tan2 + tan4 + 270 * eta - 330 * tan2 * eta + 445 * eta2
                    + 324 * eta3 - 680 * tan2 * eta2 + 88 * eta4
                    - 600 * tan2 * eta3 - 192 * tan2 * eta4) / 720;
          t5 = sn * s * c7 * TranMerc_Scale_Factor st
                 * (1385 - 3111 * tan2 + 543 * tan4 - tan6) / 40320
      in TranMerc_False_Northing st + t1 + dlam ^ 2 * t2 + dlam ^ 4 * t3 + dlam ^ 6 * t4
           + dlam ^ 8 * t5)"

definition tm_easting :: "tranmerc \<Rightarrow> real \<Rightarrow> real \<Rightarrow> real" where
  "tm_easting st Latitude dlam =
     (let c = cos Latitude; c2 = c * c; c3 = c2 * c; c5 = c3 * c2; c7 = c5 * c2;
          t = tan Latitude; tan2 = t * t; tan3 = tan2 * t; tan4 = tan3 * t; tan5 = tan4 * t;
          tan6 = tan5 * t;
          eta = TranMerc_ebs st * c2; eta2 = eta * eta; eta3 = eta2 * eta;
          sn = SPHSN st Latitude;
          t6 = sn * c * TranMerc_Scale_Factor st;
          t7 = sn * c3 * TranMerc_Scale_Factor st * (1 - tan2 + eta) / 6;
          t8 = sn * c5 * TranMerc_Scale_Factor st
                 * (5 - 18 * tan2 + tan4 + 14 * eta - 58 * tan2 * eta + 13 * eta2 + 4 * eta3
                    - 64 * tan2 * eta2 - 24 * tan2 * eta3) / 120;
          t9 = sn * c7 * TranMerc_Scale_Factor st * (61 - 479 * tan2 + 179 * tan4 - tan6) / 5040
      in TranMerc_False_Easting st + dlam * t6 + dlam ^ 3 * t7 + dlam ^ 5 * t8 + dlam ^ 7 * t9)"

text \<open>The result: the error code, and the easting and northing when they are written.\<close>

definition Convert_Geodetic_To_Transverse_Mercator ::
  "tranmerc \<Rightarrow> real \<Rightarrow> real \<Rightarrow> int \<times> (real \<times> real) option" where
  "Convert_Geodetic_To_Transverse_Mercator st Latitude Longitude =
     (let err = TRANMERC_NO_ERROR;
          err = (if Latitude < - TM_MAX_LAT \<or> Latitude > TM_MAX_LAT then err OR TRANMERC_LAT_ERROR
                 else err);
          Longitude = (if Longitude > PI_C then Longitude - 2 * PI_C else Longitude);
          err = (if tm_lon_out_of_range st Longitude then err OR TRANMERC_LON_ERROR else err)
      in if err = 0 then
           (let err = (if \<bar>Longitude - TranMerc_Origin_Long st\<bar> > 9 * PI_C / 180
                       then err OR TRANMERC_LON_WARNING else err);
                dlam = tm_dlam st Longitude
            in (err, Some (tm_easting st Latitude dlam, tm_northing st Latitude dlam)))
         else (err, None))"

section \<open>Setting the parameters\<close>

text \<open>The constants of the series for an ellipsoid, all computed from \<open>a\<close> and \<open>f\<close>.\<close>

definition tm_set_constants :: "tranmerc \<Rightarrow> tranmerc" where
  "tm_set_constants st =
     (let a = TranMerc_a st; f = TranMerc_f st;
          es = 2 * f - f * f; ebs = (1 / (1 - es)) - 1;
          b = a * (1 - f); tn = (a - b) / (a + b);
          tn2 = tn * tn; tn3 = tn2 * tn; tn4 = tn3 * tn; tn5 = tn4 * tn
      in st\<lparr>TranMerc_es := es, TranMerc_ebs := ebs,
            TranMerc_ap := a * (1 - tn + 5 * (tn2 - tn3) / 4 + 81 * (tn4 - tn5) / 64),
            TranMerc_bp := 3 * a * (tn - tn2 + 7 * (tn3 - tn4) / 8 + 55 * tn5 / 64) / 2,
            TranMerc_cp := 15 * a * (tn2 - tn3 + 3 * (tn4 - tn5) / 4) / 16,
            TranMerc_dp := 35 * a * (tn3 - tn4 + 11 * tn5 / 16) / 48,
            TranMerc_ep := 315 * a * (tn4 - tn5) / 512\<rparr>)"

text \<open>The two calls that measure the extent of the projection. A call that fails leaves the
  variables it would write.\<close>

definition tm_set_deltas :: "tranmerc \<Rightarrow> real \<Rightarrow> tranmerc" where
  "tm_set_deltas st Central_Meridian =
     (let st = (case snd (Convert_Geodetic_To_Transverse_Mercator st TM_MAX_LAT
                            (MAX_DELTA_LONG + Central_Meridian)) of
                  None \<Rightarrow> st
                | Some (e, n) \<Rightarrow> st\<lparr>TranMerc_Delta_Easting := e, TranMerc_Delta_Northing := n\<rparr>);
          st = (case snd (Convert_Geodetic_To_Transverse_Mercator st 0
                            (MAX_DELTA_LONG + Central_Meridian)) of
                  None \<Rightarrow> st
                | Some (e, n) \<Rightarrow> st\<lparr>TranMerc_Delta_Easting := e\<rparr>)
      in st\<lparr>TranMerc_Delta_Northing := TranMerc_Delta_Northing st + 1,
            TranMerc_Delta_Easting := TranMerc_Delta_Easting st + 1\<rparr>)"

definition Set_Transverse_Mercator_Parameters ::
  "tranmerc \<Rightarrow> real \<Rightarrow> real \<Rightarrow> real \<Rightarrow> real \<Rightarrow> real \<Rightarrow> real \<Rightarrow> real \<Rightarrow> tranmerc \<times> int" where
  "Set_Transverse_Mercator_Parameters st a f Origin_Latitude Central_Meridian False_Easting
       False_Northing Scale_Factor =
     (let inv_f = 1 / f;
          err = TRANMERC_NO_ERROR;
          err = (if a \<le> 0 then err OR TRANMERC_A_ERROR else err);
          err = (if inv_f < 250 \<or> inv_f > 350 then err OR TRANMERC_INV_F_ERROR else err);
          err = (if Origin_Latitude < - PI_OVER_2 \<or> Origin_Latitude > PI_OVER_2
                 then err OR TRANMERC_ORIGIN_LAT_ERROR else err);
          err = (if Central_Meridian < - PI_C \<or> Central_Meridian > 2 * PI_C
                 then err OR TRANMERC_CENT_MER_ERROR else err);
          err = (if Scale_Factor < MIN_SCALE_FACTOR \<or> Scale_Factor > MAX_SCALE_FACTOR
                 then err OR TRANMERC_SCALE_FACTOR_ERROR else err)
      in if err = 0 then
           (let Central_Meridian =
                  (if Central_Meridian > PI_C then Central_Meridian - 2 * PI_C else Central_Meridian);
                st = st\<lparr>TranMerc_a := a, TranMerc_f := f, TranMerc_Origin_Lat := Origin_Latitude,
                        TranMerc_Origin_Long := Central_Meridian,
                        TranMerc_False_Northing := False_Northing,
                        TranMerc_False_Easting := False_Easting,
                        TranMerc_Scale_Factor := Scale_Factor\<rparr>
            in (tm_set_deltas (tm_set_constants st) Central_Meridian, err))
         else (st, err))"

definition Get_Transverse_Mercator_Parameters ::
  "tranmerc \<Rightarrow> real \<times> real \<times> real \<times> real \<times> real \<times> real \<times> real" where
  "Get_Transverse_Mercator_Parameters st =
     (TranMerc_a st, TranMerc_f st, TranMerc_Origin_Lat st, TranMerc_Origin_Long st,
      TranMerc_False_Easting st, TranMerc_False_Northing st, TranMerc_Scale_Factor st)"

section \<open>From Transverse Mercator to geodetic\<close>

text \<open>The five passes that refine the footpoint latitude.\<close>

fun tm_footpoint :: "tranmerc \<Rightarrow> real \<Rightarrow> nat \<Rightarrow> real \<Rightarrow> real" where
  "tm_footpoint st tmd 0 ftphi = ftphi"
| "tm_footpoint st tmd (Suc i) ftphi =
     tm_footpoint st tmd i (ftphi + (tmd - SPHTMD st ftphi) / SPHSR st ftphi)"

definition tm_latitude :: "tranmerc \<Rightarrow> real \<Rightarrow> real \<Rightarrow> real" where
  "tm_latitude st ftphi de =
     (let sr = SPHSR st ftphi; sn = SPHSN st ftphi; c = cos ftphi; t = tan ftphi;
          tan2 = t * t; tan4 = tan2 * tan2;
          eta = TranMerc_ebs st * c ^ 2; eta2 = eta * eta; eta3 = eta2 * eta; eta4 = eta3 * eta;
          k = TranMerc_Scale_Factor st;
          t10 = t / (2 * sr * sn * k ^ 2);
          t11 = t * (5 + 3 * tan2 + eta - 4 * eta ^ 2 - 9 * tan2 * eta) / (24 * sr * sn ^ 3 * k ^ 4);
          t12 = t * (61 + 90 * tan2 + 46 * eta + 45 * tan4 - 252 * tan2 * eta - 3 * eta2
                     + 100 * eta3 - 66 * tan2 * eta2 - 90 * tan4 * eta + 88 * eta4
                     + 225 * tan4 * eta2 + 84 * tan2 * eta3 - 192 * tan2 * eta4)
                  / (720 * sr * sn ^ 5 * k ^ 6);
          t13 = t * (1385 + 3633 * tan2 + 4095 * tan4 + 1575 * t ^ 6) / (40320 * sr * sn ^ 7 * k ^ 8)
      in ftphi - de ^ 2 * t10 + de ^ 4 * t11 - de ^ 6 * t12 + de ^ 8 * t13)"

definition tm_delta_longitude :: "tranmerc \<Rightarrow> real \<Rightarrow> real \<Rightarrow> real" where
  "tm_delta_longitude st ftphi de =
     (let sn = SPHSN st ftphi; c = cos ftphi; t = tan ftphi;
          tan2 = t * t; tan4 = tan2 * tan2;
          eta = TranMerc_ebs st * c ^ 2; eta2 = eta * eta; eta3 = eta2 * eta;
          k = TranMerc_Scale_Factor st;
          t14 = 1 / (sn * c * k);
          t15 = (1 + 2 * tan2 + eta) / (6 * sn ^ 3 * c * k ^ 3);
          t16 = (5 + 6 * eta + 28 * tan2 - 3 * eta2 + 8 * tan2 * eta + 24 * tan4 - 4 * eta3
                 + 4 * tan2 * eta2 + 24 * tan2 * eta3) / (120 * sn ^ 5 * c * k ^ 5);
          t17 = (61 + 662 * tan2 + 1320 * tan4 + 720 * t ^ 6) / (5040 * sn ^ 7 * c * k ^ 7)
      in de * t14 - de ^ 3 * t15 + de ^ 5 * t16 - de ^ 7 * t17)"

text \<open>The wrap of the longitude, with the error it may add.\<close>

definition tm_wrap_longitude :: "real \<Rightarrow> int \<Rightarrow> real \<times> int" where
  "tm_wrap_longitude Longitude err =
     (if Longitude > PI_C then
        (let Longitude = Longitude - 2 * PI_C
         in (Longitude, if \<bar>Longitude\<bar> > PI_C then err OR TRANMERC_EASTING_ERROR else err))
      else if Longitude < - PI_C then
        (let Longitude = Longitude + 2 * PI_C
         in (Longitude, if \<bar>Longitude\<bar> > PI_C then err OR TRANMERC_EASTING_ERROR else err))
      else (Longitude, err))"

definition Convert_Transverse_Mercator_To_Geodetic ::
  "tranmerc \<Rightarrow> real \<Rightarrow> real \<Rightarrow> int \<times> (real \<times> real) option" where
  "Convert_Transverse_Mercator_To_Geodetic st Easting Northing =
     (let err = TRANMERC_NO_ERROR;
          err = (if Easting < TranMerc_False_Easting st - TranMerc_Delta_Easting st \<or>
                    Easting > TranMerc_False_Easting st + TranMerc_Delta_Easting st
                 then err OR TRANMERC_EASTING_ERROR else err);
          err = (if Northing < TranMerc_False_Northing st - TranMerc_Delta_Northing st \<or>
                    Northing > TranMerc_False_Northing st + TranMerc_Delta_Northing st
                 then err OR TRANMERC_NORTHING_ERROR else err)
      in if err = 0 then
           (let tmdo = SPHTMD st (TranMerc_Origin_Lat st);
                tmd = tmdo + (Northing - TranMerc_False_Northing st) / TranMerc_Scale_Factor st;
                ftphi = tm_footpoint st tmd 5 (tmd / SPHSR st 0);
                de = Easting - TranMerc_False_Easting st;
                de = (if \<bar>de\<bar> < 1 / 10000 then 0 else de);
                Latitude = tm_latitude st ftphi de;
                dlam = tm_delta_longitude st ftphi de;
                err = (if \<bar>Latitude\<bar> > 90 * PI_C / 180 then err OR TRANMERC_NORTHING_ERROR else err);
                (Longitude, err) = tm_wrap_longitude (TranMerc_Origin_Long st + dlam) err;
                err = (if \<bar>dlam\<bar> > (9 * PI_C / 180) * cos Latitude
                       then err OR TRANMERC_LON_WARNING else err)
            in (err, Some (Latitude, Longitude)))
         else (err, None))"

section \<open>Error codes\<close>

text \<open>The parameters \<open>Set_Transverse_Mercator_Parameters\<close> accepts.\<close>

definition tm_params_ok :: "real \<Rightarrow> real \<Rightarrow> real \<Rightarrow> real \<Rightarrow> real \<Rightarrow> bool" where
  "tm_params_ok a f Origin_Latitude Central_Meridian Scale_Factor \<longleftrightarrow>
     a > 0 \<and> 250 \<le> 1 / f \<and> 1 / f \<le> 350 \<and> \<bar>Origin_Latitude\<bar> \<le> PI_OVER_2 \<and>
     - PI_C \<le> Central_Meridian \<and> Central_Meridian \<le> 2 * PI_C \<and>
     MIN_SCALE_FACTOR \<le> Scale_Factor \<and> Scale_Factor \<le> MAX_SCALE_FACTOR"

text \<open>A longitude as the conversions reduce it.\<close>

definition tm_reduce :: "real \<Rightarrow> real" where
  "tm_reduce Longitude = (if Longitude > PI_C then Longitude - 2 * PI_C else Longitude)"

lemma PI_C_pos [simp]: "PI_C > 0" "PI_C \<ge> 0"
  by (simp_all add: PI_C_def)

lemma tm_convert_written_iff:
  "snd (Convert_Geodetic_To_Transverse_Mercator st Latitude Longitude) =
     (if \<bar>Latitude\<bar> \<le> TM_MAX_LAT \<and> \<not> tm_lon_out_of_range st (tm_reduce Longitude)
      then Some (tm_easting st Latitude (tm_dlam st (tm_reduce Longitude)),
                 tm_northing st Latitude (tm_dlam st (tm_reduce Longitude)))
      else None)"
  by (auto simp: Convert_Geodetic_To_Transverse_Mercator_def tm_reduce_def Let_def tranmerc_codes
      or_eq_0_iff)

lemma tm_convert_code:
  "fst (Convert_Geodetic_To_Transverse_Mercator st Latitude Longitude) =
     (if \<bar>Latitude\<bar> \<le> TM_MAX_LAT \<and> \<not> tm_lon_out_of_range st (tm_reduce Longitude)
      then (if \<bar>tm_reduce Longitude - TranMerc_Origin_Long st\<bar> > 9 * PI_C / 180
            then TRANMERC_LON_WARNING else TRANMERC_NO_ERROR)
      else (if \<bar>Latitude\<bar> \<le> TM_MAX_LAT then 0 else TRANMERC_LAT_ERROR)
             OR (if tm_lon_out_of_range st (tm_reduce Longitude) then TRANMERC_LON_ERROR else 0))"
  by (auto simp: Convert_Geodetic_To_Transverse_Mercator_def tm_reduce_def Let_def tranmerc_codes
      or_eq_0_iff)

text \<open>Longitudes within a quarter turn of the origin are in range, also across the antimeridian.\<close>

lemma tm_lon_in_range:
  assumes "\<bar>TranMerc_Origin_Long st\<bar> \<le> PI_C" "\<bar>l\<bar> \<le> PI_C" "\<bar>d\<bar> \<le> MAX_DELTA_LONG"
    and "l = TranMerc_Origin_Long st + d \<or> l = TranMerc_Origin_Long st + d - 2 * PI_C \<or>
         l = TranMerc_Origin_Long st + d + 2 * PI_C"
  shows "\<not> tm_lon_out_of_range st l"
  using assms by (auto simp: tm_lon_out_of_range_def Let_def MAX_DELTA_LONG_def abs_if split: if_splits)

lemma tm_limit_in_range:
  assumes "\<bar>TranMerc_Origin_Long st\<bar> \<le> PI_C"
  shows "\<not> tm_lon_out_of_range st (tm_reduce (MAX_DELTA_LONG + TranMerc_Origin_Long st))"
  using assms
  by (intro tm_lon_in_range [where d = MAX_DELTA_LONG])
    (auto simp: tm_reduce_def MAX_DELTA_LONG_def abs_if split: if_splits)

lemma tm_set_constants_frame [simp]:
  "TranMerc_Origin_Long (tm_set_constants st) = TranMerc_Origin_Long st"
  "TranMerc_Origin_Lat (tm_set_constants st) = TranMerc_Origin_Lat st"
  "TranMerc_False_Easting (tm_set_constants st) = TranMerc_False_Easting st"
  "TranMerc_False_Northing (tm_set_constants st) = TranMerc_False_Northing st"
  "TranMerc_Scale_Factor (tm_set_constants st) = TranMerc_Scale_Factor st"
  "TranMerc_a (tm_set_constants st) = TranMerc_a st"
  "TranMerc_f (tm_set_constants st) = TranMerc_f st"
  by (simp_all add: tm_set_constants_def Let_def)


section \<open>The parameters determine the state\<close>

text \<open>\<open>tm_easting\<close>, \<open>tm_northing\<close> and the range check do not read the two extents.\<close>

lemma tm_deltas_irrelevant [simp]:
  "tm_lon_out_of_range (st\<lparr>TranMerc_Delta_Easting := e, TranMerc_Delta_Northing := n\<rparr>) l =
     tm_lon_out_of_range st l"
  "tm_dlam (st\<lparr>TranMerc_Delta_Easting := e, TranMerc_Delta_Northing := n\<rparr>) l = tm_dlam st l"
  "tm_easting (st\<lparr>TranMerc_Delta_Easting := e, TranMerc_Delta_Northing := n\<rparr>) b l = tm_easting st b l"
  "tm_northing (st\<lparr>TranMerc_Delta_Easting := e, TranMerc_Delta_Northing := n\<rparr>) b l = tm_northing st b l"
  by (simp_all add: tm_lon_out_of_range_def tm_dlam_def tm_easting_def tm_northing_def SPHSN_def
      SPHTMD_def Let_def)

lemma tm_set_deltas_eq:
  assumes "\<bar>TranMerc_Origin_Long st\<bar> \<le> PI_C"
  shows "tm_set_deltas st (TranMerc_Origin_Long st) =
    (let d = tm_dlam st (tm_reduce (MAX_DELTA_LONG + TranMerc_Origin_Long st))
     in st\<lparr>TranMerc_Delta_Easting := tm_easting st 0 d + 1,
           TranMerc_Delta_Northing := tm_northing st TM_MAX_LAT d + 1\<rparr>)"
  using tm_limit_in_range [OF assms]
  by (simp add: tm_set_deltas_def tm_convert_written_iff Let_def TM_MAX_LAT_def)

text \<open>The state after a successful call, written out over the arguments only.\<close>

definition tm_state :: "real \<Rightarrow> real \<Rightarrow> real \<Rightarrow> real \<Rightarrow> real \<Rightarrow> real \<Rightarrow> real \<Rightarrow> tranmerc" where
  "tm_state a f Origin_Latitude Origin_Long False_Easting False_Northing Scale_Factor =
     tm_set_deltas (tm_set_constants
       \<lparr>TranMerc_a = a, TranMerc_f = f, TranMerc_es = 0, TranMerc_ebs = 0,
        TranMerc_Origin_Lat = Origin_Latitude, TranMerc_Origin_Long = Origin_Long,
        TranMerc_False_Northing = False_Northing, TranMerc_False_Easting = False_Easting,
        TranMerc_Scale_Factor = Scale_Factor, TranMerc_ap = 0, TranMerc_bp = 0, TranMerc_cp = 0,
        TranMerc_dp = 0, TranMerc_ep = 0, TranMerc_Delta_Easting = 0,
        TranMerc_Delta_Northing = 0\<rparr>) Origin_Long"

lemma Set_Transverse_Mercator_Parameters_ok:
  assumes "tm_params_ok a f lat0 cm k"
  shows "Set_Transverse_Mercator_Parameters st a f lat0 cm fe fn k =
           (tm_state a f lat0 (tm_reduce cm) fe fn k, TRANMERC_NO_ERROR)"
proof -
  let ?o = "tm_reduce cm"
  have o: "\<bar>?o\<bar> \<le> PI_C"
    using assms by (auto simp: tm_params_ok_def tm_reduce_def abs_if)
  have state: "tm_set_deltas (tm_set_constants
      (st\<lparr>TranMerc_a := a, TranMerc_f := f, TranMerc_Origin_Lat := lat0,
          TranMerc_Origin_Long := ?o, TranMerc_False_Northing := fn,
          TranMerc_False_Easting := fe, TranMerc_Scale_Factor := k\<rparr>)) ?o =
     tm_state a f lat0 ?o fe fn k" (is "tm_set_deltas ?s1 _ = _")
  proof -
    obtain e n where s1: "?s1 = (tm_set_constants
       \<lparr>TranMerc_a = a, TranMerc_f = f, TranMerc_es = 0, TranMerc_ebs = 0,
        TranMerc_Origin_Lat = lat0, TranMerc_Origin_Long = ?o,
        TranMerc_False_Northing = fn, TranMerc_False_Easting = fe,
        TranMerc_Scale_Factor = k, TranMerc_ap = 0, TranMerc_bp = 0, TranMerc_cp = 0,
        TranMerc_dp = 0, TranMerc_ep = 0, TranMerc_Delta_Easting = 0,
        TranMerc_Delta_Northing = 0\<rparr>)\<lparr>TranMerc_Delta_Easting := e, TranMerc_Delta_Northing := n\<rparr>"
      (is "_ = ?s2\<lparr>TranMerc_Delta_Easting := e, TranMerc_Delta_Northing := n\<rparr>")
      by (cases st) (simp add: tm_set_constants_def Let_def)
    have "tm_set_deltas ?s1 ?o = tm_set_deltas ?s2 ?o"
      using tm_set_deltas_eq [of ?s1] tm_set_deltas_eq [of ?s2] o unfolding s1 by (simp add: Let_def)
    then show ?thesis
      by (simp add: tm_state_def)
  qed
  have ok: "Set_Transverse_Mercator_Parameters st a f lat0 cm fe fn k =
    (tm_set_deltas (tm_set_constants
      (st\<lparr>TranMerc_a := a, TranMerc_f := f, TranMerc_Origin_Lat := lat0,
          TranMerc_Origin_Long := ?o, TranMerc_False_Northing := fn,
          TranMerc_False_Easting := fe, TranMerc_Scale_Factor := k\<rparr>)) ?o, TRANMERC_NO_ERROR)"
    using assms
    by (simp add: Set_Transverse_Mercator_Parameters_def tm_params_ok_def tranmerc_codes Let_def
        tm_reduce_def abs_le_iff not_less minus_le_iff [of _ lat0])
  show ?thesis
    unfolding ok state ..
qed

lemma Set_Transverse_Mercator_Parameters_err:
  assumes "\<not> tm_params_ok a f lat0 cm k"
  shows "fst (Set_Transverse_Mercator_Parameters st a f lat0 cm fe fn k) = st"
    and "snd (Set_Transverse_Mercator_Parameters st a f lat0 cm fe fn k) \<noteq> TRANMERC_NO_ERROR"
proof -
  have "a \<le> 0 \<or> 1 / f < 250 \<or> 1 / f > 350 \<or> lat0 < - PI_OVER_2 \<or> lat0 > PI_OVER_2 \<or>
    cm < - PI_C \<or> cm > 2 * PI_C \<or> k < MIN_SCALE_FACTOR \<or> k > MAX_SCALE_FACTOR"
    using assms unfolding tm_params_ok_def by linarith
  then show "fst (Set_Transverse_Mercator_Parameters st a f lat0 cm fe fn k) = st"
    and "snd (Set_Transverse_Mercator_Parameters st a f lat0 cm fe fn k) \<noteq> TRANMERC_NO_ERROR"
    by (auto simp: Set_Transverse_Mercator_Parameters_def tranmerc_codes Let_def or_eq_0_iff)
qed

lemma tm_state_frame [simp]:
  assumes "\<bar>lon0\<bar> \<le> PI_C"
  shows "TranMerc_Origin_Long (tm_state a f lat0 lon0 fe fn k) = lon0"
    and "TranMerc_Origin_Lat (tm_state a f lat0 lon0 fe fn k) = lat0"
    and "TranMerc_False_Easting (tm_state a f lat0 lon0 fe fn k) = fe"
    and "TranMerc_False_Northing (tm_state a f lat0 lon0 fe fn k) = fn"
    and "TranMerc_Scale_Factor (tm_state a f lat0 lon0 fe fn k) = k"
  using tm_set_deltas_eq [of "tm_set_constants
       \<lparr>TranMerc_a = a, TranMerc_f = f, TranMerc_es = 0, TranMerc_ebs = 0,
        TranMerc_Origin_Lat = lat0, TranMerc_Origin_Long = lon0,
        TranMerc_False_Northing = fn, TranMerc_False_Easting = fe,
        TranMerc_Scale_Factor = k, TranMerc_ap = 0, TranMerc_bp = 0, TranMerc_cp = 0,
        TranMerc_dp = 0, TranMerc_ep = 0, TranMerc_Delta_Easting = 0,
        TranMerc_Delta_Northing = 0\<rparr>"] assms
  by (simp_all add: tm_state_def Let_def)

section \<open>Symmetry of the projection\<close>

lemma tm_easting_odd:
  "tm_easting st Latitude (- d) - TranMerc_False_Easting st =
   - (tm_easting st Latitude d - TranMerc_False_Easting st)"
  by (simp add: tm_easting_def Let_def)

lemma tm_northing_even: "tm_northing st Latitude (- d) = tm_northing st Latitude d"
  by (simp add: tm_northing_def Let_def)

lemma SPHTMD_odd: "SPHTMD st (- Latitude) = - SPHTMD st Latitude"
  by (simp add: SPHTMD_def)

lemma SPHTMD_0 [simp]: "SPHTMD st 0 = 0"
  by (simp add: SPHTMD_def)

lemma SPHSN_even: "SPHSN st (- Latitude) = SPHSN st Latitude"
  by (simp add: SPHSN_def)

lemma tm_northing_odd:
  assumes "TranMerc_Origin_Lat st = 0"
  shows "tm_northing st (- Latitude) d - TranMerc_False_Northing st =
         - (tm_northing st Latitude d - TranMerc_False_Northing st)"
  using assms by (simp add: tm_northing_def Let_def SPHTMD_odd SPHSN_even)

lemma tm_easting_even: "tm_easting st (- Latitude) d = tm_easting st Latitude d"
  by (simp add: tm_easting_def Let_def SPHSN_even)

section \<open>The footpoint iteration\<close>

lemma tm_footpoint_fixpoint:
  assumes "SPHTMD st phi = tmd"
  shows "tm_footpoint st tmd n phi = phi"
  using assms by (induction n) simp_all

lemma tm_central_meridian_inverse:
  assumes "TranMerc_Delta_Easting st \<ge> 0"
    and "\<bar>Northing - TranMerc_False_Northing st\<bar> \<le> TranMerc_Delta_Northing st"
    and "\<bar>TranMerc_Origin_Long st\<bar> \<le> PI_C"
  shows "\<exists>err lat. Convert_Transverse_Mercator_To_Geodetic st (TranMerc_False_Easting st) Northing =
                 (err, Some (lat, TranMerc_Origin_Long st))"
  using assms
  by (simp add: Convert_Transverse_Mercator_To_Geodetic_def tm_delta_longitude_def tm_latitude_def
      tm_wrap_longitude_def tranmerc_codes Let_def abs_le_iff)

end
