(* ===== verification/Utm.thy ===== *)
theory Utm
  imports Tran_Merc
begin

text \<open>
  \<open>libmgrs/utm.c\<close>: Universal Transverse Mercator coordinates. The record \<open>utm\<close> holds the static
  variables of \<open>utm.c\<close> together with those of \<open>tranmerc.c\<close>, which the two conversions overwrite.
  Output parameters point to variables the callers have not initialised: an output that is read
  before anything was written to it is the fault \<open>Uninitialised\<close>.
\<close>

unbundle bit_operations_syntax

section \<open>Error codes and limits\<close>

definition UTM_NO_ERROR :: int where "UTM_NO_ERROR = 0x0000"
definition UTM_LAT_ERROR :: int where "UTM_LAT_ERROR = 0x0001"
definition UTM_LON_ERROR :: int where "UTM_LON_ERROR = 0x0002"
definition UTM_EASTING_ERROR :: int where "UTM_EASTING_ERROR = 0x0004"
definition UTM_NORTHING_ERROR :: int where "UTM_NORTHING_ERROR = 0x0008"
definition UTM_ZONE_ERROR :: int where "UTM_ZONE_ERROR = 0x0010"
definition UTM_HEMISPHERE_ERROR :: int where "UTM_HEMISPHERE_ERROR = 0x0020"
definition UTM_ZONE_OVERRIDE_ERROR :: int where "UTM_ZONE_OVERRIDE_ERROR = 0x0040"
definition UTM_A_ERROR :: int where "UTM_A_ERROR = 0x0080"
definition UTM_INV_F_ERROR :: int where "UTM_INV_F_ERROR = 0x0100"

lemmas utm_codes =
  UTM_NO_ERROR_def UTM_LAT_ERROR_def UTM_LON_ERROR_def UTM_EASTING_ERROR_def UTM_NORTHING_ERROR_def
  UTM_ZONE_ERROR_def UTM_HEMISPHERE_ERROR_def UTM_ZONE_OVERRIDE_ERROR_def UTM_A_ERROR_def
  UTM_INV_F_ERROR_def

definition UTM_MIN_LAT :: real where "UTM_MIN_LAT = (- (805 / 10) * PI_C) / 180"
definition UTM_MAX_LAT :: real where "UTM_MAX_LAT = ((845 / 10) * PI_C) / 180"
definition MIN_EASTING :: real where "MIN_EASTING = 100000"
definition MAX_EASTING :: real where "MAX_EASTING = 900000"
definition MIN_NORTHING :: real where "MIN_NORTHING = 0"
definition MAX_NORTHING :: real where "MAX_NORTHING = 10000000"

lemmas utm_limits =
  UTM_MIN_LAT_def UTM_MAX_LAT_def MIN_EASTING_def MAX_EASTING_def MIN_NORTHING_def MAX_NORTHING_def

section \<open>State and parameters\<close>

record utm =
  UTM_a :: real
  UTM_f :: real
  UTM_Override :: int
  UTM_tm :: tranmerc

definition utm_init :: utm where
  "utm_init = \<lparr>UTM_a = 6378137, UTM_f = 1 / (298257223563 / 10 ^ 9), UTM_Override = 0,
               UTM_tm = tranmerc_init\<rparr>"

definition Set_UTM_Parameters :: "utm \<Rightarrow> real \<Rightarrow> real \<Rightarrow> int \<Rightarrow> utm \<times> int" where
  "Set_UTM_Parameters st a f override =
     (let inv_f = 1 / f;
          err = UTM_NO_ERROR;
          err = (if a \<le> 0 then err OR UTM_A_ERROR else err);
          err = (if inv_f < 250 \<or> inv_f > 350 then err OR UTM_INV_F_ERROR else err);
          err = (if override < 0 \<or> override > 60 then err OR UTM_ZONE_OVERRIDE_ERROR else err)
      in if err = 0 then (st\<lparr>UTM_a := a, UTM_f := f, UTM_Override := override\<rparr>, err)
         else (st, err))"

definition Get_UTM_Parameters :: "utm \<Rightarrow> real \<times> real \<times> int" where
  "Get_UTM_Parameters st = (UTM_a st, UTM_f st, UTM_Override st)"

section \<open>From geodetic to UTM\<close>

text \<open>The zone of a position, with the exceptions for Norway and Svalbard. \<open>Longitude\<close> is already
  non-negative here.\<close>

definition utm_zone :: "real \<Rightarrow> real \<Rightarrow> int" where
  "utm_zone Latitude Longitude =
     (let Lat_Degrees = trunc_to_int (Latitude * 180 / PI_C);
          Long_Degrees = trunc_to_int (Longitude * 180 / PI_C);
          temp_zone = (if Longitude < PI_C then trunc_to_int (31 + (Longitude * 180 / PI_C) / 6)
                       else trunc_to_int ((Longitude * 180 / PI_C) / 6 - 29));
          temp_zone = (if temp_zone > 60 then 1 else temp_zone);
          temp_zone = (if Lat_Degrees > 55 \<and> Lat_Degrees < 64 \<and> Long_Degrees > -1 \<and> Long_Degrees < 3
                       then 31 else temp_zone);
          temp_zone = (if Lat_Degrees > 55 \<and> Lat_Degrees < 64 \<and> Long_Degrees > 2 \<and> Long_Degrees < 12
                       then 32 else temp_zone);
          temp_zone = (if Lat_Degrees > 71 \<and> Long_Degrees > -1 \<and> Long_Degrees < 9
                       then 31 else temp_zone);
          temp_zone = (if Lat_Degrees > 71 \<and> Long_Degrees > 8 \<and> Long_Degrees < 21
                       then 33 else temp_zone);
          temp_zone = (if Lat_Degrees > 71 \<and> Long_Degrees > 20 \<and> Long_Degrees < 33
                       then 35 else temp_zone)
      in if Lat_Degrees > 71 \<and> Long_Degrees > 32 \<and> Long_Degrees < 42 then 37 else temp_zone)"

text \<open>The zone after the override parameter, \<open>None\<close> when the override is not a neighbour.\<close>

definition utm_override :: "int \<Rightarrow> real \<Rightarrow> real \<Rightarrow> int \<Rightarrow> int option" where
  "utm_override override Latitude Longitude temp_zone =
     (let Lat_Degrees = trunc_to_int (Latitude * 180 / PI_C);
          Long_Degrees = trunc_to_int (Longitude * 180 / PI_C)
      in if override \<noteq> 0 then
           (if temp_zone = 1 \<and> override = 60 then Some override
            else if temp_zone = 60 \<and> override = 1 then Some override
            else if Lat_Degrees > 71 \<and> Long_Degrees > -1 \<and> Long_Degrees < 42 then
              (if temp_zone - 2 \<le> override \<and> override \<le> temp_zone + 2 then Some override else None)
            else if temp_zone - 1 \<le> override \<and> override \<le> temp_zone + 1 then Some override
            else None)
         else Some temp_zone)"

definition utm_central_meridian :: "int \<Rightarrow> real" where
  "utm_central_meridian zone =
     (if zone \<ge> 31 then real_of_int (6 * zone - 183) * PI_C / 180
      else real_of_int (6 * zone + 177) * PI_C / 180)"

text \<open>What the function writes: the zone, the hemisphere, the easting and the northing.\<close>

record utm_position =
  utm_Zone :: int
  utm_Hemisphere :: char
  utm_Easting :: real
  utm_Northing :: real

text \<open>The last part, once the zone is settled.\<close>

definition utm_project :: "utm \<Rightarrow> real \<Rightarrow> real \<Rightarrow> int \<Rightarrow> (utm \<times> int \<times> utm_position option) res" where
  "utm_project st Latitude Longitude zone =
     (let False_Northing = (if Latitude < 0 then 10000000 else 0);
          hemisphere = (if Latitude < 0 then CHR ''S'' else CHR ''N'');
          tm = fst (Set_Transverse_Mercator_Parameters (UTM_tm st) (UTM_a st) (UTM_f st) 0
                      (utm_central_meridian zone) 500000 False_Northing (9996 / 10000));
          st = st\<lparr>UTM_tm := tm\<rparr>
      in bindR (get_init (snd (Convert_Geodetic_To_Transverse_Mercator tm Latitude Longitude)))
           (\<lambda>(easting, northing).
              let err = UTM_NO_ERROR;
                  err = (if easting < MIN_EASTING \<or> easting > MAX_EASTING then UTM_EASTING_ERROR
                         else err);
                  err = (if northing < MIN_NORTHING \<or> northing > MAX_NORTHING
                         then err OR UTM_NORTHING_ERROR else err)
              in Inr (st, err, Some \<lparr>utm_Zone = zone, utm_Hemisphere = hemisphere,
                                     utm_Easting = easting, utm_Northing = northing\<rparr>)))"

definition Convert_Geodetic_To_UTM ::
  "utm \<Rightarrow> real \<Rightarrow> real \<Rightarrow> (utm \<times> int \<times> utm_position option) res" where
  "Convert_Geodetic_To_UTM st Latitude Longitude =
     (let err = UTM_NO_ERROR;
          err = (if Latitude < UTM_MIN_LAT \<or> Latitude > UTM_MAX_LAT then err OR UTM_LAT_ERROR
                 else err);
          err = (if Longitude < - PI_C \<or> Longitude > 2 * PI_C then err OR UTM_LON_ERROR else err)
      in if err = 0 then
           (let Latitude = (if Latitude > - 1 / 10 ^ 9 \<and> Latitude < 0 then 0 else Latitude);
                Longitude = (if Longitude < 0 then Longitude + (2 * PI_C + 1 / 10 ^ 10)
                             else Longitude)
            in case utm_override (UTM_Override st) Latitude Longitude
                      (utm_zone Latitude Longitude) of
                 None \<Rightarrow> Inr (st, UTM_ZONE_OVERRIDE_ERROR, None)
               | Some zone \<Rightarrow> utm_project st Latitude Longitude zone)
         else Inr (st, err, None))"

section \<open>From UTM to geodetic\<close>

text \<open>The function reads \<open>*Latitude\<close> also when the projection did not write it. \<open>init\<close> is what the
  caller has stored in its two variables, \<open>None\<close> when it has not initialised them.\<close>

definition written_or :: "'a option \<Rightarrow> 'a option \<Rightarrow> 'a option" where
  "written_or init written = (case written of None \<Rightarrow> init | Some x \<Rightarrow> Some x)"

definition Convert_UTM_To_Geodetic_out ::
  "(real \<times> real) option \<Rightarrow> utm \<Rightarrow> int \<Rightarrow> char \<Rightarrow> real \<Rightarrow> real \<Rightarrow> (utm \<times> int \<times> (real \<times> real) option) res" where
  "Convert_UTM_To_Geodetic_out init st Zone Hemisphere Easting Northing =
     (let err = UTM_NO_ERROR;
          err = (if Zone < 1 \<or> Zone > 60 then err OR UTM_ZONE_ERROR else err);
          err = (if Hemisphere \<noteq> CHR ''S'' \<and> Hemisphere \<noteq> CHR ''N'' then err OR UTM_HEMISPHERE_ERROR
                 else err);
          err = (if Easting < MIN_EASTING \<or> Easting > MAX_EASTING then err OR UTM_EASTING_ERROR
                 else err);
          err = (if Northing < MIN_NORTHING \<or> Northing > MAX_NORTHING then err OR UTM_NORTHING_ERROR
                 else err)
      in if err = 0 then
           (let False_Northing = (if Hemisphere = CHR ''S'' then 10000000 else 0);
                tm = fst (Set_Transverse_Mercator_Parameters (UTM_tm st) (UTM_a st) (UTM_f st) 0
                            (utm_central_meridian Zone) 500000 False_Northing (9996 / 10000));
                (tm_error_code, written) = Convert_Transverse_Mercator_To_Geodetic tm Easting Northing;
                err = (if tm_error_code \<noteq> 0 \<and> tm_error_code AND TRANMERC_EASTING_ERROR \<noteq> 0
                       then err OR UTM_EASTING_ERROR else err);
                err = (if tm_error_code \<noteq> 0 \<and> tm_error_code AND TRANMERC_NORTHING_ERROR \<noteq> 0
                       then err OR UTM_NORTHING_ERROR else err)
            in bindR (get_init (written_or init written))
                 (\<lambda>(Latitude, Longitude).
                    let err = (if Latitude < UTM_MIN_LAT \<or> Latitude > UTM_MAX_LAT
                               then err OR UTM_NORTHING_ERROR else err)
                    in Inr (st\<lparr>UTM_tm := tm\<rparr>, err, Some (Latitude, Longitude))))
         else Inr (st, err, None))"

definition Convert_UTM_To_Geodetic ::
  "utm \<Rightarrow> int \<Rightarrow> char \<Rightarrow> real \<Rightarrow> real \<Rightarrow> (utm \<times> int \<times> (real \<times> real) option) res" where
  "Convert_UTM_To_Geodetic = Convert_UTM_To_Geodetic_out None"

lemma written_or_None [simp]: "written_or None written = written"
  by (simp add: written_or_def split: option.split)

lemmas Convert_UTM_To_Geodetic_unfold =
  Convert_UTM_To_Geodetic_def [THEN fun_cong, THEN fun_cong, THEN fun_cong, THEN fun_cong, THEN fun_cong,
    unfolded Convert_UTM_To_Geodetic_out_def written_or_None]

section \<open>Zones\<close>

text \<open>The longitudes \<open>Convert_Geodetic_To_UTM\<close> computes with: non-negative, and at most a hair
  beyond a full turn.\<close>

definition utm_longitude :: "real \<Rightarrow> real" where
  "utm_longitude Longitude =
     (if Longitude < 0 then Longitude + (2 * PI_C + 1 / 10 ^ 10) else Longitude)"

lemma utm_longitude_range:
  assumes "- PI_C \<le> Longitude" "Longitude \<le> 2 * PI_C"
  shows "0 \<le> utm_longitude Longitude" "utm_longitude Longitude < 2 * PI_C + 1 / 10 ^ 10"
  using assms by (auto simp: utm_longitude_def PI_C_def)

text \<open>The distance in degrees between a longitude in degrees and the middle of a zone, the
  longitude counted from 0 or, for the zones east of Greenwich reached after a full turn, from 360.\<close>

definition zone_middle :: "int \<Rightarrow> real" where
  "zone_middle zone = (if zone \<ge> 31 then real_of_int (6 * zone - 183)
                       else real_of_int (6 * zone + 177))"

lemma utm_central_meridian_eq: "utm_central_meridian zone = zone_middle zone * PI_C / 180"
  by (simp add: utm_central_meridian_def zone_middle_def)

lemma regular_zone:
  fixes x :: real
  assumes "0 \<le> x" "x < 361"
    and z: "z = (if x < 180 then \<lfloor>31 + x / 6\<rfloor> else \<lfloor>x / 6 - 29\<rfloor>)"
  shows "1 \<le> z \<and> z \<le> 60 \<and>
    (\<bar>x - zone_middle z\<bar> \<le> 3 \<or> 360 \<le> x \<and> \<bar>x - 360 - zone_middle z\<bar> \<le> 3)"
proof (cases "x < 180")
  case True
  then have "of_int z \<le> 31 + x / 6" "31 + x / 6 < of_int z + 1"
    using z by (simp_all only: if_True of_int_floor_le real_of_int_floor_add_one_gt)
  with True assms(1) show ?thesis
    by (auto simp: zone_middle_def abs_le_iff)
next
  case False
  then have "of_int z \<le> x / 6 - 29" "x / 6 - 29 < of_int z + 1"
    using z by (simp_all only: if_False of_int_floor_le real_of_int_floor_add_one_gt)
  with False assms(1,2) show ?thesis
    by (cases "z \<ge> 31") (auto simp: zone_middle_def abs_le_iff)
qed

lemma utm_zone_ok:
  fixes Latitude Longitude :: real
  assumes "0 \<le> Longitude" "Longitude < 2 * PI_C + 1 / 10 ^ 10"
  defines "x \<equiv> Longitude * 180 / PI_C" and "z \<equiv> utm_zone Latitude Longitude"
  shows "1 \<le> z \<and> z \<le> 60 \<and> (\<bar>x - zone_middle z\<bar> \<le> 6 \<or> 360 \<le> x \<and> \<bar>x - 360 - zone_middle z\<bar> \<le> 3)"
proof -
  define reg where "reg = (if x < 180 then \<lfloor>31 + x / 6\<rfloor> else \<lfloor>x / 6 - 29\<rfloor>)"
  have x: "0 \<le> x" "x < 361"
    using assms by (auto simp: x_def PI_C_def field_simps)
  note reg = regular_zone [OF x reg_def]
  have lt: "Longitude < PI_C \<longleftrightarrow> x < 180"
    by (simp add: x_def PI_C_def field_simps)
  have n: "of_int \<lfloor>x\<rfloor> \<le> x" "x < of_int \<lfloor>x\<rfloor> + 1"
    by simp_all
  have trunc: "trunc_to_int x = \<lfloor>x\<rfloor>" "(if x < 180 then trunc_to_int (31 + x / 6)
      else trunc_to_int (x / 6 - 29)) = reg"
    using x by (simp_all add: trunc_to_int_nonneg reg_def)
  define n where "n = \<lfloor>x\<rfloor>"
  have "z = reg \<or> (0 \<le> n \<and> n < 9 \<and> z = 31) \<or> (3 \<le> n \<and> n < 12 \<and> z = 32) \<or> (9 \<le> n \<and> n < 21 \<and> z = 33) \<or>
      (21 \<le> n \<and> n < 33 \<and> z = 35) \<or> (33 \<le> n \<and> n < 42 \<and> z = 37)"
    using reg unfolding z_def utm_zone_def Let_def lt x_def [symmetric] trunc n_def [symmetric]
    by auto
  moreover have ?thesis if "z = reg"
    using reg that by auto
  ultimately show ?thesis
    using n unfolding n_def [symmetric]
    by (elim disjE) (simp_all add: zone_middle_def abs_le_iff)
qed

section \<open>The conversions write their outputs\<close>

text \<open>The ellipsoid parameters the functions accept.\<close>

definition utm_ok :: "utm \<Rightarrow> bool" where
  "utm_ok st \<longleftrightarrow> UTM_a st > 0 \<and> 250 \<le> 1 / UTM_f st \<and> 1 / UTM_f st \<le> 350 \<and>
     0 \<le> UTM_Override st \<and> UTM_Override st \<le> 60"

lemma utm_ok_init: "utm_ok utm_init"
  by (simp add: utm_ok_def utm_init_def)

lemma Set_UTM_Parameters_ok: "utm_ok st \<Longrightarrow> utm_ok (fst (Set_UTM_Parameters st a f override))"
  by (auto simp: Set_UTM_Parameters_def utm_ok_def Let_def utm_codes or_eq_0_iff)

lemma zone_middle_range: "1 \<le> z \<Longrightarrow> z \<le> 60 \<Longrightarrow> 3 \<le> zone_middle z \<and> zone_middle z \<le> 357"
  by (simp add: zone_middle_def)

lemma utm_tm_params_ok:
  assumes "utm_ok st" "1 \<le> z" "z \<le> 60"
  shows "tm_params_ok (UTM_a st) (UTM_f st) 0 (utm_central_meridian z) (9996 / 10000)"
  using assms zone_middle_range [OF assms(2,3)]
  by (simp add: tm_params_ok_def utm_ok_def utm_central_meridian_eq PI_OVER_2_def
      MIN_SCALE_FACTOR_def MAX_SCALE_FACTOR_def PI_C_def)

lemma tm_reduce_central_meridian:
  assumes "1 \<le> z" "z \<le> 60"
  shows "\<bar>tm_reduce (utm_central_meridian z)\<bar> \<le> PI_C"
  using zone_middle_range [OF assms]
  by (simp add: tm_reduce_def utm_central_meridian_eq PI_C_def abs_if)

text \<open>A position of a zone is within the range of the projection of the zone.\<close>

lemma zone_longitude_in_range:
  assumes "0 \<le> l" "l < 2 * PI_C + 1 / 10 ^ 10" "1 \<le> z" "z \<le> 60"
    and near: "\<bar>l * 180 / PI_C - zone_middle z\<bar> \<le> 6 \<or>
      360 \<le> l * 180 / PI_C \<and> \<bar>l * 180 / PI_C - 360 - zone_middle z\<bar> \<le> 3"
    and origin: "TranMerc_Origin_Long st = tm_reduce (utm_central_meridian z)"
  shows "\<not> tm_lon_out_of_range st (tm_reduce l)"
proof -
  let ?m = "zone_middle z * PI_C / 180"
  define d where "d = (if \<bar>l - ?m\<bar> \<le> 6 * PI_C / 180 then l - ?m else l - 2 * PI_C - ?m)"
  have "\<bar>l - ?m\<bar> \<le> 6 * PI_C / 180 \<or> 2 * PI_C \<le> l \<and> \<bar>l - 2 * PI_C - ?m\<bar> \<le> 3 * PI_C / 180"
    using near by (auto simp: PI_C_def field_simps abs_if split: if_splits)
  then have d: "\<bar>d\<bar> \<le> MAX_DELTA_LONG" "l = ?m + d \<or> l = ?m + d + 2 * PI_C \<and> 2 * PI_C \<le> l"
    by (auto simp: d_def MAX_DELTA_LONG_def PI_C_def)
  have "\<bar>tm_reduce l\<bar> \<le> PI_C"
    using assms(1,2) by (simp add: tm_reduce_def PI_C_def abs_if)
  moreover have "tm_reduce l = TranMerc_Origin_Long st + d \<or>
      tm_reduce l = TranMerc_Origin_Long st + d - 2 * PI_C \<or>
      tm_reduce l = TranMerc_Origin_Long st + d + 2 * PI_C"
    using d(2) unfolding origin utm_central_meridian_eq tm_reduce_def
    by (auto simp: PI_C_def)
  ultimately show ?thesis
    using tm_reduce_central_meridian [OF assms(3,4)] d(1) unfolding origin [symmetric]
    by (intro tm_lon_in_range)
qed

text \<open>The state the two conversions leave in the projection.\<close>

definition utm_tm_state :: "utm \<Rightarrow> int \<Rightarrow> real \<Rightarrow> tranmerc" where
  "utm_tm_state st z False_Northing =
     tm_state (UTM_a st) (UTM_f st) 0 (tm_reduce (utm_central_meridian z)) 500000 False_Northing
       (9996 / 10000)"

lemma utm_set_parameters:
  assumes "utm_ok st" "1 \<le> z" "z \<le> 60"
  shows "fst (Set_Transverse_Mercator_Parameters tm (UTM_a st) (UTM_f st) 0
           (utm_central_meridian z) 500000 fn (9996 / 10000)) = utm_tm_state st z fn"
  using Set_Transverse_Mercator_Parameters_ok [OF utm_tm_params_ok [OF assms]]
  by (simp add: utm_tm_state_def)

lemma utm_tm_state_frame [simp]:
  assumes "1 \<le> z" "z \<le> 60"
  shows "TranMerc_Origin_Long (utm_tm_state st z fn) = tm_reduce (utm_central_meridian z)"
    and "TranMerc_False_Easting (utm_tm_state st z fn) = 500000"
    and "TranMerc_False_Northing (utm_tm_state st z fn) = fn"
  using tm_reduce_central_meridian [OF assms] by (simp_all add: utm_tm_state_def)

lemma utm_tm_state_cong:
  "utm_tm_state (st\<lparr>UTM_tm := t\<rparr>) z fn = utm_tm_state st z fn"
  "utm_ok (st\<lparr>UTM_tm := t\<rparr>) = utm_ok st"
  by (simp_all add: utm_tm_state_def utm_ok_def)

text \<open>The easting and the northing of a position in a zone.\<close>

definition utm_xy :: "utm \<Rightarrow> int \<Rightarrow> real \<Rightarrow> real \<Rightarrow> real \<times> real" where
  "utm_xy st z lat l =
     (let tm = utm_tm_state st z (if lat < 0 then 10000000 else 0); d = tm_dlam tm (tm_reduce l)
      in (tm_easting tm lat d, tm_northing tm lat d))"

lemma utm_project_written:
  assumes "utm_ok st" "1 \<le> z" "z \<le> 60" "\<bar>lat\<bar> \<le> TM_MAX_LAT"
    and range: "\<And>tm. TranMerc_Origin_Long tm = tm_reduce (utm_central_meridian z) \<Longrightarrow>
      \<not> tm_lon_out_of_range tm (tm_reduce l)"
    and en: "utm_xy st z lat l = (e, n)"
  shows "\<exists>err. utm_project st lat l z =
      Inr (st\<lparr>UTM_tm := utm_tm_state st z (if lat < 0 then 10000000 else 0)\<rparr>, err,
           Some \<lparr>utm_Zone = z, utm_Hemisphere = (if lat < 0 then CHR ''S'' else CHR ''N''),
                 utm_Easting = e, utm_Northing = n\<rparr>) \<and>
      (err = UTM_NO_ERROR \<longleftrightarrow> MIN_EASTING \<le> e \<and> e \<le> MAX_EASTING \<and> MIN_NORTHING \<le> n \<and> n \<le> MAX_NORTHING)"
proof -
  have "\<not> tm_lon_out_of_range (utm_tm_state st z fn) (tm_reduce l)" for fn
    using assms(2,3) by (intro range) simp
  then have conv: "snd (Convert_Geodetic_To_Transverse_Mercator
      (utm_tm_state st z (if lat < 0 then 10000000 else 0)) lat l) = Some (e, n)"
    using assms(4) en by (simp add: tm_convert_written_iff utm_xy_def Let_def)
  define err where "err =
    (if n < MIN_NORTHING \<or> n > MAX_NORTHING
     then (if e < MIN_EASTING \<or> e > MAX_EASTING then UTM_EASTING_ERROR else UTM_NO_ERROR)
            OR UTM_NORTHING_ERROR
     else (if e < MIN_EASTING \<or> e > MAX_EASTING then UTM_EASTING_ERROR else UTM_NO_ERROR))"
  have "err = UTM_NO_ERROR \<longleftrightarrow>
      MIN_EASTING \<le> e \<and> e \<le> MAX_EASTING \<and> MIN_NORTHING \<le> n \<and> n \<le> MAX_NORTHING"
    by (auto simp: err_def utm_codes or_eq_0_iff)
  moreover have "utm_project st lat l z =
      Inr (st\<lparr>UTM_tm := utm_tm_state st z (if lat < 0 then 10000000 else 0)\<rparr>, err,
           Some \<lparr>utm_Zone = z, utm_Hemisphere = (if lat < 0 then CHR ''S'' else CHR ''N''),
                 utm_Easting = e, utm_Northing = n\<rparr>)"
    unfolding utm_project_def Let_def utm_set_parameters [OF assms(1-3)] conv
    by (simp only: get_init_simps bindR_simps prod.case err_def)
  ultimately show ?thesis
    by (intro exI [of _ err] conjI)
qed

lemma Convert_Geodetic_To_UTM_written:
  assumes "utm_ok st" "UTM_Override st = 0" "UTM_MIN_LAT \<le> lat" "lat \<le> UTM_MAX_LAT"
    and "- PI_C \<le> lon" "lon \<le> 2 * PI_C"
  defines "lat' \<equiv> if lat > - 1 / 10 ^ 9 \<and> lat < 0 then 0 else lat"
  defines "z \<equiv> utm_zone lat' (utm_longitude lon)"
  assumes en: "utm_xy st z lat' (utm_longitude lon) = (e, n)"
  shows "\<exists>err. Convert_Geodetic_To_UTM st lat lon =
      Inr (st\<lparr>UTM_tm := utm_tm_state st z (if lat' < 0 then 10000000 else 0)\<rparr>, err,
           Some \<lparr>utm_Zone = z, utm_Hemisphere = (if lat' < 0 then CHR ''S'' else CHR ''N''),
                 utm_Easting = e, utm_Northing = n\<rparr>) \<and>
      (err = UTM_NO_ERROR \<longleftrightarrow> MIN_EASTING \<le> e \<and> e \<le> MAX_EASTING \<and> MIN_NORTHING \<le> n \<and> n \<le> MAX_NORTHING)"
proof -
  let ?l = "utm_longitude lon"
  note l = utm_longitude_range [OF assms(5,6)]
  note z = utm_zone_ok [OF l, of lat', folded z_def]
  have "\<bar>lat'\<bar> \<le> TM_MAX_LAT"
    using assms(3,4) by (auto simp: lat'_def UTM_MIN_LAT_def UTM_MAX_LAT_def TM_MAX_LAT_def PI_C_def)
  then have "\<exists>err. utm_project st lat' ?l z =
      Inr (st\<lparr>UTM_tm := utm_tm_state st z (if lat' < 0 then 10000000 else 0)\<rparr>, err,
           Some \<lparr>utm_Zone = z, utm_Hemisphere = (if lat' < 0 then CHR ''S'' else CHR ''N''),
                 utm_Easting = e, utm_Northing = n\<rparr>) \<and>
      (err = UTM_NO_ERROR \<longleftrightarrow> MIN_EASTING \<le> e \<and> e \<le> MAX_EASTING \<and> MIN_NORTHING \<le> n \<and> n \<le> MAX_NORTHING)"
    using z assms(1) l en by (intro utm_project_written zone_longitude_in_range) auto
  moreover have "Convert_Geodetic_To_UTM st lat lon = utm_project st lat' ?l z"
    using assms(2-6)
    by (simp add: Convert_Geodetic_To_UTM_def Let_def utm_codes utm_override_def z_def lat'_def
        utm_longitude_def not_less)
  ultimately show ?thesis
    by simp
qed

section \<open>The conversion to geodetic\<close>

text \<open>The result does not depend on what the projection was last used for.\<close>

lemma Convert_UTM_To_Geodetic_tm_irrelevant:
  assumes "utm_ok st"
  shows "mapR snd (Convert_UTM_To_Geodetic (st\<lparr>UTM_tm := t\<rparr>) z h e n) =
         mapR snd (Convert_UTM_To_Geodetic st z h e n)"
proof (cases "1 \<le> z \<and> z \<le> 60")
  case True
  then show ?thesis
    using assms utm_set_parameters [OF assms, of z]
    by (simp add: Convert_UTM_To_Geodetic_unfold Let_def mapR_def bindR_def split: prod.split sum.split)
next
  case False
  then show ?thesis
    by (auto simp: Convert_UTM_To_Geodetic_unfold Let_def utm_codes or_eq_0_iff mapR_def)
qed

lemma bindR_if_fst:
  "(if P then bindR a (\<lambda>p. Inr (x, F p)) else Inr (y, c)) = Inr (s, r) \<Longrightarrow> s = x \<or> s = y"
  by (auto simp: bindR_Inr_iff split: if_splits)

lemma Convert_UTM_To_Geodetic_frame:
  assumes "Convert_UTM_To_Geodetic st z h e n = Inr (st', r)"
  shows "\<exists>t. st' = st\<lparr>UTM_tm := t\<rparr>"
proof -
  have "\<exists>t. st = st\<lparr>UTM_tm := t\<rparr>" by (intro exI [of _ "UTM_tm st"]) simp
  then show ?thesis
    using bindR_if_fst [OF assms [unfolded Convert_UTM_To_Geodetic_unfold Let_def case_prod_beta]] by blast
qed

lemma tm_wrap_longitude_range:
  assumes "snd (tm_wrap_longitude l err) = err'" "err' AND TRANMERC_EASTING_ERROR = 0"
  shows "\<bar>fst (tm_wrap_longitude l err)\<bar> \<le> PI_C"
  using assms
  by (auto simp: tm_wrap_longitude_def Let_def tranmerc_codes bit.conj_disj_distrib2
      or_eq_0_iff abs_if not_less split: if_splits)

lemma Convert_TM_To_Geodetic_range:
  assumes "Convert_Transverse_Mercator_To_Geodetic st e n = (err, Some (lat, lon))"
    and "err AND TRANMERC_EASTING_ERROR = 0"
  shows "\<bar>lon\<bar> \<le> PI_C"
proof -
  from assms(1) obtain l err0 err1 where
    "tm_wrap_longitude l err0 = (lon, err1)" "err = err1 \<or> err = err1 OR TRANMERC_LON_WARNING"
    by (auto simp: Convert_Transverse_Mercator_To_Geodetic_def Let_def split: if_splits prod.splits)
  then show ?thesis
    using assms(2) tm_wrap_longitude_range [of l err0 err1]
    by (auto simp: bit.conj_disj_distrib2 or_eq_0_iff)
qed

lemma Convert_UTM_To_Geodetic_written:
  assumes "Convert_UTM_To_Geodetic st z h e n = Inr (st', err, Some (lat, lon))"
  obtains tm code where "Convert_Transverse_Mercator_To_Geodetic tm e n = (code, Some (lat, lon))"
    and "err = UTM_NO_ERROR \<Longrightarrow> code AND TRANMERC_EASTING_ERROR = 0"
    and "err = UTM_NO_ERROR \<Longrightarrow> UTM_MIN_LAT \<le> lat \<and> lat \<le> UTM_MAX_LAT"
proof -
  define tm where "tm = fst (Set_Transverse_Mercator_Parameters (UTM_tm st) (UTM_a st) (UTM_f st) 0
    (utm_central_meridian z) 500000 (if h = CHR ''S'' then 10000000 else 0) (9996 / 10000))"
  obtain code w where conv: "Convert_Transverse_Mercator_To_Geodetic tm e n = (code, w)"
    by fastforce
  show thesis
    using assms unfolding Convert_UTM_To_Geodetic_unfold Let_def tm_def [symmetric] conv
    by (intro that [of tm code])
      (auto simp: conv bindR_Inr_iff get_init_def utm_codes or_eq_0_iff
        split: if_splits option.splits)
qed

lemma Convert_UTM_To_Geodetic_range:
  assumes "Convert_UTM_To_Geodetic st z h e n = Inr (st', UTM_NO_ERROR, Some (lat, lon))"
  shows "UTM_MIN_LAT \<le> lat \<and> lat \<le> UTM_MAX_LAT \<and> \<bar>lon\<bar> \<le> PI_C"
  using assms by (elim Convert_UTM_To_Geodetic_written) (auto dest: Convert_TM_To_Geodetic_range)

section \<open>Properties of the projection\<close>

text \<open>C26: every position between 80.5 degrees south and 84.5 degrees north has UTM coordinates: the
  conversion reads nothing uninitialised and writes a zone whose middle is at most six degrees away,
  the hemisphere, and the easting and northing, which depend on the ellipsoid and the position only.
  The error code is zero exactly when they are in the range of UTM coordinates.\<close>

theorem Convert_Geodetic_To_UTM_total:
  assumes "utm_ok st" "UTM_Override st = 0" "UTM_MIN_LAT \<le> lat" "lat \<le> UTM_MAX_LAT"
    and "- PI_C \<le> lon" "lon \<le> 2 * PI_C"
  defines "lat' \<equiv> if lat > - 1 / 10 ^ 9 \<and> lat < 0 then 0 else lat"
  defines "z \<equiv> utm_zone lat' (utm_longitude lon)" and "l \<equiv> utm_longitude lon * 180 / PI_C"
  shows "1 \<le> z \<and> z \<le> 60 \<and> (\<bar>l - zone_middle z\<bar> \<le> 6 \<or> 360 \<le> l \<and> \<bar>l - 360 - zone_middle z\<bar> \<le> 3) \<and>
    (\<exists>st' err e n. Convert_Geodetic_To_UTM st lat lon = Inr (st', err,
       Some \<lparr>utm_Zone = z, utm_Hemisphere = (if lat' < 0 then CHR ''S'' else CHR ''N''),
             utm_Easting = e, utm_Northing = n\<rparr>) \<and>
     (e, n) = utm_xy st z lat' (utm_longitude lon) \<and>
     (err = UTM_NO_ERROR \<longleftrightarrow> MIN_EASTING \<le> e \<and> e \<le> MAX_EASTING \<and> MIN_NORTHING \<le> n \<and> n \<le> MAX_NORTHING))"
proof -
  obtain e n where en: "utm_xy st z lat' (utm_longitude lon) = (e, n)" by fastforce
  show ?thesis
    using utm_zone_ok [OF utm_longitude_range [OF assms(5,6)], of lat'] en
      Convert_Geodetic_To_UTM_written [OF assms(1-6), of e n]
    unfolding lat'_def z_def l_def by fastforce
qed

lemma utm_zone_3_degrees: "utm_zone 0 (PI_C / 60) = 31"
  by (simp add: utm_zone_def trunc_to_int_def PI_C_def)

theorem Convert_Geodetic_To_UTM_total_witness:
  "\<exists>st' err e n. Convert_Geodetic_To_UTM utm_init 0 (PI_C / 60) =
     Inr (st', err, Some \<lparr>utm_Zone = 31, utm_Hemisphere = CHR ''N'', utm_Easting = e, utm_Northing = n\<rparr>)"
proof -
  have l: "utm_longitude (PI_C / 60) = PI_C / 60" by (simp add: utm_longitude_def PI_C_def)
  have "UTM_Override utm_init = 0" by (simp add: utm_init_def)
  moreover have "UTM_MIN_LAT \<le> 0" "0 \<le> UTM_MAX_LAT" "- PI_C \<le> PI_C / 60" "PI_C / 60 \<le> 2 * PI_C"
    by (simp_all add: utm_limits PI_C_def)
  ultimately show ?thesis
    using Convert_Geodetic_To_UTM_total [of utm_init 0 "PI_C / 60", OF utm_ok_init]
    unfolding l by (simp only: utm_zone_3_degrees less_irrefl if_False conj_absorb simp_thms) metis
qed

text \<open>C27: the parameters of the projection are set exactly when all of them are valid, the new state
  depends on the arguments only, and a rejected call returns an error code and keeps the state.\<close>

theorem Set_Transverse_Mercator_Parameters_correct:
  "fst (Set_Transverse_Mercator_Parameters st a f lat0 cm fe fn k) =
     (if tm_params_ok a f lat0 cm k then tm_state a f lat0 (tm_reduce cm) fe fn k else st) \<and>
   (snd (Set_Transverse_Mercator_Parameters st a f lat0 cm fe fn k) = TRANMERC_NO_ERROR) =
     tm_params_ok a f lat0 cm k"
  by (cases "tm_params_ok a f lat0 cm k")
    (simp_all add: Set_Transverse_Mercator_Parameters_ok Set_Transverse_Mercator_Parameters_err)



end
