(* ===== verification/Terrain_Map.thy ===== *)
theory Terrain_Map
  imports Utm
begin

text \<open>
  \<open>model/Map.h\<close>, \<open>model/Map.cpp\<close> and \<open>Utils::convertToUtm\<close>: the height map and its bilinear
  interpolation. The cells come from \<open>malloc\<close> and the constructor leaves the borders, the zone and
  the hemisphere unset; all of these are options, and reading one before it is written is the
  fault \<open>Uninitialised\<close>. The static variables of the conversion library are passed and returned.
\<close>

section \<open>The map\<close>

record tmap =
  m_width :: nat
  m_length :: nat
  m_cell_width :: real
  m_cell_length :: real
  m_data :: "real option list list"
  m_north_border :: "real option"
  m_west_border :: "real option"
  m_utm :: bool
  m_zone :: "int option"
  m_hemisphere :: "char option"

definition Map_new :: "real option list list \<Rightarrow> nat \<Rightarrow> nat \<Rightarrow> real \<Rightarrow> real \<Rightarrow> tmap" where
  "Map_new cells width len cellWidth cellLength =
     \<lparr>m_width = width, m_length = len, m_cell_width = cellWidth, m_cell_length = cellLength,
      m_data = cells, m_north_border = None, m_west_border = None, m_utm = True,
      m_zone = None, m_hemisphere = None\<rparr>"

definition init_map_data :: "nat \<Rightarrow> nat \<Rightarrow> real option list list" where
  "init_map_data rows cols = replicate rows (replicate cols None)"

definition setNorthBorder :: "tmap \<Rightarrow> real \<Rightarrow> tmap" where
  "setNorthBorder m northBorder = m\<lparr>m_north_border := Some northBorder\<rparr>"

definition setWestBorder :: "tmap \<Rightarrow> real \<Rightarrow> tmap" where
  "setWestBorder m westBorder = m\<lparr>m_west_border := Some westBorder\<rparr>"

definition setUtm :: "tmap \<Rightarrow> bool \<Rightarrow> tmap" where
  "setUtm m utm = m\<lparr>m_utm := utm\<rparr>"

definition setZone :: "tmap \<Rightarrow> int \<Rightarrow> tmap" where
  "setZone m zone = m\<lparr>m_zone := Some zone\<rparr>"

definition setHemisphere :: "tmap \<Rightarrow> char \<Rightarrow> tmap" where
  "setHemisphere m hemisphere = m\<lparr>m_hemisphere := Some hemisphere\<rparr>"

section \<open>Heights\<close>

definition MINDOUBLE :: real where
  "MINDOUBLE = 1 / 2 ^ 1022"

text \<open>The index computation of \<open>get_height_wo_interpol\<close> in one direction.\<close>

definition clamp_index :: "real \<Rightarrow> nat \<Rightarrow> int" where
  "clamp_index v n =
     (if v > real n - 1 then int n - 1 else if v < 0 then 0 else trunc_to_int v)"

text \<open>The corner: 1 is top left, 2 top right, 3 bottom right, 4 bottom left. The first function is
  for the rows, the second for the columns.\<close>

definition corner_funs :: "int \<Rightarrow> ((real \<Rightarrow> real) \<times> (real \<Rightarrow> real)) option" where
  "corner_funs corner =
     (if corner = 1 then Some (floor2, floor2)
      else if corner = 2 then Some (floor2, ceil2)
      else if corner = 3 then Some (ceil2, ceil2)
      else if corner = 4 then Some (ceil2, floor2)
      else None)"

definition get_height_wo_interpol :: "tmap \<Rightarrow> real \<Rightarrow> real \<Rightarrow> int \<Rightarrow> real res" where
  "get_height_wo_interpol m lon lat corner =
     (case corner_funs corner of
        None \<Rightarrow> Inr MINDOUBLE
      | Some (fun1, fun2) \<Rightarrow>
          bindR (get_init (m_north_border m)) (\<lambda>north_border.
          bindR (div_d (north_border - lat) (m_cell_length m)) (\<lambda>v.
          bindR (get_init (m_west_border m)) (\<lambda>west_border.
          bindR (div_d (lon - west_border) (m_cell_width m)) (\<lambda>u.
          bindR (get_at (m_data m) (clamp_index (fun1 v) (m_length m))) (\<lambda>row.
          bindR (get_at row (clamp_index (fun2 u) (m_width m))) get_init))))))"

text \<open>The interpolation, once the position is geodetic and in degrees.\<close>

definition interpolate :: "tmap \<Rightarrow> real \<Rightarrow> real \<Rightarrow> real res" where
  "interpolate m x y =
     bindR (get_height_wo_interpol m x y 1) (\<lambda>top_left.
     bindR (get_height_wo_interpol m x y 2) (\<lambda>top_right.
     bindR (get_height_wo_interpol m x y 3) (\<lambda>bottom_right.
     bindR (get_height_wo_interpol m x y 4) (\<lambda>bottom_left.
     bindR (get_init (m_west_border m)) (\<lambda>west_border.
     bindR (div_d (x - west_border) (m_cell_width m)) (\<lambda>u.
     bindR (get_init (m_north_border m)) (\<lambda>north_border.
     bindR (div_d \<bar>y - north_border\<bar> (m_cell_length m)) (\<lambda>v.
       let x_fract = u - floor2 u; y_fract = v - floor2 v
       in Inr (0 + top_left * (1 - x_fract) * (1 - y_fract) + top_right * x_fract * (1 - y_fract)
               + bottom_right * x_fract * y_fract + bottom_left * (1 - x_fract) * y_fract)))))))))"

definition get_height_convert :: "utm \<Rightarrow> tmap \<Rightarrow> real \<Rightarrow> real \<Rightarrow> bool \<Rightarrow> (utm \<times> real) res" where
  "get_height_convert st m lon lat convert =
     (if convert then
        bindR (get_init (m_zone m)) (\<lambda>zone.
        bindR (get_init (m_hemisphere m)) (\<lambda>hemisphere.
        bindR (Convert_UTM_To_Geodetic st zone hemisphere lon lat) (\<lambda>(st', err, written).
          if err \<noteq> 0 then Inl (Exit 18)
          else bindR (get_init written) (\<lambda>(y, x).
               mapR (Pair st') (interpolate m (r2d x) (r2d y))))))
      else mapR (Pair st) (interpolate m lon lat))"

definition get_height :: "utm \<Rightarrow> tmap \<Rightarrow> real \<Rightarrow> real \<Rightarrow> (utm \<times> real) res" where
  "get_height st m lon lat = get_height_convert st m lon lat (m_utm m)"

section \<open>Utils::convertToUtm\<close>

definition convertToUtm ::
  "utm \<Rightarrow> real \<Rightarrow> real \<Rightarrow> tmap \<Rightarrow> (utm \<times> tmap \<times> (real \<times> real)) res" where
  "convertToUtm st latitude longitude m =
     bindR (Convert_Geodetic_To_UTM st (d2r latitude) (d2r longitude)) (\<lambda>(st', err, written).
       if err \<noteq> 0 then Inl (Exit 13)
       else bindR (get_init written) (\<lambda>p.
            Inr (st', setHemisphere (setZone m (utm_Zone p)) (utm_Hemisphere p),
                 (utm_Easting p, utm_Northing p))))"

section \<open>Lookups in a filled map\<close>

text \<open>A map whose borders are set and whose cells all hold a height.\<close>

definition map_filled :: "tmap \<Rightarrow> bool" where
  "map_filled m \<longleftrightarrow> 0 < m_width m \<and> 0 < m_length m \<and> m_cell_width m > 0 \<and> m_cell_length m > 0 \<and>
     m_north_border m \<noteq> None \<and> m_west_border m \<noteq> None \<and>
     length (m_data m) = m_length m \<and> (\<forall>row \<in> set (m_data m). length row = m_width m) \<and>
     (\<forall>row \<in> set (m_data m). None \<notin> set row)"

definition cell :: "tmap \<Rightarrow> nat \<Rightarrow> nat \<Rightarrow> real" where
  "cell m i j = the (m_data m ! i ! j)"

lemma clamp_index_range:
  assumes "0 < n"
  shows "0 \<le> clamp_index v n \<and> clamp_index v n < int n"
  using assms by (auto simp: clamp_index_def trunc_to_int_def) linarith

lemma map_filled_cell:
  assumes "map_filled m" "i < m_length m" "j < m_width m"
  shows "length (m_data m) = m_length m" "length (m_data m ! i) = m_width m"
    "m_data m ! i ! j = Some (cell m i j)"
proof -
  have "m_data m ! i \<in> set (m_data m)"
    using assms by (simp add: map_filled_def)
  then have "length (m_data m ! i) = m_width m" "None \<notin> set (m_data m ! i)"
    using assms by (auto simp: map_filled_def)
  then show "length (m_data m) = m_length m" "length (m_data m ! i) = m_width m"
    "m_data m ! i ! j = Some (cell m i j)"
    using assms by (auto simp: map_filled_def cell_def in_set_conv_nth)
qed

lemma get_height_wo_interpol_filled:
  assumes "map_filled m" "corner_funs corner = Some (fun1, fun2)"
    and "m_north_border m = Some north" "m_west_border m = Some west"
  shows "get_height_wo_interpol m lon lat corner =
    Inr (cell m (nat (clamp_index (fun1 ((north - lat) / m_cell_length m)) (m_length m)))
                (nat (clamp_index (fun2 ((lon - west) / m_cell_width m)) (m_width m))))"
proof -
  let ?i = "clamp_index (fun1 ((north - lat) / m_cell_length m)) (m_length m)"
  let ?j = "clamp_index (fun2 ((lon - west) / m_cell_width m)) (m_width m)"
  have "0 \<le> ?i \<and> ?i < int (m_length m)" "0 \<le> ?j \<and> ?j < int (m_width m)"
    "m_cell_width m \<noteq> 0" "m_cell_length m \<noteq> 0"
    using assms(1) clamp_index_range by (simp_all add: map_filled_def)
  then show ?thesis
    using assms(2-4) map_filled_cell [OF assms(1), of "nat ?i" "nat ?j"]
    by (simp add: get_height_wo_interpol_def nat_less_iff)
qed

section \<open>Interpolation\<close>

text \<open>The fractional parts the weights are made of.\<close>

definition fract_part :: "real \<Rightarrow> real" where
  "fract_part v = v - floor2 v"

definition bilinear :: "real \<Rightarrow> real \<Rightarrow> real \<Rightarrow> real \<Rightarrow> real \<Rightarrow> real \<Rightarrow> real" where
  "bilinear a1 a2 a3 a4 s t =
     0 + a1 * (1 - s) * (1 - t) + a2 * s * (1 - t) + a3 * s * t + a4 * (1 - s) * t"

lemma convex_bound:
  fixes a b s lo hi :: real
  assumes "lo \<le> a \<and> a \<le> hi" "lo \<le> b \<and> b \<le> hi" "0 \<le> s" "s \<le> 1"
  shows "lo \<le> a * (1 - s) + b * s \<and> a * (1 - s) + b * s \<le> hi"
proof
  have "lo * (1 - s) + lo * s \<le> a * (1 - s) + b * s"
    using assms by (intro add_mono mult_right_mono) simp_all
  then show "lo \<le> a * (1 - s) + b * s"
    by (simp add: algebra_simps)
  have "a * (1 - s) + b * s \<le> hi * (1 - s) + hi * s"
    using assms by (intro add_mono mult_right_mono) simp_all
  then show "a * (1 - s) + b * s \<le> hi"
    by (simp add: algebra_simps)
qed

lemma bilinear_bound:
  assumes "lo \<le> a1 \<and> a1 \<le> hi" "lo \<le> a2 \<and> a2 \<le> hi" "lo \<le> a3 \<and> a3 \<le> hi" "lo \<le> a4 \<and> a4 \<le> hi"
    and "0 \<le> s" "s \<le> 1" "0 \<le> t" "t \<le> 1"
  shows "lo \<le> bilinear a1 a2 a3 a4 s t \<and> bilinear a1 a2 a3 a4 s t \<le> hi"
proof -
  have "bilinear a1 a2 a3 a4 s t =
      (a1 * (1 - s) + a2 * s) * (1 - t) + (a4 * (1 - s) + a3 * s) * t"
    by (simp add: bilinear_def algebra_simps)
  then show ?thesis
    using assms by (simp only:) (intro convex_bound)
qed

lemma interpolate_filled:
  assumes "map_filled m" "m_north_border m = Some north" "m_west_border m = Some west"
  defines "u \<equiv> \<lambda>x. (x - west) / m_cell_width m" and "v \<equiv> \<lambda>y. (north - y) / m_cell_length m"
  defines "c \<equiv> \<lambda>f g x y. cell m (nat (clamp_index (f (v y)) (m_length m)))
                               (nat (clamp_index (g (u x)) (m_width m)))"
  shows "interpolate m x y =
    Inr (bilinear (c floor2 floor2 x y) (c floor2 ceil2 x y) (c ceil2 ceil2 x y)
           (c ceil2 floor2 x y) (fract_part (u x)) (fract_part (\<bar>y - north\<bar> / m_cell_length m)))"
proof -
  have "m_cell_width m \<noteq> 0" "m_cell_length m \<noteq> 0"
    using assms(1) by (simp_all add: map_filled_def)
  then show ?thesis
    using get_height_wo_interpol_filled [OF assms(1) _ assms(2,3)] assms(2,3)
    by (simp add: interpolate_def corner_funs_def u_def v_def c_def Let_def bilinear_def
        fract_part_def)
qed

lemma clamp_index_of_nat: "k < n \<Longrightarrow> clamp_index (real k) n = int k"
  by (simp add: clamp_index_def)

text \<open>A position within a cell, away from the tolerance below the next grid line.\<close>

lemma floor2_in_cell:
  assumes "0 \<le> s" "s < 1 - 2 * EPSILON"
  shows "floor2 (real k + s) = real k" "ceil2 (real k + s) = real (Suc k)"
proof -
  have "\<lfloor>real k + s + 2 * EPSILON\<rfloor> = int k"
    using assms by (intro floor_unique) (auto simp: EPSILON_def)
  then show "floor2 (real k + s) = real k" "ceil2 (real k + s) = real (Suc k)"
    using assms by (simp_all add: floor2_nonneg ceil2_def)
qed

text \<open>A map of two times two cells.\<close>

definition small_map :: tmap where
  "small_map = (Map_new [[Some 10, Some 20], [Some 30, Some 40]] 2 2 1 1)
     \<lparr>m_north_border := Some 50, m_west_border := Some 20, m_utm := False\<rparr>"

lemma small_map_laws:
  "map_filled small_map" "m_north_border small_map = Some 50" "m_west_border small_map = Some 20"
  "m_length small_map = 2" "m_width small_map = 2" "m_cell_width small_map = 1"
  "m_cell_length small_map = 1" "m_data small_map = [[Some 10, Some 20], [Some 30, Some 40]]"
  by (simp_all add: small_map_def Map_new_def map_filled_def)

lemma interpolate_cell:
  assumes "map_filled m" "m_north_border m = Some north" "m_west_border m = Some west"
    and "Suc i < m_length m" "Suc j < m_width m"
    and "0 \<le> s" "s < 1 - 2 * EPSILON" "0 \<le> t" "t < 1 - 2 * EPSILON"
    and "x = west + (real j + s) * m_cell_width m" "y = north - (real i + t) * m_cell_length m"
  shows "interpolate m x y =
    Inr (bilinear (cell m i j) (cell m i (Suc j)) (cell m (Suc i) (Suc j)) (cell m (Suc i) j) s t)"
proof -
  have "(x - west) / m_cell_width m = real j + s" "(north - y) / m_cell_length m = real i + t"
    "\<bar>y - north\<bar> / m_cell_length m = real i + t"
    using assms by (simp_all add: map_filled_def abs_mult)
  then show ?thesis
    using assms(4,5) clamp_index_of_nat [of "Suc j" "m_width m"] clamp_index_of_nat [of "Suc i" "m_length m"]
    unfolding interpolate_filled [OF assms(1-3)]
    by (simp add: fract_part_def clamp_index_of_nat floor2_in_cell assms(6-9) del: of_nat_Suc)
qed

text \<open>C23: within a cell of the grid the height is the bilinear interpolation of the four heights at its
  corners; in particular it is the stored height at a grid point.\<close>

theorem interpolate_in_cell:
  assumes "map_filled m" "m_north_border m = Some north" "m_west_border m = Some west"
    and "Suc i < m_length m" "Suc j < m_width m"
    and "0 \<le> s" "s < 1 - 2 * EPSILON" "0 \<le> t" "t < 1 - 2 * EPSILON"
    and "x = west + (real j + s) * m_cell_width m" "y = north - (real i + t) * m_cell_length m"
  shows "interpolate m x y =
    Inr (bilinear (cell m i j) (cell m i (Suc j)) (cell m (Suc i) (Suc j)) (cell m (Suc i) j) s t)"
  by (rule interpolate_cell [OF assms])

theorem interpolate_in_cell_witness: "interpolate small_map (81 / 4) (99 / 2) = Inr (45 / 2)"
  using interpolate_in_cell [OF small_map_laws(1-3), of 0 0 "1 / 4" "1 / 2"]
  by (simp add: small_map_laws cell_def EPSILON_def bilinear_def)

lemma interpolate_bounded:
  assumes "map_filled m" "m_north_border m = Some north" "m_west_border m = Some west"
    and cells: "\<And>i j. i < m_length m \<Longrightarrow> j < m_width m \<Longrightarrow> lo \<le> cell m i j \<and> cell m i j \<le> hi"
    and "0 \<le> fract_part ((x - west) / m_cell_width m)"
    and "fract_part ((x - west) / m_cell_width m) \<le> 1"
    and "0 \<le> fract_part (\<bar>y - north\<bar> / m_cell_length m)"
    and "fract_part (\<bar>y - north\<bar> / m_cell_length m) \<le> 1"
  shows "\<exists>h. interpolate m x y = Inr h \<and> lo \<le> h \<and> h \<le> hi"
proof -
  have c: "lo \<le> cell m (nat (clamp_index v (m_length m))) (nat (clamp_index u (m_width m))) \<and>
        cell m (nat (clamp_index v (m_length m))) (nat (clamp_index u (m_width m))) \<le> hi" for u v
    using assms(1) clamp_index_range [of "m_length m" v] clamp_index_range [of "m_width m" u]
    by (intro cells) (auto simp: map_filled_def nat_less_iff)
  show ?thesis
    using bilinear_bound [OF c c c c assms(5-8)]
    unfolding interpolate_filled [OF assms(1-3)] by simp
qed

text \<open>For a position that is not west of the border and not within the tolerance below a grid
  line, the fractional part is a proper one.\<close>

lemma fract_part_range:
  assumes "0 \<le> v"
  shows "- 2 * EPSILON \<le> fract_part v" "fract_part v < 1"
    and "frac v < 1 - 2 * EPSILON \<Longrightarrow> 0 \<le> fract_part v"
proof -
  have eq: "fract_part v = v - of_int \<lfloor>v + 2 * EPSILON\<rfloor>"
    using assms by (simp add: fract_part_def floor2_nonneg)
  have "of_int \<lfloor>v + 2 * EPSILON\<rfloor> \<le> v + 2 * EPSILON" "v + 2 * EPSILON < of_int \<lfloor>v + 2 * EPSILON\<rfloor> + 1"
    by linarith+
  then show "- 2 * EPSILON \<le> fract_part v" "fract_part v < 1"
    unfolding eq by (simp_all only: EPSILON_def)
  assume "frac v < 1 - 2 * EPSILON"
  then have "\<lfloor>v + 2 * EPSILON\<rfloor> = \<lfloor>v\<rfloor>"
    by (simp add: floor_eq_iff frac_def EPSILON_def) linarith
  then show "0 \<le> fract_part v"
    unfolding eq by simp
qed



section \<open>The height function does not depend on the state of the projection\<close>

text \<open>This is what lets the productions see the map as a plain function of the position.\<close>

definition zGetter :: "utm \<Rightarrow> tmap \<Rightarrow> real \<Rightarrow> real \<Rightarrow> real res" where
  "zGetter st m x y = mapR snd (get_height st m x y)"

lemma mapR_snd_pair [simp]: "mapR snd (mapR (Pair a) r) = r"
  by (cases r) (simp_all add: mapR_def)

lemma mapR_snd_bindR: "mapR h (bindR r k) = bindR r (\<lambda>x. mapR h (k x))"
  by (cases r) (simp_all add: mapR_def)

lemma zGetter_eq:
  "zGetter st m x y =
     (if m_utm m then
        bindR (get_init (m_zone m)) (\<lambda>zone.
        bindR (get_init (m_hemisphere m)) (\<lambda>hemisphere.
        bindR (mapR snd (Convert_UTM_To_Geodetic st zone hemisphere x y)) (\<lambda>(err, written).
          if err \<noteq> 0 then Inl (Exit 18)
          else bindR (get_init written) (\<lambda>(lat, lon). interpolate m (r2d lon) (r2d lat)))))
      else interpolate m x y)"
  by (auto simp: zGetter_def get_height_def get_height_convert_def mapR_def bindR_def
      split: sum.splits prod.splits option.splits intro!: sum.case_cong)

lemma zGetter_tm_irrelevant:
  assumes "utm_ok st"
  shows "zGetter (st\<lparr>UTM_tm := t\<rparr>) m x y = zGetter st m x y"
  unfolding zGetter_eq Convert_UTM_To_Geodetic_tm_irrelevant [OF assms] ..

lemma get_height_frame:
  assumes "utm_ok st" "zGetter st m x y = Inr z"
  shows "\<exists>t'. get_height (st\<lparr>UTM_tm := t\<rparr>) m x y = Inr (st\<lparr>UTM_tm := t'\<rparr>, z)"
proof -
  have "zGetter (st\<lparr>UTM_tm := t\<rparr>) m x y = Inr z"
    using assms by (simp add: zGetter_tm_irrelevant)
  then obtain st' where g: "get_height (st\<lparr>UTM_tm := t\<rparr>) m x y = Inr (st', z)"
    by (auto simp: zGetter_def mapR_def bindR_Inr_iff)
  then have "\<exists>t'. st' = st\<lparr>UTM_tm := t'\<rparr>"
    by (auto simp: get_height_def get_height_convert_def mapR_def bindR_Inr_iff split: if_splits
        dest!: Convert_UTM_To_Geodetic_frame)
  then show ?thesis using g by blast
qed

text \<open>C25: the height a caller gets does not depend on what earlier conversions left in the static
  variables of the projection, and the call changes nothing else of the state.\<close>

theorem get_height_independent:
  assumes "utm_ok st" "get_height st m x y = Inr (st', z)"
  shows "\<exists>t'. get_height (st\<lparr>UTM_tm := t\<rparr>) m x y = Inr (st\<lparr>UTM_tm := t'\<rparr>, z)"
  using assms by (intro get_height_frame) (simp_all add: zGetter_def mapR_def)

theorem get_height_independent_witness:
  "\<exists>t'. get_height (utm_init\<lparr>UTM_tm := tranmerc_init\<lparr>TranMerc_Origin_Long := 1\<rparr>\<rparr>) small_map (81 / 4) (99 / 2) =
     Inr (utm_init\<lparr>UTM_tm := t'\<rparr>, 45 / 2)"
proof (rule get_height_independent [OF utm_ok_init])
  have "interpolate small_map (81 / 4) (99 / 2) = Inr (45 / 2)"
    using interpolate_cell [OF small_map_laws(1-3), of 0 0 "1 / 4" "1 / 2"]
    by (simp add: small_map_laws cell_def EPSILON_def bilinear_def)
  moreover have "\<not> m_utm small_map" by (simp add: small_map_def)
  ultimately show "get_height utm_init small_map (81 / 4) (99 / 2) = Inr (utm_init, 45 / 2)"
    by (simp add: get_height_def get_height_convert_def mapR_def)
qed

end
