(* ===== verification/Conditions.thy ===== *)
theory Conditions
  imports Connectivity Terrain_Map
begin

text \<open>
  The refinement conditions, \<open>conditions/TerrainConditionChecker.h\<close> and
  \<open>conditions/DummyConditionChecker.h\<close>. A checker marks an interior for refinement. The terrain
  checker samples a grid over the bounding box of the triangle, computes barycentric coordinates
  for each sample and compares the height of the triangle with the height of the map.

  The two loops advance a double by \<open>step\<close> while it is at most a bound, so they end only for a
  positive step: not ending is \<open>None\<close>. For a triangle of area zero the code divides by zero and
  goes on with infinities or NaN; \<open>compute_barycentric_coords\<close> then is \<open>None\<close> and
  \<open>check_sample\<close> does what the comparisons with such values do.
\<close>

section \<open>Barycentric coordinates\<close>

definition get_area :: "coordinates \<Rightarrow> coordinates \<Rightarrow> coordinates \<Rightarrow> real" where
  "get_area a b c = 1 / 2 * \<bar>(getX b - getX a) * (getY c - getY a) -
                            (getY b - getY a) * (getX c - getX a)\<bar>"

definition compute_barycentric_coords :: "coordinates \<Rightarrow> coordinates list \<Rightarrow> real list option" where
  "compute_barycentric_coords point vs =
     (let triangle_area = get_area (vs ! 0) (vs ! 1) (vs ! 2)
      in if triangle_area = 0 then None
         else Some [get_area point (vs ! 1) (vs ! 2) / triangle_area,
                    get_area point (vs ! 2) (vs ! 0) / triangle_area,
                    get_area point (vs ! 0) (vs ! 1) / triangle_area])"

definition is_inside_triangle :: "real list \<Rightarrow> bool" where
  "is_inside_triangle b \<longleftrightarrow> \<not> greater_eps (b ! 0 + b ! 1 + b ! 2) 1"

text \<open>With a triangle of area zero the sum is NaN when one of the three quotients is \<open>0 / 0\<close>, which
  counts as inside, and infinite otherwise.\<close>

definition nan_sum :: "coordinates \<Rightarrow> coordinates list \<Rightarrow> bool" where
  "nan_sum point vs \<longleftrightarrow> get_area point (vs ! 0) (vs ! 1) = 0 \<or> get_area point (vs ! 2) (vs ! 0) = 0 \<or>
     get_area point (vs ! 1) (vs ! 2) = 0"

definition triangle_height :: "real list \<Rightarrow> coordinates list \<Rightarrow> real" where
  "triangle_height b vs = 0 + b ! 0 * getZ (vs ! 0) + b ! 1 * getZ (vs ! 1) + b ! 2 * getZ (vs ! 2)"

section \<open>The terrain condition\<close>

text \<open>The body of the two loops: whether the sample shows that the triangle is too far from the
  terrain.\<close>

definition check_sample ::
  "utm \<Rightarrow> tmap \<Rightarrow> real \<Rightarrow> coordinates list \<Rightarrow> real \<Rightarrow> real \<Rightarrow> (utm \<times> bool) res" where
  "check_sample st m tolerance vs i j =
     (case compute_barycentric_coords (Coord i j 0) vs of
        Some b \<Rightarrow>
          if is_inside_triangle b
          then mapR (\<lambda>(st', h). (st', \<bar>triangle_height b vs - h\<bar> > tolerance)) (get_height st m i j)
          else Inr (st, False)
      | None \<Rightarrow>
          if nan_sum (Coord i j 0) vs then mapR (\<lambda>(st', h). (st', False)) (get_height st m i j)
          else Inr (st, False))"

definition lowest3 :: "real \<Rightarrow> real \<Rightarrow> real \<Rightarrow> real" where
  "lowest3 a b c = (let l = if a < b then a else b in if c < l then c else l)"

definition highest3 :: "real \<Rightarrow> real \<Rightarrow> real \<Rightarrow> real" where
  "highest3 a b c = (let h = if a > b then a else b in if c > h then c else h)"

partial_function (option) check_column ::
  "utm \<Rightarrow> tmap \<Rightarrow> real \<Rightarrow> coordinates list \<Rightarrow> real \<Rightarrow> real \<Rightarrow> real \<Rightarrow> real \<Rightarrow> (utm \<times> bool) res option" where
  "check_column st m tolerance vs step i highest_y j =
     (if j \<le> highest_y then
        (case check_sample st m tolerance vs i j of
           Inl f \<Rightarrow> Some (Inl f)
         | Inr (st', refine) \<Rightarrow>
             if refine then Some (Inr (st', True))
             else check_column st' m tolerance vs step i highest_y (j + step))
      else Some (Inr (st, False)))"

partial_function (option) check_columns ::
  "utm \<Rightarrow> tmap \<Rightarrow> real \<Rightarrow> coordinates list \<Rightarrow> real \<Rightarrow> real \<Rightarrow> real \<Rightarrow> real \<Rightarrow> real
     \<Rightarrow> (utm \<times> bool) res option" where
  "check_columns st m tolerance vs step highest_x lowest_y highest_y i =
     (if i \<le> highest_x then
        Option.bind (check_column st m tolerance vs step i highest_y lowest_y) (\<lambda>r.
          case r of
            Inl f \<Rightarrow> Some (Inl f)
          | Inr (st', refine) \<Rightarrow>
              if refine then Some (Inr (st', True))
              else check_columns st' m tolerance vs step highest_x lowest_y highest_y (i + step))
      else Some (Inr (st, False)))"

definition sampling_step :: "tmap \<Rightarrow> real" where
  "sampling_step m = (if m_utm m then 90 else m_cell_width m)"

definition inside_condition ::
  "utm \<Rightarrow> tmap \<Rightarrow> real \<Rightarrow> coordinates list \<Rightarrow> (utm \<times> bool) res option" where
  "inside_condition st m tolerance vs =
     (let x = (\<lambda>k. getX (vs ! k)); y = (\<lambda>k. getY (vs ! k))
      in check_columns st m tolerance vs (sampling_step m) (highest3 (x 0) (x 1) (x 2))
           (lowest3 (y 0) (y 1) (y 2)) (highest3 (y 0) (y 1) (y 2)) (lowest3 (x 0) (x 1) (x 2)))"

text \<open>\<open>TerrainConditionChecker::execute\<close>. The vector of coordinates is read at the indices 0, 1
  and 2.\<close>

definition Terrain_execute ::
  "utm \<Rightarrow> tmap \<Rightarrow> real \<Rightarrow> mesh \<Rightarrow> nat \<Rightarrow> (utm \<times> mesh \<times> bool) res option" where
  "Terrain_execute st m tolerance g n =
     (if \<not> hyperEdge (getData g n) then Some (Inr (st, g, False))
      else (let verticesCoords = getVerticesCoords g n
            in if length verticesCoords < 3 then Some (Inl OutOfBounds)
               else map_option (mapR (\<lambda>(st', refine).
                      if refine then (st', updData g n (setToRefine True), True) else (st', g, False)))
                      (inside_condition st m tolerance verticesCoords)))"

definition Dummy_execute :: "mesh \<Rightarrow> nat \<Rightarrow> mesh \<times> bool" where
  "Dummy_execute g n =
     (if \<not> hyperEdge (getData g n) then (g, False) else (updData g n (setToRefine True), True))"

section \<open>Barycentric coordinates are the weights of a point of the triangle\<close>

text \<open>Twice the signed area.\<close>

definition signed_area2 :: "coordinates \<Rightarrow> coordinates \<Rightarrow> coordinates \<Rightarrow> real" where
  "signed_area2 a b c =
     (getX b - getX a) * (getY c - getY a) - (getY b - getY a) * (getX c - getX a)"

lemma get_area_signed: "get_area a b c = \<bar>signed_area2 a b c\<bar> / 2"
  by (simp add: get_area_def signed_area2_def)

lemma signed_area2_rotate: "signed_area2 a b c = signed_area2 b c a" "signed_area2 b a c = - signed_area2 a b c"
  by (simp_all add: signed_area2_def algebra_simps)

lemma signed_area2_split:
  "signed_area2 p b c + signed_area2 p c a + signed_area2 p a b = signed_area2 a b c"
  by (simp add: signed_area2_def algebra_simps)

lemma get_area_perm: "get_area a b c = get_area b c a" "get_area b a c = get_area a b c"
  using signed_area2_rotate [of a b c] by (simp_all add: get_area_signed)

text \<open>The three partial areas together are never less than the area of the triangle.\<close>

lemma partial_areas_ge:
  "get_area a b c \<le> get_area p b c + get_area p c a + get_area p a b"
  unfolding get_area_signed using signed_area2_split [of p b c a] by linarith

definition weighted_point :: "real list \<Rightarrow> coordinates list \<Rightarrow> coordinates" where
  "weighted_point w vs =
     Coord (w ! 0 * getX (vs ! 0) + w ! 1 * getX (vs ! 1) + w ! 2 * getX (vs ! 2))
       (w ! 0 * getY (vs ! 0) + w ! 1 * getY (vs ! 1) + w ! 2 * getY (vs ! 2)) 0"

lemma weighted_areas:
  fixes w :: "real list" and vs :: "coordinates list"
  assumes "w ! 0 + w ! 1 + w ! 2 = 1"
  defines "p \<equiv> weighted_point w vs" and "D \<equiv> signed_area2 (vs ! 0) (vs ! 1) (vs ! 2)"
  shows "signed_area2 p (vs ! 1) (vs ! 2) = w ! 0 * D" "signed_area2 p (vs ! 2) (vs ! 0) = w ! 1 * D"
    "signed_area2 p (vs ! 0) (vs ! 1) = w ! 2 * D"
proof -
  have w0: "w ! 0 = 1 - w ! 1 - w ! 2" using assms(1) by simp
  show "signed_area2 p (vs ! 1) (vs ! 2) = w ! 0 * D" "signed_area2 p (vs ! 2) (vs ! 0) = w ! 1 * D"
    "signed_area2 p (vs ! 0) (vs ! 1) = w ! 2 * D"
    by (simp_all add: p_def D_def weighted_point_def signed_area2_def w0 algebra_simps)
qed

text \<open>C15: for a triangle of positive area, the barycentric coordinates computed for a point of the
  triangle are its weights and the point counts as inside; and a point counts as inside only if
  the three coordinates sum to at least 1 and to less than 1 plus the tolerance.\<close>

theorem barycentric_coords_correct:
  assumes "get_area (vs ! 0) (vs ! 1) (vs ! 2) \<noteq> 0"
  shows "(\<forall>w0 w1 w2. 0 \<le> w0 \<and> 0 \<le> w1 \<and> 0 \<le> w2 \<and> w0 + w1 + w2 = 1 \<longrightarrow>
       compute_barycentric_coords (weighted_point [w0, w1, w2] vs) vs = Some [w0, w1, w2] \<and>
       is_inside_triangle [w0, w1, w2]) \<and>
    (\<forall>p b. compute_barycentric_coords p vs = Some b \<and> is_inside_triangle b \<longrightarrow>
       1 \<le> b ! 0 + b ! 1 + b ! 2 \<and> b ! 0 + b ! 1 + b ! 2 < 1 + EPS)"
proof (intro conjI allI impI; (elim conjE)?)
  let ?D = "signed_area2 (vs ! 0) (vs ! 1) (vs ! 2)"
  have D: "?D \<noteq> 0" using assms by (simp add: get_area_signed)
  fix w0 w1 w2 :: real
  assume w: "0 \<le> w0" "0 \<le> w1" "0 \<le> w2" "w0 + w1 + w2 = 1"
  have sum: "[w0, w1, w2] ! 0 + [w0, w1, w2] ! 1 + [w0, w1, w2] ! 2 = 1" using w by simp
  note a = weighted_areas [OF sum, of vs]
  show "compute_barycentric_coords (weighted_point [w0, w1, w2] vs) vs = Some [w0, w1, w2]"
    using w D by (simp add: compute_barycentric_coords_def get_area_signed a abs_mult del: One_nat_def)
  show "is_inside_triangle [w0, w1, w2]"
    using w(4) by (simp add: is_inside_triangle_def greater_eps_def EPS_def)
next
  fix p b
  assume b: "compute_barycentric_coords p vs = Some b" and ins: "is_inside_triangle b"
  let ?A = "get_area (vs ! 0) (vs ! 1) (vs ! 2)"
  have pos: "0 < ?A" using assms by (simp add: get_area_def)
  have eq: "b ! 0 + b ! 1 + b ! 2 = (get_area p (vs ! 1) (vs ! 2) + get_area p (vs ! 2) (vs ! 0) +
      get_area p (vs ! 0) (vs ! 1)) / ?A"
    using b assms by (auto simp: compute_barycentric_coords_def Let_def add_divide_distrib split: if_splits)
  show "1 \<le> b ! 0 + b ! 1 + b ! 2"
    unfolding eq using partial_areas_ge [of "vs ! 0" "vs ! 1" "vs ! 2" p] pos by simp
  show "b ! 0 + b ! 1 + b ! 2 < 1 + EPS"
    using ins by (simp add: is_inside_triangle_def greater_eps_def)
qed

theorem barycentric_coords_correct_witness:
  "compute_barycentric_coords (weighted_point [1 / 2, 1 / 4, 1 / 4] [Coord 0 0 5, Coord 4 0 1, Coord 0 4 9])
     [Coord 0 0 5, Coord 4 0 1, Coord 0 4 9] = Some [1 / 2, 1 / 4, 1 / 4]"
  using barycentric_coords_correct [of "[Coord 0 0 5, Coord 4 0 1, Coord 0 4 9]"]
  by (simp add: get_area_def del: not_add_less1)

section \<open>The sampling loops\<close>

text \<open>A loop that adds \<open>step\<close> while its variable is at most \<open>hi\<close>, and the values the variable
  takes.\<close>

lemma counting_loop_induct:
  fixes j hi step :: real
  assumes "0 < step" and stop: "\<And>j. hi < j \<Longrightarrow> P j" and go: "\<And>j. j \<le> hi \<Longrightarrow> P (j + step) \<Longrightarrow> P j"
  shows "P j"
proof -
  have "P j" if "hi < j + real k * step" for k j
    using that
  proof (induction k arbitrary: j)
    case (Suc k)
    have "P (j + step)" using Suc.prems by (intro Suc.IH) (simp add: algebra_simps)
    then show ?case using stop go by (cases "hi < j") auto
  qed (simp add: stop)
  moreover obtain k where "(hi - j) / step < real k" using reals_Archimedean2 by blast
  then have "hi < j + real k * step" using assms(1) by (simp add: field_simps)
  ultimately show ?thesis by blast
qed

definition samples :: "real \<Rightarrow> real \<Rightarrow> real \<Rightarrow> real set" where
  "samples step hi lo = {lo + real k * step | k. lo + real k * step \<le> hi}"

lemma samples_stop: "0 < step \<Longrightarrow> hi < lo \<Longrightarrow> samples step hi lo = {}"
proof -
  assume "0 < step" "hi < lo"
  then have "hi < lo + real k * step" for k
    using mult_nonneg_nonneg [of "real k" step] by linarith
  then show ?thesis by (auto simp: samples_def not_le)
qed

lemma samples_go: "lo \<le> hi \<Longrightarrow> samples step hi lo = insert lo (samples step hi (lo + step))"
proof (intro set_eqI iffI)
  fix x
  assume "lo \<le> hi" "x \<in> samples step hi lo"
  then obtain k where k: "x = lo + real k * step" "x \<le> hi" by (auto simp: samples_def)
  show "x \<in> insert lo (samples step hi (lo + step))"
  proof (cases k)
    case (Suc i)
    then have "x = lo + step + real i * step" using k(1) by (simp add: algebra_simps)
    then show ?thesis using k(2) by (auto simp: samples_def)
  qed (use k in simp)
next
  fix x
  assume lo: "lo \<le> hi" and "x \<in> insert lo (samples step hi (lo + step))"
  then consider "x = lo" | k where "x = lo + step + real k * step" "x \<le> hi"
    by (auto simp: samples_def)
  then show "x \<in> samples step hi lo"
  proof cases
    case 2
    then have "x = lo + real (Suc k) * step" by (simp add: algebra_simps)
    then show ?thesis using 2(2) unfolding samples_def by blast
  qed (use lo in \<open>auto simp: samples_def intro!: exI [of _ 0]\<close>)
qed

lemma check_column_returns:
  assumes "0 < step"
  shows "\<exists>r. check_column st m tol vs step i hi j = Some r"
proof (induction j arbitrary: st rule: counting_loop_induct [OF assms, where hi = hi])
  case (2 j)
  show ?case
    by (subst check_column.simps) (use 2 in \<open>auto split: sum.split\<close>)
qed (simp add: check_column.simps [of _ _ _ _ _ _ hi])

lemma check_columns_returns:
  assumes "0 < step"
  shows "\<exists>r. check_columns st m tol vs step hx ly hy i = Some r"
proof (induction i arbitrary: st rule: counting_loop_induct [OF assms, where hi = hx])
  case (2 i)
  obtain r where "check_column st m tol vs step i hy ly = Some r"
    using check_column_returns [OF assms] by blast
  then show ?case
    by (subst check_columns.simps) (use 2 in \<open>auto split: sum.split\<close>)
qed (simp add: check_columns.simps [of _ _ _ _ _ hx])

text \<open>The samples of the grid that show a violation, when \<open>f\<close> is the height of the map.\<close>

definition sample_violates ::
  "(real \<Rightarrow> real \<Rightarrow> real) \<Rightarrow> real \<Rightarrow> coordinates list \<Rightarrow> real \<Rightarrow> real \<Rightarrow> bool" where
  "sample_violates f tolerance vs i j \<longleftrightarrow>
     (\<exists>b. compute_barycentric_coords (Coord i j 0) vs = Some b \<and> is_inside_triangle b \<and>
          \<bar>triangle_height b vs - f i j\<bar> > tolerance)"

lemma check_sample_value:
  assumes "utm_ok st" "zGetter st m i j = Inr (f i j)"
  shows "\<exists>t'. check_sample (st\<lparr>UTM_tm := t\<rparr>) m tol vs i j =
    Inr (st\<lparr>UTM_tm := t'\<rparr>, sample_violates f tol vs i j)"
proof -
  obtain t' where "get_height (st\<lparr>UTM_tm := t\<rparr>) m i j = Inr (st\<lparr>UTM_tm := t'\<rparr>, f i j)"
    using get_height_frame [OF assms] by blast
  then show ?thesis
    by (auto simp: check_sample_def sample_violates_def mapR_def split: option.splits)
qed

lemma check_column_value:
  assumes "0 < step" "utm_ok st" "\<And>j. j \<in> samples step hi lo \<Longrightarrow> zGetter st m i j = Inr (f i j)"
  shows "\<exists>t'. check_column (st\<lparr>UTM_tm := t\<rparr>) m tol vs step i hi lo =
    Some (Inr (st\<lparr>UTM_tm := t'\<rparr>, \<exists>j \<in> samples step hi lo. sample_violates f tol vs i j))"
  using assms(3)
proof (induction lo arbitrary: t rule: counting_loop_induct [OF assms(1), where hi = hi])
  case (1 lo)
  then show ?case
    by (subst check_column.simps) (auto simp: samples_stop [OF assms(1)])
next
  case (2 lo)
  note go = samples_go [OF 2(1), of step]
  obtain t1 where t1: "check_sample (st\<lparr>UTM_tm := t\<rparr>) m tol vs i lo =
      Inr (st\<lparr>UTM_tm := t1\<rparr>, sample_violates f tol vs i lo)"
    using check_sample_value [where f = f, OF assms(2) 2(3)] go by blast
  have "zGetter st m i j = Inr (f i j)" if "j \<in> samples step hi (lo + step)" for j
    using 2(3) that go by blast
  note IH = 2(2) [OF this]
  show ?case
    by (subst check_column.simps) (use 2(1) t1 IH [of t1] in \<open>auto simp: go\<close>)
qed

lemma check_columns_value:
  assumes "0 < step" "utm_ok st"
    and "\<And>i j. i \<in> samples step hx lx \<Longrightarrow> j \<in> samples step hy ly \<Longrightarrow> zGetter st m i j = Inr (f i j)"
  shows "\<exists>t'. check_columns (st\<lparr>UTM_tm := t\<rparr>) m tol vs step hx ly hy lx = Some (Inr (st\<lparr>UTM_tm := t'\<rparr>,
    \<exists>i \<in> samples step hx lx. \<exists>j \<in> samples step hy ly. sample_violates f tol vs i j))"
  using assms(3)
proof (induction lx arbitrary: t rule: counting_loop_induct [OF assms(1), where hi = hx])
  case (1 lx)
  then show ?case
    by (subst check_columns.simps) (auto simp: samples_stop [OF assms(1)])
next
  case (2 lx)
  note go = samples_go [OF 2(1), of step]
  have "zGetter st m lx j = Inr (f lx j)" if "j \<in> samples step hy ly" for j
    using 2(3) [of lx j] that go by blast
  then obtain t1 where t1: "check_column (st\<lparr>UTM_tm := t\<rparr>) m tol vs step lx hy ly =
      Some (Inr (st\<lparr>UTM_tm := t1\<rparr>, \<exists>j \<in> samples step hy ly. sample_violates f tol vs lx j))"
    using check_column_value [where f = f, OF assms(1,2)] by blast
  have "zGetter st m i j = Inr (f i j)"
    if "i \<in> samples step hx (lx + step)" "j \<in> samples step hy ly" for i j
    using 2(3) that go by blast
  note IH = 2(2) [OF this]
  show ?case
    by (subst check_columns.simps) (use 2(1) t1 IH [of t1] in \<open>auto simp: go\<close>)
qed

lemma lowest3_min: "lowest3 a b c = min (min a b) c"
  by (simp add: lowest3_def min_def)

lemma highest3_max: "highest3 a b c = max (max a b) c"
  by (simp add: highest3_def max_def)

text \<open>The grid over the bounding box of a triangle.\<close>

definition grid_x :: "real \<Rightarrow> coordinates list \<Rightarrow> real set" where
  "grid_x step vs = samples step (max (max (getX (vs ! 0)) (getX (vs ! 1))) (getX (vs ! 2)))
     (min (min (getX (vs ! 0)) (getX (vs ! 1))) (getX (vs ! 2)))"

definition grid_y :: "real \<Rightarrow> coordinates list \<Rightarrow> real set" where
  "grid_y step vs = samples step (max (max (getY (vs ! 0)) (getY (vs ! 1))) (getY (vs ! 2)))
     (min (min (getY (vs ! 0)) (getY (vs ! 1))) (getY (vs ! 2)))"

lemma inside_condition_value:
  assumes "utm_ok st" "0 < sampling_step m"
    and "\<And>i j. i \<in> grid_x (sampling_step m) vs \<Longrightarrow> j \<in> grid_y (sampling_step m) vs \<Longrightarrow>
      zGetter st m i j = Inr (f i j)"
  shows "\<exists>t'. inside_condition (st\<lparr>UTM_tm := t\<rparr>) m tol vs = Some (Inr (st\<lparr>UTM_tm := t'\<rparr>,
    \<exists>i \<in> grid_x (sampling_step m) vs. \<exists>j \<in> grid_y (sampling_step m) vs. sample_violates f tol vs i j))"
  using check_columns_value [where f = f and vs = vs and t = t, OF assms(2,1)
      assms(3) [unfolded grid_x_def grid_y_def]]
  unfolding inside_condition_def Let_def lowest3_min highest3_max grid_x_def grid_y_def by blast

text \<open>C14: with a positive sampling step and heights at all grid points, the condition returns, and its
  answer is whether some point of the grid over the bounding box lies in the triangle and there
  differs from the terrain by more than the tolerance.\<close>

theorem inside_condition_correct:
  assumes "utm_ok st" "0 < sampling_step m"
    and "\<forall>i \<in> grid_x (sampling_step m) vs. \<forall>j \<in> grid_y (sampling_step m) vs.
      zGetter st m i j = Inr (f i j)"
  shows "\<exists>st'. inside_condition st m tol vs = Some (Inr (st',
    \<exists>i \<in> grid_x (sampling_step m) vs. \<exists>j \<in> grid_y (sampling_step m) vs. sample_violates f tol vs i j))"
proof -
  obtain t' where "inside_condition (st\<lparr>UTM_tm := UTM_tm st\<rparr>) m tol vs = Some (Inr (st\<lparr>UTM_tm := t'\<rparr>,
      \<exists>i \<in> grid_x (sampling_step m) vs. \<exists>j \<in> grid_y (sampling_step m) vs. sample_violates f tol vs i j))"
    using inside_condition_value [where f = f and t = "UTM_tm st" and vs = vs and tol = tol,
        OF assms(1,2)] assms(3) by blast
  then show ?thesis by auto
qed

definition flat_map :: "real \<Rightarrow> tmap" where
  "flat_map h = \<lparr>m_width = 1, m_length = 1, m_cell_width = 1, m_cell_length = 1, m_data = [[Some h]],
     m_north_border = Some 0, m_west_border = Some 0, m_utm = False, m_zone = None,
     m_hemisphere = None\<rparr>"

lemma zGetter_flat_map: "zGetter st (flat_map h) x y = Inr h"
proof -
  have c: "clamp_index v (Suc 0) = 0" for v
    by (simp add: clamp_index_def trunc_to_int_def)
  have "map_filled (flat_map h)" by (simp add: map_filled_def flat_map_def)
  then have "interpolate (flat_map h) x y = Inr h"
    by (subst interpolate_filled [where north = 0 and west = 0])
      (simp_all add: flat_map_def cell_def c bilinear_def algebra_simps)
  then show ?thesis by (simp add: zGetter_eq flat_map_def)
qed

theorem inside_condition_correct_witness:
  "\<exists>st'. inside_condition utm_init (flat_map 7) 5 [Coord 0 0 0, Coord 2 0 0, Coord 0 2 0] =
     Some (Inr (st', True))"
proof -
  let ?vs = "[Coord 0 0 0, Coord 2 0 0, Coord 0 2 0]"
  have s: "sampling_step (flat_map 7) = 1" by (simp add: sampling_step_def flat_map_def)
  have "0 \<in> grid_x 1 ?vs" "0 \<in> grid_y 1 ?vs"
    by (auto simp: grid_x_def grid_y_def samples_def intro!: exI [of _ 0])
  moreover have "sample_violates (\<lambda>i j. 7) 5 ?vs 0 0"
    by (simp add: sample_violates_def compute_barycentric_coords_def get_area_def
        is_inside_triangle_def greater_eps_def EPS_def triangle_height_def)
  ultimately have "\<exists>i \<in> grid_x 1 ?vs. \<exists>j \<in> grid_y 1 ?vs. sample_violates (\<lambda>i j. 7) 5 ?vs i j"
    by blast
  then show ?thesis
    using inside_condition_correct [OF utm_ok_init, of "flat_map 7" ?vs "\<lambda>i j. 7" 5]
    by (simp add: s zGetter_flat_map)
qed



end
