(* ===== verification/Mesh_Refinement.thy ===== *)
theory Mesh_Refinement
  imports Production_Effects Conditions
begin

text \<open>
  What the productions promise about the mesh as a geometric object, and that the code keeps the
  promise. An \<open>amesh\<close> has points, triangles and edges and no graph representation; \<open>abs_mesh\<close>
  reads it off a graph. A production that applies is a bisection of one triangle: at a new point
  in the middle of a side (\<open>bisect_new\<close>) or at a point that is already there (\<open>bisect_old\<close>).
  The geometric invariants are proved on this level and carried back.
\<close>

section \<open>Abstract meshes\<close>

record amesh =
  am_points :: "nat \<rightharpoonup> coordinates"
  am_triangles :: "nat list multiset"
  am_edges :: "nat \<Rightarrow> nat \<Rightarrow> edge_data option"

definition abs_mesh :: "mesh \<Rightarrow> amesh" where
  "abs_mesh g =
     \<lparr>am_points = (\<lambda>v. if v \<in> set (mesh_vertices g) then Some (coords (getData g v)) else None),
      am_triangles = mesh_triangles g,
      am_edges = (\<lambda>p q. if p \<in> set (mesh_vertices g) \<and> q \<in> set (mesh_vertices g)
                        then edge_val g p q else None)\<rparr>"

definition point :: "amesh \<Rightarrow> nat \<Rightarrow> coordinates" where
  "point A v = the (am_points A v)"

text \<open>The middle of a side, at the height \<open>z\<close>.\<close>

definition side_middle :: "amesh \<Rightarrow> nat list \<Rightarrow> nat \<Rightarrow> real \<Rightarrow> coordinates" where
  "side_middle A t e z =
     Coord ((getX (point A (side_first t e)) + getX (point A (side_second t e))) / 2)
       ((getY (point A (side_first t e)) + getY (point A (side_second t e))) / 2) z"

abbreviation side_edge :: "amesh \<Rightarrow> nat list \<Rightarrow> nat \<Rightarrow> edge_data option" where
  "side_edge A t e \<equiv> am_edges A (side_first t e) (side_second t e)"

definition link_pair :: "'a \<Rightarrow> 'a \<Rightarrow> 'b \<Rightarrow> ('a \<Rightarrow> 'a \<Rightarrow> 'b option) \<Rightarrow> 'a \<Rightarrow> 'a \<Rightarrow> 'b option" where
  "link_pair u v x E p q = (if same_pair u v p q then Some x else E p q)"

definition bisect_old :: "bool \<Rightarrow> nat list \<Rightarrow> nat \<Rightarrow> nat \<Rightarrow> amesh \<Rightarrow> amesh" where
  "bisect_old v2D t e h A =
     A\<lparr>am_triangles := split_triangle (am_triangles A) t e h,
       am_edges := link_pair h (opposite t e)
         (segment v2D False (point A h) (point A (opposite t e))) (am_edges A)\<rparr>"

definition bisect_new :: "bool \<Rightarrow> nat list \<Rightarrow> nat \<Rightarrow> nat \<Rightarrow> real \<Rightarrow> amesh \<Rightarrow> amesh" where
  "bisect_new v2D t e h z A =
     (let m = side_middle A t e z; b = border (the (side_edge A t e))
      in \<lparr>am_points = (am_points A)(h \<mapsto> m),
          am_triangles = split_triangle (am_triangles A) t e h,
          am_edges = connect3 (\<lambda>i. segment v2D (i \<noteq> getNeutralVertex e \<and> b) m (point A (t ! i))) h t
                       (unlink_pair (side_first t e) (side_second t e) (am_edges A))\<rparr>)"

text \<open>The abstract steps. A new point goes on a side that is whole; an old point is used for a
  broken side whose ends it is linked with, and it lies near the middle of that side.\<close>

inductive abs_step :: "bool \<Rightarrow> amesh \<Rightarrow> amesh \<Rightarrow> bool" for v2D where
  step_new: "t \<in># am_triangles A \<Longrightarrow> e < 3 \<Longrightarrow> side_edge A t e \<noteq> None \<Longrightarrow> h \<notin> dom (am_points A) \<Longrightarrow>
    abs_step v2D A (bisect_new v2D t e h z A)"
| step_old: "t \<in># am_triangles A \<Longrightarrow> e < 3 \<Longrightarrow> side_edge A t e = None \<Longrightarrow> h \<in> dom (am_points A) \<Longrightarrow>
    h \<notin> set t \<Longrightarrow> am_edges A (side_first t e) h \<noteq> None \<Longrightarrow> am_edges A (side_second t e) h \<noteq> None \<Longrightarrow>
    isXYequal (point A h) (side_middle A t e 0) \<Longrightarrow> abs_step v2D A (bisect_old v2D t e h A)"

section \<open>The productions refine the abstract steps\<close>

lemma point_abs: "is_vertex g v \<Longrightarrow> point (abs_mesh g) v = coords (getData g v)"
  by (simp add: point_def abs_mesh_def is_vertex_iff)

lemma dom_abs: "dom (am_points (abs_mesh g)) = set (mesh_vertices g)"
  by (auto simp: abs_mesh_def split: if_splits)

lemma am_edges_abs: "is_vertex g p \<Longrightarrow> is_vertex g q \<Longrightarrow> am_edges (abs_mesh g) p q = edge_val g p q"
  by (simp add: abs_mesh_def is_vertex_iff)

lemma am_triangles_abs [simp]: "am_triangles (abs_mesh g) = mesh_triangles g"
  by (simp add: abs_mesh_def)

lemma abs_mesh_apply:
  "am_points (abs_mesh g) v = (if v \<in> set (mesh_vertices g) then Some (coords (getData g v)) else None)"
  "am_edges (abs_mesh g) p q = (if p \<in> set (mesh_vertices g) \<and> q \<in> set (mesh_vertices g)
     then edge_val g p q else None)"
  by (simp_all add: abs_mesh_def)

lemma amesh_eqI:
  "am_points A = am_points B \<Longrightarrow> am_triangles A = am_triangles B \<Longrightarrow> (\<And>p q. am_edges A p q = am_edges B p q) \<Longrightarrow>
   (A :: amesh) = B"
  by (rule amesh.equality) (auto simp: fun_eq_iff)

lemma connect3_cong:
  "(\<And>i. i < 3 \<Longrightarrow> x i = y i) \<Longrightarrow> E p q = E' p q \<Longrightarrow> connect3 x h vs E p q = connect3 y h vs E' p q"
  by (simp add: connect3_def)

lemma same_pair_commute: "same_pair u v p q = same_pair u v q p"
  by (auto simp: same_pair_def)

lemma interior_triangle: "n \<in> set (mesh_interiors g) \<Longrightarrow> getNeighbours g n \<in># mesh_triangles g"
  by (simp add: mesh_triangles_def)

lemma isXYequal_middle:
  "isXYequal p (coord_div (coord_add a b) 2) = isXYequal p (Coord ((getX a + getX b) / 2) ((getY a + getY b) / 2) z)"
  by (simp add: isXYequal_def coord_div_def coord_add_def)

lemma hanging_refines:
  assumes st: "state_of g n ps" and e: "e \<in> set (ps_brokenEdges ps)"
    and proper: "hanging_proper g (getNeighbours g n)"
    and res: "breakElementWithHangingNode g e ps = Inr (g', pushed)"
  shows "abs_step (ps_version2D ps) (abs_mesh g) (abs_mesh g') \<and> mesh_ok g'"
proof -
  note sd = state_ofD [OF st]
  let ?vs = "getNeighbours g n"
  have e3: "e < 3" and br: "edge_val g (side_first ?vs e) (side_second ?vs e) = None"
    using e brokenEdges_iff [OF st] by simp_all
  obtain h where split: "split_at g n e h g'" and h: "h \<in> set (mesh_vertices g)"
    and f: "findNodeBetween g (side_first ?vs e) (side_second ?vs e) = Some h"
    and dat: "\<And>v. is_vertex g v \<Longrightarrow> getData g' v = (if v = h then setHanging False (getData g h) else getData g v)"
    and ev: "\<And>p q. is_vertex g p \<Longrightarrow> is_vertex g q \<Longrightarrow> edge_val g' p q =
       (if same_pair h (opposite ?vs e) p q
        then Some (segment (ps_version2D ps) False (coords (getData g h)) (coords (getData g (opposite ?vs e))))
        else edge_val g p q)"
    by (rule hanging_split_at [OF st e3 proper br res]) (rule that; assumption)
  note ts = triangle_sides [OF sd(1,2) refl e3]
  have hv: "is_vertex g h" using h by (simp add: is_vertex_iff)
  have V: "set (mesh_vertices g') = set (mesh_vertices g)" using split h by (auto simp: split_at_def)
  have "live g (side_first ?vs e)" "live g (side_second ?vs e)" using ts(4,5) by (simp_all add: mesh_store.vertex_def)
  note fn = findNodeBetween_Some [OF ts(1) this f]
  have "abs_mesh g' = bisect_old (ps_version2D ps) ?vs e h (abs_mesh g)"
  proof (rule amesh_eqI)
    show "am_points (abs_mesh g') = am_points (bisect_old (ps_version2D ps) ?vs e h (abs_mesh g))"
      using dat by (auto simp: bisect_old_def abs_mesh_apply V is_vertex_iff fun_eq_iff)
    show "am_triangles (abs_mesh g') = am_triangles (bisect_old (ps_version2D ps) ?vs e h (abs_mesh g))"
      using split by (simp add: bisect_old_def split_at_def)
    show "am_edges (abs_mesh g') p q = am_edges (bisect_old (ps_version2D ps) ?vs e h (abs_mesh g)) p q" for p q
      using ev hv ts(6)
      by (auto simp: bisect_old_def abs_mesh_apply V link_pair_def point_abs is_vertex_iff same_pair_def)
  qed
  moreover have "abs_step (ps_version2D ps) (abs_mesh g) (bisect_old (ps_version2D ps) ?vs e h (abs_mesh g))"
  proof (rule step_old)
    show "?vs \<in># am_triangles (abs_mesh g)" using sd(2) interior_triangle by (simp add: set_mesh_interiors)
    show "side_edge (abs_mesh g) ?vs e = None" using br ts by (simp add: am_edges_abs)
    show "h \<in> dom (am_points (abs_mesh g))" using h by (simp add: dom_abs)
    show "h \<notin> set ?vs" using split by (simp add: split_at_def)
    show "am_edges (abs_mesh g) (side_first ?vs e) h \<noteq> None" "am_edges (abs_mesh g) (side_second ?vs e) h \<noteq> None"
      using fn ts hv by (simp_all add: am_edges_abs)
    show "isXYequal (point (abs_mesh g) h) (side_middle (abs_mesh g) ?vs e 0)"
      using fn(6) ts hv by (simp add: point_abs side_middle_def isXYequal_middle [where z = 0])
  qed (rule e3)
  ultimately show ?thesis using split by (simp add: split_at_def)
qed

lemma new_node_refines:
  assumes st: "state_of g n ps" and e: "e < 3"
    and res: "breakElementWithoutHangingNode g e ps = Inr (g', pushed)"
  shows "abs_step (ps_version2D ps) (abs_mesh g) (abs_mesh g') \<and> mesh_ok g'"
proof -
  note sd = state_ofD [OF st]
  let ?vs = "getNeighbours g n" and ?N = "length (nodes g)"
  obtain ed z where split: "split_at g n e ?N g'" and N: "?N \<notin> set (mesh_vertices g)"
    and ed: "edge_val g (side_first ?vs e) (side_second ?vs e) = Some ed"
    and nd: "getData g' ?N = midpoint_node g ?vs e ed z"
    and dat: "\<And>v. v < ?N \<Longrightarrow> getData g' v = getData g v"
    and ev: "\<And>p q. p \<le> ?N \<Longrightarrow> q \<le> ?N \<Longrightarrow> p \<noteq> n \<Longrightarrow> q \<noteq> n \<Longrightarrow> edge_val g' p q =
       connect3 (spoke ps (getNeutralVertex e) (border ed) (midpoint_node g ?vs e ed z))
         ?N ?vs (unlink_pair (side_first ?vs e) (side_second ?vs e) (edge_val g)) p q"
    by (rule new_node_split_at [OF st e res]) (rule that; assumption)
  note ts = triangle_sides [OF sd(1,2) refl e]
  let ?A = "abs_mesh g"
  have lt: "v < ?N" "v \<noteq> n" if "v \<in> set (mesh_vertices g)" for v
    using that mesh_store.interior_not_vertex [OF sd(2)]
    by (auto simp: is_vertex_iff [symmetric] mesh_store.vertex_def live_def)
  have nN: "?N \<noteq> n" using sd(2) by (auto simp: mesh_store.interiors_def live_def)
  have V: "set (mesh_vertices g') = insert ?N (set (mesh_vertices g))" using split by (simp add: split_at_def)
  have mid: "side_middle ?A ?vs e z = coords (midpoint_node g ?vs e ed z)"
    using ts by (simp add: side_middle_def point_abs midpoint_node_def Let_def)
  have vi: "?vs ! i \<in> set (mesh_vertices g)" "ps_verticesData ps ! i = getData g (?vs ! i)" if "i < 3" for i
    using mesh_store.tri_okD(3) [OF sd(1,2)] ts(2) that sd(5) by (simp_all add: is_vertex_iff [symmetric])
  have sp: "spoke ps (getNeutralVertex e) (border ed) (midpoint_node g ?vs e ed z) i =
      segment (ps_version2D ps) (i \<noteq> getNeutralVertex e \<and> border ed) (side_middle ?A ?vs e z) (point ?A (?vs ! i))"
    if "i < 3" for i
    using vi [OF that] by (simp add: spoke_def mid point_abs is_vertex_iff)
  have "abs_mesh g' = bisect_new (ps_version2D ps) ?vs e ?N z ?A"
  proof (rule amesh_eqI)
    show "am_points (abs_mesh g') = am_points (bisect_new (ps_version2D ps) ?vs e ?N z ?A)"
      using dat lt nd N by (auto simp: bisect_new_def Let_def abs_mesh_apply V mid fun_eq_iff)
    show "am_triangles (abs_mesh g') = am_triangles (bisect_new (ps_version2D ps) ?vs e ?N z ?A)"
      using split by (simp add: bisect_new_def Let_def split_at_def)
    have bd: "border (the (side_edge ?A ?vs e)) = border ed" using ed ts by (simp add: am_edges_abs)
    show "am_edges (abs_mesh g') p q = am_edges (bisect_new (ps_version2D ps) ?vs e ?N z ?A) p q" for p q
    proof (cases "p \<in> set (mesh_vertices g') \<and> q \<in> set (mesh_vertices g')")
      case True
      have no: "edge_val g ?N v = None" "edge_val g v ?N = None" for v
        using edge_val_live [of g ?N v] edge_val_live [of g v ?N] by (fastforce simp: live_def)+
      have E: "edge_val g p q = am_edges ?A p q" using True V no by (auto simp: abs_mesh_apply)
      have "p \<le> ?N" "q \<le> ?N" "p \<noteq> n" "q \<noteq> n" using True V lt nN by (auto intro: less_imp_le)
      note ev = ev [OF this]
      have "am_edges (abs_mesh g') p q = edge_val g' p q" using True by (simp add: abs_mesh_apply)
      also note ev
      also have "connect3 (spoke ps (getNeutralVertex e) (border ed) (midpoint_node g ?vs e ed z))
          ?N ?vs (unlink_pair (side_first ?vs e) (side_second ?vs e) (edge_val g)) p q =
          am_edges (bisect_new (ps_version2D ps) ?vs e ?N z ?A) p q"
        unfolding bisect_new_def Let_def amesh.select_convs bd
        by (rule connect3_cong) (simp_all only: sp unlink_pair_def E)
      finally show ?thesis .
    next
      case False
      have "\<not> same_pair ?N (?vs ! i) p q" if "i < 3" for i
        using False V vi(1) [OF that] by (auto simp: same_pair_def)
      note ns = this [of 0] this [of 1] this [of 2]
      have "am_edges ?A p q = None" "am_edges (abs_mesh g') p q = None"
        using False V by (auto simp: abs_mesh_apply)
      then show ?thesis
        using ns unfolding bisect_new_def Let_def amesh.select_convs connect3_def unlink_pair_def by simp
    qed
  qed
  moreover have "abs_step (ps_version2D ps) ?A (bisect_new (ps_version2D ps) ?vs e ?N z ?A)"
    using sd(2) interior_triangle [of n g] e ed ts N
    by (intro step_new) (simp_all add: set_mesh_interiors am_edges_abs dom_abs)
  ultimately show ?thesis using split by (simp add: split_at_def)
qed

lemma production_refines:
  assumes "state_of g n ps" "P \<in> set productions" "hanging_proper g (getNeighbours g n)"
    and "P g ps = Inr (g', pushed, True)"
  shows "abs_step (ps_version2D ps) (abs_mesh g) (abs_mesh g') \<and> mesh_ok g'"
proof -
  consider "P \<in> set new_node_productions" | "P \<in> set hanging_node_productions"
    using assms(2) by (auto simp: productions_def new_node_productions_def hanging_node_productions_def)
  then show ?thesis
  proof cases
    case 1
    then show ?thesis using new_node_True [OF 1 assms(4)] new_node_refines [OF assms(1)] by metis
  next
    case 2
    then show ?thesis
      using hanging_node_True [OF assms(1) 2 assms(4)] hanging_refines [OF assms(1) _ assms(3)] by metis
  qed
qed

section \<open>Well-formed abstract meshes\<close>

definition am_wf :: "amesh \<Rightarrow> bool" where
  "am_wf A \<longleftrightarrow>
     (\<forall>t \<in># am_triangles A. length t = 3 \<and> distinct t \<and> set t \<subseteq> dom (am_points A)) \<and>
     (\<forall>p q. am_edges A p q = am_edges A q p) \<and>
     (\<forall>p q. am_edges A p q \<noteq> None \<longrightarrow> p \<in> dom (am_points A))"

lemma am_wf_edges:
  assumes "am_wf A"
  shows "am_edges A p q = am_edges A q p" "am_edges A p q \<noteq> None \<Longrightarrow> p \<in> dom (am_points A)"
  using assms unfolding am_wf_def by meson+

lemma abs_mesh_wf:
  assumes "mesh_ok g"
  shows "am_wf (abs_mesh g)"
  unfolding am_wf_def
proof (intro conjI ballI allI impI)
  note tri = assms [unfolded mesh_ok_iff]
  fix t
  assume "t \<in># am_triangles (abs_mesh g)"
  then obtain n where n: "n \<in> mesh_store.interiors g" "t = getNeighbours g n"
    by (auto simp: mesh_triangles_def set_mesh_interiors)
  show "length t = 3" using mesh_store.tri_okD(2) [OF tri n(1)] n(2) by simp
  show "distinct t"
    using getNeighbours_distinct [OF mesh_store.tri_okD(1) [OF tri]] n by (simp add: mesh_store.interiors_def)
  show "set t \<subseteq> dom (am_points (abs_mesh g))"
    using mesh_store.tri_okD(3) [OF tri n(1)] n(2) by (auto simp: dom_abs is_vertex_iff [symmetric])
next
  fix p q
  show "am_edges (abs_mesh g) p q = am_edges (abs_mesh g) q p"
    using edge_val_sym [OF mesh_store.tri_okD(1) [OF assms [unfolded mesh_ok_iff]], of p q]
    by (simp add: abs_mesh_apply)
  show "p \<in> dom (am_points (abs_mesh g))" if "am_edges (abs_mesh g) p q \<noteq> None"
    using that by (auto simp: abs_mesh_apply split: if_splits)
qed

lemma wf_sides:
  assumes "am_wf A" "t \<in># am_triangles A" "e < 3"
  shows "side_first t e \<in> dom (am_points A)" "side_second t e \<in> dom (am_points A)"
    "opposite t e \<in> dom (am_points A)" "distinct [side_first t e, side_second t e, opposite t e]"
    "set t = {side_first t e, side_second t e, opposite t e}" "length t = 3"
proof -
  have t: "length t = 3" "distinct t" "set t \<subseteq> dom (am_points A)"
    using assms(1,2) by (auto simp: am_wf_def)
  show s: "set t = {side_first t e, side_second t e, opposite t e}" by (rule sides(1) [OF t(1) assms(3)])
  show "distinct [side_first t e, side_second t e, opposite t e]"
    using sides(2) [OF t(1) assms(3)] t(2) by simp
  show "side_first t e \<in> dom (am_points A)" "side_second t e \<in> dom (am_points A)"
    "opposite t e \<in> dom (am_points A)"
    using t(3) s by blast+
  show "length t = 3" by (rule t(1))
qed

lemma wf_nth: "am_wf A \<Longrightarrow> t \<in># am_triangles A \<Longrightarrow> k < 3 \<Longrightarrow> t ! k \<in> dom (am_points A)"
  using wf_sides(1) [of A t k] by (simp add: side_first_def)

text \<open>The sides next to the side \<open>e\<close>.\<close>

lemma next_sides:
  assumes "e < 3"
  shows "side_first t ((e + 1) mod 3) = side_second t e" "side_second t ((e + 1) mod 3) = opposite t e"
    "side_first t ((e + 2) mod 3) = opposite t e" "side_second t ((e + 2) mod 3) = side_first t e"
  using assms by (auto simp: less_3_cases side_first_def side_second_def opposite_def numeral_2_eq_2)

lemma triple_sides:
  "side_first [a, b, c] 0 = a" "side_first [a, b, c] 1 = b" "side_first [a, b, c] 2 = c"
  "side_second [a, b, c] 0 = b" "side_second [a, b, c] 1 = c" "side_second [a, b, c] 2 = a"
  by (simp_all add: side_first_def side_second_def)

lemma triple_side_cases:
  assumes "e < 3" "e = 0 \<Longrightarrow> P a b" "e = 1 \<Longrightarrow> P b c" "e = 2 \<Longrightarrow> P c a"
  shows "P (side_first [a, b, c] e) (side_second [a, b, c] e)"
proof -
  consider "e = 0" | "e = 1" | "e = 2" using assms(1) by linarith
  then show ?thesis by cases (simp_all only: triple_sides assms(2-4))
qed

section \<open>Areas\<close>

definition tri_area :: "amesh \<Rightarrow> nat list \<Rightarrow> real" where
  "tri_area A t = get_area (point A (t ! 0)) (point A (t ! 1)) (point A (t ! 2))"

definition total_area :: "amesh \<Rightarrow> real" where
  "total_area A = (\<Sum>t \<in># am_triangles A. tri_area A t)"

lemma tri_area_side:
  assumes "e < 3"
  shows "tri_area A t = get_area (point A (side_first t e)) (point A (side_second t e)) (point A (opposite t e))"
  using assms get_area_perm(1) [of "point A (t ! 0)" "point A (t ! 1)" "point A (t ! 2)"]
    get_area_perm(1) [of "point A (t ! 1)" "point A (t ! 2)" "point A (t ! 0)"]
  by (auto simp: tri_area_def less_3_cases side_first_def side_second_def opposite_def numeral_2_eq_2)

definition pair_middle :: "amesh \<Rightarrow> nat \<Rightarrow> nat \<Rightarrow> nat \<Rightarrow> bool" where
  "pair_middle A p q h \<longleftrightarrow> getX (point A h) = (getX (point A p) + getX (point A q)) / 2 \<and>
     getY (point A h) = (getY (point A p) + getY (point A q)) / 2"

lemma pair_middle_sym: "pair_middle A p q h = pair_middle A q p h"
  by (simp add: pair_middle_def add.commute)

lemma get_area_half:
  assumes "getX m = (getX a + getX b) / 2" "getY m = (getY a + getY b) / 2"
  shows "get_area m c a = get_area a b c / 2" "get_area m c b = get_area a b c / 2"
proof -
  have "signed_area2 m c a = signed_area2 a b c / 2" "signed_area2 m c b = - (signed_area2 a b c / 2)"
    unfolding signed_area2_def assms by (simp_all add: field_simps)
  then show "get_area m c a = get_area a b c / 2" "get_area m c b = get_area a b c / 2"
    by (simp_all add: get_area_signed)
qed

section \<open>Invariants of the refinement\<close>

definition resolved :: "amesh \<Rightarrow> bool" where
  "resolved A \<longleftrightarrow> (\<forall>u \<in> dom (am_points A). \<forall>v \<in> dom (am_points A).
     isXYequal (point A u) (point A v) \<longrightarrow> u = v)"

definition broken_have_middle :: "amesh \<Rightarrow> bool" where
  "broken_have_middle A \<longleftrightarrow> (\<forall>t \<in># am_triangles A. \<forall>e < 3. side_edge A t e = None \<longrightarrow>
     (\<exists>h \<in> dom (am_points A). pair_middle A (side_first t e) (side_second t e) h))"

definition lengths_ok :: "bool \<Rightarrow> amesh \<Rightarrow> bool" where
  "lengths_ok v2D A \<longleftrightarrow> (\<forall>p q d. am_edges A p q = Some d \<longrightarrow>
     edge_length d = coord_dist (point A p) (point A q) v2D)"

definition all_positive :: "amesh \<Rightarrow> bool" where
  "all_positive A \<longleftrightarrow> (\<forall>t \<in># am_triangles A. 0 < tri_area A t)"

definition good_mesh :: "bool \<Rightarrow> amesh \<Rightarrow> bool" where
  "good_mesh v2D A \<longleftrightarrow> am_wf A \<and> broken_have_middle A \<and> lengths_ok v2D A \<and> all_positive A"

text \<open>What both kinds of bisection have in common.\<close>

definition bisects :: "amesh \<Rightarrow> nat list \<Rightarrow> nat \<Rightarrow> nat \<Rightarrow> amesh \<Rightarrow> bool" where
  "bisects A t e h A' \<longleftrightarrow>
     t \<in># am_triangles A \<and> e < 3 \<and> am_triangles A' = split_triangle (am_triangles A) t e h \<and>
     am_points A \<subseteq>\<^sub>m am_points A' \<and> h \<in> dom (am_points A') \<and> h \<notin> set t \<and>
     pair_middle A' (side_first t e) (side_second t e) h \<and>
     (\<forall>p q. am_edges A' p q = am_edges A' q p) \<and>
     (\<forall>p q. am_edges A' p q \<noteq> None \<longrightarrow> p \<in> dom (am_points A')) \<and>
     (\<forall>v \<in> set t. am_edges A' h v \<noteq> None) \<and>
     (\<forall>p q. am_edges A' p q = None \<longrightarrow> am_edges A p q = None \<or> same_pair (side_first t e) (side_second t e) p q)"

lemma point_mono: "am_points A \<subseteq>\<^sub>m am_points A' \<Longrightarrow> v \<in> dom (am_points A) \<Longrightarrow> point A' v = point A v"
  by (auto simp: map_le_def point_def)

lemma split_triangle_cases:
  assumes "t' \<in># split_triangle T t e h"
  obtains "t' \<in># T" | "t' = [h, opposite t e, side_first t e]" | "t' = [h, opposite t e, side_second t e]"
  using assms by (auto simp: split_triangle_def dest: in_diffD)

lemma bisects_areas:
  assumes wf: "am_wf A" and b: "bisects A t e h A'"
  shows "tri_area A' [h, opposite t e, side_first t e] = tri_area A t / 2"
    "tri_area A' [h, opposite t e, side_second t e] = tri_area A t / 2"
    "t' \<in># am_triangles A \<Longrightarrow> tri_area A' t' = tri_area A t'"
proof -
  have t: "t \<in># am_triangles A" "e < 3" "am_points A \<subseteq>\<^sub>m am_points A'"
    and m: "pair_middle A' (side_first t e) (side_second t e) h"
    using b by (simp_all add: bisects_def)
  note s = wf_sides [OF wf t(1,2)]
  note half = get_area_half [OF m [unfolded pair_middle_def, THEN conjunct1]
      m [unfolded pair_middle_def, THEN conjunct2], of "point A' (opposite t e)"]
  show "tri_area A' [h, opposite t e, side_first t e] = tri_area A t / 2"
    "tri_area A' [h, opposite t e, side_second t e] = tri_area A t / 2"
    using half point_mono [OF t(3)] s(1-3)
    by (simp_all add: tri_area_side [OF t(2), of A t] tri_area_def [of A'])
  show "tri_area A' t' = tri_area A t'" if "t' \<in># am_triangles A"
    using wf_sides [OF wf that, of 0] point_mono [OF t(3)]
    by (simp add: tri_area_side [of 0])
qed

lemma bisects_total_area:
  assumes wf: "am_wf A" and b: "bisects A t e h A'"
  shows "total_area A' = total_area A"
proof -
  note ar = bisects_areas [OF assms]
  obtain T where T: "am_triangles A = add_mset t T"
    using b by (auto simp: bisects_def dest: multi_member_split)
  have T': "am_triangles A' = T + {#[h, opposite t e, side_first t e], [h, opposite t e, side_second t e]#}"
    using b by (simp add: bisects_def split_triangle_def T)
  have "image_mset (tri_area A') T = image_mset (tri_area A) T"
    using ar(3) T by (intro image_mset_cong) simp
  then show ?thesis using ar(1,2) by (simp add: total_area_def T T')
qed

lemma bisects_positive:
  assumes "am_wf A" "bisects A t e h A'" "all_positive A"
  shows "all_positive A'"
  unfolding all_positive_def
proof
  fix t'
  have t: "0 < tri_area A t" "am_triangles A' = split_triangle (am_triangles A) t e h"
    using assms(2,3) by (simp_all add: bisects_def all_positive_def)
  assume "t' \<in># am_triangles A'"
  then show "0 < tri_area A' t'"
    unfolding t(2) using bisects_areas [OF assms(1,2)] t(1) assms(3)
    by (cases rule: split_triangle_cases) (simp_all add: all_positive_def)
qed

lemma bisects_wf:
  assumes wf: "am_wf A" and b: "bisects A t e h A'"
  shows "am_wf A'"
proof -
  have t: "t \<in># am_triangles A" "e < 3" "am_points A \<subseteq>\<^sub>m am_points A'" "h \<in> dom (am_points A')" "h \<notin> set t"
    "am_triangles A' = split_triangle (am_triangles A) t e h"
    using b by (simp_all add: bisects_def)
  note s = wf_sides [OF wf t(1,2)]
  have d: "v \<in> dom (am_points A')" if "v \<in> dom (am_points A)" for v
    using map_le_implies_dom_le [OF t(3)] that by blast
  have "length t' = 3 \<and> distinct t' \<and> set t' \<subseteq> dom (am_points A')" if "t' \<in># am_triangles A'" for t'
    using that unfolding t(6)
  proof (cases rule: split_triangle_cases)
    case 1
    then have "length t' = 3" "distinct t'" "set t' \<subseteq> dom (am_points A)" using wf unfolding am_wf_def by blast+
    then show ?thesis using d by blast
  qed (use s t(4,5) d in auto)
  then show ?thesis using b by (simp add: am_wf_def bisects_def)
qed

lemma broken_middle_mono:
  assumes wf: "am_wf A" and "am_points A \<subseteq>\<^sub>m am_points A'" "broken_have_middle A"
    and "t \<in># am_triangles A" "e < 3" "side_edge A t e = None"
  shows "\<exists>h \<in> dom (am_points A'). pair_middle A' (side_first t e) (side_second t e) h"
proof -
  obtain h where "h \<in> dom (am_points A)" "pair_middle A (side_first t e) (side_second t e) h"
    using assms(3-6) unfolding broken_have_middle_def by blast
  then show ?thesis
    using wf_sides(1,2) [OF wf assms(4,5)] point_mono [OF assms(2)] map_le_implies_dom_le [OF assms(2)]
    by (intro bexI [of _ h]) (auto simp: pair_middle_def)
qed

lemma bisects_broken:
  assumes wf: "am_wf A" and b: "bisects A t e h A'" and mid: "broken_have_middle A"
  shows "broken_have_middle A'"
  unfolding broken_have_middle_def
proof (intro ballI allI impI)
  fix t' e'
  assume t': "t' \<in># am_triangles A'" and e': "e' < (3::nat)" and none: "side_edge A' t' e' = None"
  have t: "t \<in># am_triangles A" "e < 3" "am_points A \<subseteq>\<^sub>m am_points A'" "h \<in> dom (am_points A')"
    "am_triangles A' = split_triangle (am_triangles A) t e h"
    and m: "pair_middle A' (side_first t e) (side_second t e) h"
    and sym: "\<And>p q. am_edges A' p q = am_edges A' q p"
    and hv: "\<And>v. v \<in> set t \<Longrightarrow> am_edges A' h v \<noteq> None"
    and none': "\<And>p q. am_edges A' p q = None \<Longrightarrow> am_edges A p q = None \<or>
      same_pair (side_first t e) (side_second t e) p q"
    using b by (auto simp: bisects_def)
  note s = wf_sides [OF wf t(1,2)] and ns = next_sides [OF t(2), of t]
  have hs: "am_edges A' h v \<noteq> None" "am_edges A' v h \<noteq> None" if "v \<in> set t" for v
    using hv [OF that] sym [of h v] by simp_all
  have hs': "am_edges A' h (opposite t e) \<noteq> None" "am_edges A' (side_first t e) h \<noteq> None"
    "am_edges A' (side_second t e) h \<noteq> None"
    using hs s(5) by blast+
  have symA: "am_edges A p q = am_edges A q p" for p q using wf by (simp add: am_wf_def)
  have next1: "\<exists>h \<in> dom (am_points A'). pair_middle A' (side_second t e) (opposite t e) h"
    if "am_edges A (side_second t e) (opposite t e) = None"
    using broken_middle_mono [OF wf t(3) mid t(1), of "(e + 1) mod 3", unfolded ns] that by simp
  have next2: "\<exists>h \<in> dom (am_points A'). pair_middle A' (opposite t e) (side_first t e) h"
    if "am_edges A (opposite t e) (side_first t e) = None"
    using broken_middle_mono [OF wf t(3) mid t(1), of "(e + 2) mod 3", unfolded ns] that by simp
  show "\<exists>h \<in> dom (am_points A'). pair_middle A' (side_first t' e') (side_second t' e') h"
    using t' unfolding t(5)
  proof (cases rule: split_triangle_cases)
    case 1
    show ?thesis
      using none' [OF none] broken_middle_mono [OF wf t(3) mid 1 e'] m t(4) pair_middle_sym
      by (auto simp: same_pair_def)
  next
    case 2
    have "\<not> same_pair (side_first t e) (side_second t e) (opposite t e) (side_first t e)"
      using s(4) by (simp add: same_pair_def)
    then have "am_edges A' (opposite t e) (side_first t e) = None \<Longrightarrow>
        \<exists>h \<in> dom (am_points A'). pair_middle A' (opposite t e) (side_first t e) h"
      using none' [of "opposite t e" "side_first t e"] next2 by argo
    with hs' show ?thesis
      unfolding 2 by - (rule rev_mp [OF none [unfolded 2]], rule triple_side_cases [OF e'], auto)
  next
    case 3
    have "\<not> same_pair (side_first t e) (side_second t e) (opposite t e) (side_second t e)"
      using s(4) by (simp add: same_pair_def)
    then have "am_edges A' (opposite t e) (side_second t e) = None \<Longrightarrow>
        \<exists>h \<in> dom (am_points A'). pair_middle A' (opposite t e) (side_second t e) h"
      using none' [of "opposite t e" "side_second t e"] next1 symA pair_middle_sym by metis
    with hs' show ?thesis
      unfolding 3 by - (rule rev_mp [OF none [unfolded 3]], rule triple_side_cases [OF e'], auto)
  qed
qed

lemma connect3_cases:
  assumes "connect3 x h t E p q = Some d"
  obtains k where "k < 3" "same_pair h (t ! k) p q" "d = x k" | "E p q = Some d"
proof -
  have "(\<exists>k < 3. same_pair h (t ! k) p q \<and> d = x k) \<or> E p q = Some d"
    using assms unfolding connect3_def
    by (cases "same_pair h (t ! 2) p q"; cases "same_pair h (t ! 1) p q"; cases "same_pair h (t ! 0) p q")
      (auto intro: exI [of _ "0 :: nat"] exI [of _ "1 :: nat"] exI [of _ "2 :: nat"])
  then show thesis using that by blast
qed

lemma connect3_dom:
  assumes "connect3 x h t E p q \<noteq> None" "h \<in> D" "\<And>k. k < 3 \<Longrightarrow> t ! k \<in> D" "E p q \<noteq> None \<Longrightarrow> p \<in> D"
  shows "p \<in> D"
  using assms(1,2,4) assms(3) [of 0] assms(3) [of 1] assms(3) [of 2]
  by (auto simp: connect3_def same_pair_def split: if_splits)

text \<open>Both abstract steps are bisections.\<close>

lemma bisect_new_bisects:
  assumes wf: "am_wf A" and t: "t \<in># am_triangles A" "e < 3" and h: "h \<notin> dom (am_points A)"
  shows "bisects A t e h (bisect_new v2D t e h z A)"
proof -
  note s = wf_sides [OF wf t]
  let ?A = "bisect_new v2D t e h z A"
  let ?x = "\<lambda>i. segment v2D (i \<noteq> getNeutralVertex e \<and> border (the (side_edge A t e)))
    (side_middle A t e z) (point A (t ! i))"
  have E: "am_edges ?A = connect3 ?x h t (unlink_pair (side_first t e) (side_second t e) (am_edges A))"
    and P: "am_points ?A = (am_points A)(h \<mapsto> side_middle A t e z)"
    and T: "am_triangles ?A = split_triangle (am_triangles A) t e h"
    by (simp_all add: bisect_new_def Let_def)
  have ht: "h \<notin> set t" unfolding s(5) using s(1-3) h by auto
  note symA = am_wf_edges(1) [OF wf] and domA = am_wf_edges(2) [OF wf]
  have le: "am_points A \<subseteq>\<^sub>m am_points ?A" using h by (auto simp: P map_le_def)
  note tn = wf_nth [OF wf t(1)]
  have "pair_middle ?A (side_first t e) (side_second t e) h"
    using point_mono [OF le] s(1,2) by (simp add: pair_middle_def point_def [of ?A h] P side_middle_def)
  moreover have "am_edges ?A p q = am_edges ?A q p" for p q
    unfolding E connect3_def unlink_pair_def same_pair_commute [of _ _ p q] symA [of p q] ..
  moreover have "p \<in> dom (am_points ?A)" if "am_edges ?A p q \<noteq> None" for p q
    by (rule connect3_dom [OF that [unfolded E]]) (use tn domA in \<open>auto simp: P unlink_pair_def split: if_splits\<close>)
  moreover have "am_edges ?A h v \<noteq> None" if "v \<in> set t" for v
    using that s(6) unfolding E by (auto simp: connect3_def same_pair_def length_3_conv)
  moreover have "am_edges A p q = None \<or> same_pair (side_first t e) (side_second t e) p q"
    if "am_edges ?A p q = None" for p q
    using that unfolding E connect3_def unlink_pair_def by (auto split: if_splits)
  ultimately show ?thesis using t ht le unfolding bisects_def T by (auto simp: P)
qed

text \<open>When no two points are close to each other, the point found near the middle of a broken side
  is the one exactly there.\<close>

lemma resolved_middle:
  assumes "am_wf A" "resolved A" "broken_have_middle A" "t \<in># am_triangles A" "e < 3" "side_edge A t e = None"
    and "h \<in> dom (am_points A)" "isXYequal (point A h) (side_middle A t e z)"
  shows "pair_middle A (side_first t e) (side_second t e) h"
proof -
  obtain h' where h': "h' \<in> dom (am_points A)" "pair_middle A (side_first t e) (side_second t e) h'"
    using assms(3-6) unfolding broken_have_middle_def by blast
  then have "isXYequal (point A h) (point A h')"
    using assms(8) unfolding isXYequal_def side_middle_def pair_middle_def Coord_simps by metis
  then have "h = h'" using assms(2,7) h'(1) unfolding resolved_def by blast
  then show ?thesis using h'(2) by simp
qed

lemma bisect_old_bisects:
  assumes wf: "am_wf A" and t: "t \<in># am_triangles A" "e < 3" and h: "h \<in> dom (am_points A)" "h \<notin> set t"
    and linked: "am_edges A (side_first t e) h \<noteq> None" "am_edges A (side_second t e) h \<noteq> None"
    and mid: "pair_middle A (side_first t e) (side_second t e) h"
  shows "bisects A t e h (bisect_old v2D t e h A)"
proof -
  note s = wf_sides [OF wf t]
  note symA = am_wf_edges(1) [OF wf] and domA = am_wf_edges(2) [OF wf]
  have "am_edges A h (side_first t e) \<noteq> None" "am_edges A h (side_second t e) \<noteq> None"
    using linked symA by metis+
  moreover have "pair_middle (bisect_old v2D t e h A) (side_first t e) (side_second t e) h"
    using mid by (simp add: pair_middle_def point_def bisect_old_def)
  moreover have "am_edges (bisect_old v2D t e h A) p q = am_edges (bisect_old v2D t e h A) q p" for p q
    using symA [of p q] by (auto simp: bisect_old_def link_pair_def same_pair_def)
  moreover have "p \<in> dom (am_points A)" if "am_edges (bisect_old v2D t e h A) p q \<noteq> None" for p q
    using that domA [of p q] h(1) s(3)
    by (auto simp: bisect_old_def link_pair_def same_pair_def split: if_splits)
  moreover have "am_edges A p q = None" if "am_edges (bisect_old v2D t e h A) p q = None" for p q
    using that by (auto simp: bisect_old_def link_pair_def split: if_splits)
  ultimately show ?thesis
    using t h s(5) unfolding bisects_def by (auto simp: bisect_old_def link_pair_def same_pair_def)
qed

section \<open>The covered region\<close>

text \<open>The points of a triangle in the plane, and what all triangles cover.\<close>

definition combination :: "real \<Rightarrow> real \<Rightarrow> real \<Rightarrow> coordinates \<Rightarrow> coordinates \<Rightarrow> coordinates \<Rightarrow> real \<times> real" where
  "combination u v w a b c =
     (u * getX a + v * getX b + w * getX c, u * getY a + v * getY b + w * getY c)"

definition hull3 :: "coordinates \<Rightarrow> coordinates \<Rightarrow> coordinates \<Rightarrow> (real \<times> real) set" where
  "hull3 a b c = {p. \<exists>u v w. 0 \<le> u \<and> 0 \<le> v \<and> 0 \<le> w \<and> u + v + w = 1 \<and> p = combination u v w a b c}"

definition tri_hull :: "amesh \<Rightarrow> nat list \<Rightarrow> (real \<times> real) set" where
  "tri_hull A t = hull3 (point A (t ! 0)) (point A (t ! 1)) (point A (t ! 2))"

definition region :: "amesh \<Rightarrow> (real \<times> real) set" where
  "region A = (\<Union>t \<in> set_mset (am_triangles A). tri_hull A t)"

lemma hull3I: "0 \<le> u \<Longrightarrow> 0 \<le> v \<Longrightarrow> 0 \<le> w \<Longrightarrow> u + v + w = 1 \<Longrightarrow> combination u v w a b c = p \<Longrightarrow> p \<in> hull3 a b c"
  by (auto simp: hull3_def)

lemma hull3_rotate: "hull3 a b c = hull3 b c a"
proof -
  have sub: "hull3 a b c \<subseteq> hull3 b c a" for a b c
  proof
    fix p
    assume "p \<in> hull3 a b c"
    then obtain u v w where "0 \<le> u" "0 \<le> v" "0 \<le> w" "u + v + w = 1" "p = combination u v w a b c"
      by (auto simp: hull3_def)
    then show "p \<in> hull3 b c a" by (intro hull3I [of v w u]) (simp_all add: combination_def)
  qed
  show ?thesis using sub [of a b c] sub [of b c a] sub [of c a b] by blast
qed

text \<open>Halving a triangle at the middle \<open>m\<close> of the side \<open>a b\<close>.\<close>

lemma hull3_half:
  assumes m: "getX m = (getX a + getX b) / 2" "getY m = (getY a + getY b) / 2"
  shows "hull3 m c a \<union> hull3 m c b = hull3 a b c"
proof (intro equalityI subsetI)
  fix p
  assume "p \<in> hull3 m c a \<union> hull3 m c b"
  then consider u v w where "0 \<le> u" "0 \<le> v" "0 \<le> w" "u + v + w = 1" "p = combination u v w m c a"
    | u v w where "0 \<le> u" "0 \<le> v" "0 \<le> w" "u + v + w = 1" "p = combination u v w m c b"
    by (auto simp: hull3_def)
  then show "p \<in> hull3 a b c"
  proof cases
    case 1
    then show ?thesis
      by (intro hull3I [of "u / 2 + w" "u / 2" v]) (simp_all add: combination_def m field_simps)
  next
    case 2
    then show ?thesis
      by (intro hull3I [of "u / 2" "u / 2 + w" v]) (simp_all add: combination_def m field_simps)
  qed
next
  fix p
  assume "p \<in> hull3 a b c"
  then obtain u v w where p: "0 \<le> u" "0 \<le> v" "0 \<le> w" "u + v + w = 1" "p = combination u v w a b c"
    by (auto simp: hull3_def)
  show "p \<in> hull3 m c a \<union> hull3 m c b"
  proof (cases "v \<le> u")
    case True
    then have "p \<in> hull3 m c a"
      using p by (intro hull3I [of "2 * v" w "u - v"]) (simp_all add: combination_def m field_simps)
    then show ?thesis ..
  next
    case False
    then have "p \<in> hull3 m c b"
      using p by (intro hull3I [of "2 * u" w "v - u"]) (simp_all add: combination_def m field_simps)
    then show ?thesis ..
  qed
qed

lemma tri_hull_side:
  assumes "e < 3"
  shows "tri_hull A t = hull3 (point A (side_first t e)) (point A (side_second t e)) (point A (opposite t e))"
  using assms hull3_rotate [of "point A (t ! 0)" "point A (t ! 1)" "point A (t ! 2)"]
    hull3_rotate [of "point A (t ! 1)" "point A (t ! 2)" "point A (t ! 0)"]
  by (auto simp: tri_hull_def less_3_cases side_first_def side_second_def opposite_def numeral_2_eq_2)

lemma bisects_region:
  assumes wf: "am_wf A" and b: "bisects A t e h A'"
  shows "region A' = region A"
proof -
  have t: "t \<in># am_triangles A" "e < 3" "am_points A \<subseteq>\<^sub>m am_points A'"
    and m: "pair_middle A' (side_first t e) (side_second t e) h"
    using b by (simp_all add: bisects_def)
  note s = wf_sides [OF wf t(1,2)]
  obtain T where T: "am_triangles A = add_mset t T" using t(1) by (auto dest: multi_member_split)
  have T': "am_triangles A' = T + {#[h, opposite t e, side_first t e], [h, opposite t e, side_second t e]#}"
    using b by (simp add: bisects_def split_triangle_def T)
  have same: "tri_hull A' t' = tri_hull A t'" if "t' \<in># am_triangles A" for t'
    using wf_sides [OF wf that, of 0] point_mono [OF t(3)] by (simp add: tri_hull_side [of 0])
  have "tri_hull A' [h, opposite t e, side_first t e] \<union> tri_hull A' [h, opposite t e, side_second t e] = tri_hull A' t"
    using hull3_half [of "point A' h" "point A' (side_first t e)" "point A' (side_second t e)"] m
    by (simp add: tri_hull_side [OF t(2), of A' t] tri_hull_def [of A' "_ # _"] pair_middle_def)
  then show ?thesis
    using same T unfolding region_def T' by auto
qed

section \<open>Every abstract step keeps the invariants\<close>

lemma edge_length_segment [simp]: "edge_length (segment v2D b p q) = coord_dist p q v2D"
  by (simp add: segment_def EdgeData_new_def)

lemma bisect_new_lengths:
  assumes wf: "am_wf A" and t: "t \<in># am_triangles A" "e < 3" and h: "h \<notin> dom (am_points A)"
    and len: "lengths_ok v2D A"
  shows "lengths_ok v2D (bisect_new v2D t e h z A)"
  unfolding lengths_ok_def
proof (intro allI impI)
  fix p q d
  let ?A = "bisect_new v2D t e h z A" and ?m = "side_middle A t e z"
  assume d: "am_edges ?A p q = Some d"
  have le: "am_points A \<subseteq>\<^sub>m am_points ?A"
    using bisect_new_bisects [OF wf t h] by (simp add: bisects_def)
  have ph: "point ?A h = ?m" by (simp add: point_def bisect_new_def Let_def)
  have tn: "point ?A (t ! k) = point A (t ! k)" if "k < 3" for k
    by (rule point_mono [OF le wf_nth [OF wf t(1) that]])
  consider k where "k < 3" "same_pair h (t ! k) p q" "edge_length d = coord_dist ?m (point A (t ! k)) v2D"
    | "am_edges A p q = Some d"
    using d [unfolded bisect_new_def Let_def amesh.select_convs]
    by (rule connect3_cases) (auto simp: unlink_pair_def split: if_splits)
  then show "edge_length d = coord_dist (point ?A p) (point ?A q) v2D"
  proof cases
    case 1
    then show ?thesis using tn ph coord_dist_sym by (auto simp: same_pair_def)
  next
    case 2
    then have "p \<in> dom (am_points A)" "q \<in> dom (am_points A)"
      using am_wf_edges [OF wf, of p q] am_wf_edges(2) [OF wf, of q p] by simp_all
    then show ?thesis using 2 len point_mono [OF le] by (simp add: lengths_ok_def)
  qed
qed

lemma bisect_old_lengths:
  "lengths_ok v2D A \<Longrightarrow> lengths_ok v2D (bisect_old v2D t e h A)"
  by (auto simp: lengths_ok_def bisect_old_def link_pair_def same_pair_def point_def coord_dist_sym
      split: if_splits)

definition keeps :: "amesh \<Rightarrow> amesh \<Rightarrow> bool" where
  "keeps A A' \<longleftrightarrow> am_points A \<subseteq>\<^sub>m am_points A' \<and> total_area A' = total_area A \<and> region A' = region A"

lemma abs_step_good:
  assumes "abs_step v2D A A'" "good_mesh v2D A" "resolved A"
  shows "good_mesh v2D A' \<and> keeps A A'"
proof -
  have g: "am_wf A" "broken_have_middle A" "lengths_ok v2D A" "all_positive A"
    using assms(2) by (simp_all add: good_mesh_def)
  have "\<exists>t e h. bisects A t e h A' \<and> lengths_ok v2D A'"
    using assms(1)
  proof cases
    case (step_new t e h z)
    then show ?thesis using bisect_new_bisects bisect_new_lengths g by blast
  next
    case (step_old t e h)
    then have "pair_middle A (side_first t e) (side_second t e) h"
      using resolved_middle [OF g(1) assms(3) g(2)] by blast
    then show ?thesis using step_old bisect_old_bisects bisect_old_lengths g by blast
  qed
  then obtain t e h where b: "bisects A t e h A'" "lengths_ok v2D A'" by blast
  then show ?thesis
    using bisects_wf [OF g(1) b(1)] bisects_broken [OF g(1) b(1) g(2)] bisects_positive [OF g(1) b(1) g(4)]
      bisects_total_area [OF g(1) b(1)] bisects_region [OF g(1) b(1)]
    by (simp add: good_mesh_def keeps_def bisects_def)
qed

end
