(* ===== verification/Generator.thy ===== *)
theory Generator
  imports Terrain_Map Connectivity
begin

text \<open>
  \<open>utils/GraphGenerator.h\<close>: the initial meshes. The generator of the program,
  \<open>generateSampleGraphWithDataWithConversionToUtm\<close>, makes two triangles over the rectangle of the
  map; the others are fixed sample meshes. All of them extend the graph they are given.
\<close>

section \<open>Edges\<close>

text \<open>The older generators look the edge up again before each write.\<close>

definition write_found :: "mesh \<Rightarrow> nat \<Rightarrow> nat \<Rightarrow> (edge_data \<Rightarrow> edge_data) \<Rightarrow> mesh res" where
  "write_found g u v f = upd_edge_at g (u, findEdge g u v) f"

definition add_full_edge :: "mesh \<Rightarrow> nat \<Rightarrow> nat \<Rightarrow> bool \<Rightarrow> coordinates \<Rightarrow> real \<Rightarrow> mesh res" where
  "add_full_edge g u v b m l =
     bindR (write_found (fst (addEdge EdgeData_default g u v)) u v (setBorder b)) (\<lambda>g1.
     bindR (write_found g1 u v (setMiddlePoint m)) (\<lambda>g2.
     write_found g2 u v (setLength l)))"

fun add_full_edges ::
  "mesh \<Rightarrow> (nat \<times> nat \<times> bool \<times> coordinates \<times> real) list \<Rightarrow> mesh res" where
  "add_full_edges g [] = Inr g"
| "add_full_edges g ((u, v, b, m, l) # es) =
     bindR (add_full_edge g u v b m l) (\<lambda>g'. add_full_edges g' es)"

text \<open>The edges from a hyperedge to its vertices only get the border flag.\<close>

fun add_hyper_edges :: "mesh \<Rightarrow> (nat \<times> nat) list \<Rightarrow> mesh res" where
  "add_hyper_edges g [] = Inr g"
| "add_hyper_edges g ((h, v) # es) =
     bindR (write_found (fst (addEdge EdgeData_default g h v)) h v (setBorder False)) (\<lambda>g'.
       add_hyper_edges g' es)"

fun cm_createEdges :: "mesh \<Rightarrow> (nat \<times> nat \<times> bool \<times> coordinates \<times> real) list \<Rightarrow> mesh res" where
  "cm_createEdges g [] = Inr g"
| "cm_createEdges g ((u, v, b, m, l) # es) =
     bindR (cm_createEdge g u v b m l) (\<lambda>g'. cm_createEdges g' es)"

section \<open>The unit square\<close>

definition createVertex :: "mesh \<Rightarrow> coordinates \<Rightarrow> mesh \<times> nat" where
  "createVertex g c = cm_createNode g (NodeData_vertex False c False)"

text \<open>The four corners of a rectangle, in the order all generators use.\<close>

definition createCorners ::
  "mesh \<Rightarrow> coordinates \<Rightarrow> coordinates \<Rightarrow> coordinates \<Rightarrow> coordinates \<Rightarrow> mesh \<times> nat list" where
  "createCorners g c0 c1 c2 c3 =
     (let (g0, n0) = createVertex g c0; (g1, n1) = createVertex g0 c1;
          (g2, n2) = createVertex g1 c2; (g3, n3) = createVertex g2 c3
      in (g3, [n0, n1, n2, n3]))"

definition createTwoInteriors :: "mesh \<Rightarrow> nat list \<Rightarrow> mesh" where
  "createTwoInteriors g ns =
     (let (g1, _) = createInterior g (ns ! 0) (ns ! 1) (ns ! 3);
          (g2, _) = createInterior g1 (ns ! 0) (ns ! 3) (ns ! 2)
      in g2)"

definition generateSampleGraph :: "mesh \<Rightarrow> mesh res" where
  "generateSampleGraph g =
     (let (g1, ns) = createCorners g (Coord 0 0 0) (Coord 0 1 0) (Coord 1 0 0) (Coord 1 1 0)
      in mapR (\<lambda>g2. createTwoInteriors g2 ns)
           (cm_createEdges g1
              [(ns ! 0, ns ! 1, True, Coord 0 (1 / 2) 0, 1),
               (ns ! 1, ns ! 3, True, Coord (1 / 2) 1 0, 1),
               (ns ! 2, ns ! 3, True, Coord 1 (1 / 2) 0, 1),
               (ns ! 0, ns ! 2, True, Coord (1 / 2) 0 0, 1),
               (ns ! 3, ns ! 0, False, Coord (1 / 2) (1 / 2) 0, sqrt 2)]))"

section \<open>Rectangles of a map\<close>

text \<open>The constructors \<open>Coordinates{x, y, map}\<close> and \<open>Coordinates{pair, map}\<close>, with the state of the
  conversion library.\<close>

definition map_point ::
  "(utm \<Rightarrow> real \<Rightarrow> real \<Rightarrow> (utm \<times> real) res) \<Rightarrow> utm \<Rightarrow> real \<Rightarrow> real \<Rightarrow> (utm \<times> coordinates) res" where
  "map_point height st x y = mapR (\<lambda>(st', z). (st', Coord x y z)) (height st x y)"

text \<open>The corner \<open>Coordinates{Utils::convertToUtm(lat, lon, map), map}\<close>.\<close>

definition utm_corner ::
  "utm \<Rightarrow> tmap \<Rightarrow> real \<Rightarrow> real \<Rightarrow> (utm \<times> tmap \<times> coordinates) res" where
  "utm_corner st m lat lon =
     bindR (convertToUtm st lat lon m) (\<lambda>(st1, m1, (x, y)).
     mapR (\<lambda>(st2, c). (st2, m1, c)) (map_point (\<lambda>st. get_height st m1) st1 x y))"

text \<open>The edges of the rectangle with the middle points the generators give them. \<open>height\<close> is the
  call of \<open>get_height\<close> for the middle points.\<close>

definition rectangle_edges ::
  "(utm \<Rightarrow> real \<Rightarrow> real \<Rightarrow> (utm \<times> real) res) \<Rightarrow> utm \<Rightarrow> mesh \<Rightarrow> nat list \<Rightarrow> real \<Rightarrow> real \<Rightarrow> real \<Rightarrow> real
     \<Rightarrow> bool \<Rightarrow> (utm \<times> mesh) res" where
  "rectangle_edges height st g ns west north east south version2D =
     (let c = (\<lambda>i. coords (getData g (ns ! i)));
          len = (\<lambda>i j. coord_dist (c i) (c j) version2D);
          mid_x = (west + east) / 2; mid_y = (north + south) / 2
      in bindR (map_point height st west mid_y) (\<lambda>(st, m1).
         bindR (cm_createEdge g (ns ! 0) (ns ! 1) True m1 (len 0 1)) (\<lambda>g1.
         bindR (map_point height st mid_x north) (\<lambda>(st, m2).
         bindR (cm_createEdge g1 (ns ! 1) (ns ! 3) True m2 (len 1 3)) (\<lambda>g2.
         bindR (map_point height st east mid_y) (\<lambda>(st, m3).
         bindR (cm_createEdge g2 (ns ! 2) (ns ! 3) True m3 (len 2 3)) (\<lambda>g3.
         bindR (map_point height st mid_x south) (\<lambda>(st, m4).
         bindR (cm_createEdge g3 (ns ! 0) (ns ! 2) True m4 (len 0 2)) (\<lambda>g4.
         bindR (map_point height st mid_x mid_y) (\<lambda>(st, m5).
         mapR (Pair st) (cm_createEdge g4 (ns ! 3) (ns ! 0) False m5 (len 3 0))))))))))))"

definition generateSampleGraphWithDataWithConversionToUtm ::
  "utm \<Rightarrow> mesh \<Rightarrow> tmap \<Rightarrow> real \<Rightarrow> real \<Rightarrow> real \<Rightarrow> real \<Rightarrow> bool \<Rightarrow> (utm \<times> tmap \<times> mesh) res" where
  "generateSampleGraphWithDataWithConversionToUtm st g m west north east south version2D =
     bindR (convertToUtm st south west m) (\<lambda>(st, m, _).
     bindR (utm_corner st m south west) (\<lambda>(st, m, c0).
     bindR (utm_corner st m north west) (\<lambda>(st, m, c1).
     bindR (utm_corner st m south east) (\<lambda>(st, m, c2).
     bindR (utm_corner st m north east) (\<lambda>(st, m, c3).
       let (g1, ns) = createCorners g c0 c1 c2 c3
       in bindR (rectangle_edges (\<lambda>st x y. get_height_convert st m x y False) st g1 ns
                   west north east south version2D) (\<lambda>(st, g2).
            Inr (st, m, createTwoInteriors g2 ns)))))))"

text \<open>The variant without conversion takes its first argument as the abscissa, so the corners are
  at (latitude, longitude) while the middle points are at (longitude, latitude).\<close>

definition generateSampleGraphWithData ::
  "utm \<Rightarrow> mesh \<Rightarrow> tmap \<Rightarrow> real \<Rightarrow> real \<Rightarrow> real \<Rightarrow> real \<Rightarrow> bool \<Rightarrow> (utm \<times> tmap \<times> mesh) res" where
  "generateSampleGraphWithData st g m west north east south version2D =
     bindR (convertToUtm st south west m) (\<lambda>(st, m, _).
     bindR (map_point (\<lambda>st. get_height st m) st south west) (\<lambda>(st, c0).
     bindR (map_point (\<lambda>st. get_height st m) st north west) (\<lambda>(st, c1).
     bindR (map_point (\<lambda>st. get_height st m) st south east) (\<lambda>(st, c2).
     bindR (map_point (\<lambda>st. get_height st m) st north east) (\<lambda>(st, c3).
       let (g1, ns) = createCorners g c0 c1 c2 c3
       in bindR (rectangle_edges (\<lambda>st. get_height st m) st g1 ns west north east south version2D)
            (\<lambda>(st, g2). Inr (st, m, createTwoInteriors g2 ns)))))))"

section \<open>Sample graph 3\<close>

text \<open>Creating all nodes first, then adding them: \<open>createNode\<close> numbers them in order.\<close>

fun create_nodes :: "mesh \<Rightarrow> node_data list \<Rightarrow> mesh" where
  "create_nodes g [] = g"
| "create_nodes g (d # ds) = create_nodes (fst (createNode g d)) ds"

definition graph3_nodes :: "node_data list" where
  "graph3_nodes =
     map (\<lambda>(x, y). NodeData_vertex False (Coord x y 0) False)
       [(0, 0), (0, 1), (1, 0), (1, 1), (3 / 2, 1 / 2), (1 / 2, - 1 / 2)] @
     map (\<lambda>(x, y). NodeData_interior True True (Coord x y 0))
       [(3 / 10, 7 / 10), (7 / 10, 3 / 10), (117 / 100, 1 / 2), (1 / 2, - 17 / 100)]"

definition graph3_edges :: "(nat \<times> nat \<times> bool \<times> coordinates \<times> real) list" where
  "graph3_edges =
     [(0, 1, True, Coord 0 (1 / 2) 0, 1),
      (1, 3, True, Coord (1 / 2) 1 0, 1),
      (2, 3, False, Coord 1 (1 / 2) 0, 1),
      (0, 2, False, Coord (1 / 2) 0 0, 1),
      (3, 0, False, Coord (1 / 2) (1 / 2) 0, sqrt 2),
      (4, 3, True, Coord (5 / 4) (3 / 4) 0, sqrt 2 / 2),
      (4, 2, True, Coord (5 / 4) (1 / 4) 0, sqrt 2 / 2),
      (5, 0, True, Coord (1 / 4) (- 1 / 4) 0, sqrt 2 / 2),
      (5, 2, True, Coord (3 / 4) (- 1 / 4) 0, sqrt 2 / 2)]"

definition graph3_hyper_edges :: "(nat \<times> nat) list" where
  "graph3_hyper_edges =
     [(6, 0), (6, 1), (6, 3), (7, 0), (7, 3), (7, 2), (8, 4), (8, 3), (8, 2), (9, 0), (9, 2), (9, 5)]"

definition generateSampleGraph3 :: "mesh \<Rightarrow> mesh res" where
  "generateSampleGraph3 g =
     (let N = length (nodes g);
          g1 = create_nodes g graph3_nodes;
          g2 = fold (\<lambda>k g. addNode g (N + k)) [0..<10] g1
      in bindR (add_full_edges g2 (map (\<lambda>(u, v, r). (N + u, N + v, r)) graph3_edges)) (\<lambda>g3.
         add_hyper_edges g3 (map (\<lambda>(h, v). (N + h, N + v)) graph3_hyper_edges)))"

section \<open>Sample graph 2\<close>

definition graph2_nodes :: "node_data list" where
  "graph2_nodes =
     map (\<lambda>i. NodeData_vertex False (Coord (real (i mod 3)) (real (i div 3)) 0) False) [0..<9] @
     map (\<lambda>i. NodeData_plain True True) [0..<8]"

definition graph2_edges :: "(nat \<times> nat \<times> bool \<times> coordinates \<times> real) list" where
  "graph2_edges =
     [(0, 1, True, Coord (1 / 2) 0 0, 1), (1, 2, True, Coord (3 / 2) 0 0, 1),
      (0, 3, True, Coord 0 (1 / 2) 0, 1), (1, 4, True, Coord 1 (1 / 2) 0, 1),
      (2, 5, True, Coord 2 (1 / 2) 0, 1), (3, 4, True, Coord (1 / 2) 1 0, 1),
      (4, 5, True, Coord (3 / 2) 1 0, 1), (3, 6, True, Coord 0 (3 / 2) 0, 1),
      (4, 7, True, Coord 1 (3 / 2) 0, 1), (5, 8, True, Coord 2 (3 / 2) 0, 1),
      (6, 7, True, Coord (1 / 2) 2 0, 1), (7, 8, True, Coord (3 / 2) 2 0, 1)]"

text \<open>The loop over \<open>j\<close>; \<open>j / 2\<close> and \<open>j % 2\<close> are integer operations.\<close>

definition graph2_diagonals :: "(nat \<times> nat \<times> bool \<times> coordinates \<times> real) list" where
  "graph2_diagonals =
     concat (map (\<lambda>j.
       [(j, j + 4, True, Coord (1 / 2 + real (j div 2)) (1 / 2 + real (j mod 2)) 0, sqrt 2),
        (j + 3, j + 7, True, Coord (1 / 2 + real (j div 2)) (1 / 2 + real (j mod 2)) 0, sqrt 2)])
       [0..<2])"

definition graph2_hyper_edges :: "(nat \<times> nat) list" where
  "graph2_hyper_edges =
     concat (map (\<lambda>k.
       [(9 + k, (k + k div 2) mod 9), (9 + k, (k + 1 + k div 2) mod 9), (9 + k, (k + 4 + k div 2) mod 9),
        (9 + (k + 4) mod 8, (k + k div 2) mod 9), (9 + (k + 4) mod 8, (k + 3 + k div 2) mod 9),
        (9 + (k + 4) mod 8, (k + 4 + k div 2) mod 9)])
       [0..<4])"

definition generateSampleGraph2 :: "mesh \<Rightarrow> mesh res" where
  "generateSampleGraph2 g =
     (let N = length (nodes g);
          g1 = fold (\<lambda>d g. fst (cm_createNode g d)) graph2_nodes g
      in bindR (add_full_edges g1
                  (map (\<lambda>(u, v, r). (N + u, N + v, r)) (graph2_edges @ graph2_diagonals))) (\<lambda>g2.
         Inr (fold (\<lambda>(h, v) g. fst (addEdge EdgeData_default g (N + h) (N + v)))
                graph2_hyper_edges g2)))"

end
