(* ===== verification/Generator_Laws.thy ===== *)
theory Generator_Laws
  imports Generator Production_Laws
begin

text \<open>
  What the generators produce: the writes of \<open>createEdge\<close> come down to one edge operation of the
  store, and the rectangle of four corners, five edges and two interiors is a well-formed mesh of
  two triangles.
\<close>

section \<open>Creating edges\<close>

lemma upd_found_edge:
  assumes "mg_inv g" "live g u" "live g v" "edge_val g u v \<noteq> None"
  shows "upd_edge_at g (u, findEdge g u v) f = Inr (updEdgeData g u (findEdge g u v) f)"
  using assms by (simp add: upd_edge_at_def edge_val_def split: if_splits)

lemma cm_createEdge_eq:
  assumes "mg_inv g" "live g u" "live g v" "u \<noteq> v"
  shows "cm_createEdge g u v b m l = Inr (put_edge g u v (EdgeData_new b l m))"
proof -
  let ?g1 = "fst (addEdge EdgeData_default g u v)"
  let ?it = "findEdge ?g1 u v"
  have it: "snd (addEdge EdgeData_default g u v) = ?it" by (rule addEdge_iterator [OF assms])
  have valid: "?it < length (edges (node ?g1 u))"
    using addEdge_iterator_valid [OF assms, of EdgeData_default] by (simp add: it)
  have upd: "upd_edge_at h (u, ?it) f = Inr (updEdgeData h u ?it f)" if "node h = node ?g1" for h f
    using valid that by (simp add: upd_edge_at_def)
  have "cm_createEdge g u v b m l = Inr (updEdgeData (updEdgeData (updEdgeData ?g1 u ?it
      (setBorder b)) u ?it (setMiddlePoint m)) u ?it (setLength l))"
    by (simp add: cm_createEdge_def Let_def upd)
  also have "updEdgeData (updEdgeData (updEdgeData ?g1 u ?it
      (setBorder b)) u ?it (setMiddlePoint m)) u ?it (setLength l) = put_edge g u v (EdgeData_new b l m)"
    using addEdge_write3 [OF assms, of "setLength l" "setMiddlePoint m" "setBorder b"]
    by (simp add: edge_setters case_prod_beta Let_def it)
  finally show ?thesis .
qed

text \<open>A list of edges between vertices.\<close>

fun put_edges :: "mesh \<Rightarrow> (nat \<times> nat \<times> edge_data) list \<Rightarrow> mesh" where
  "put_edges g [] = g"
| "put_edges g ((u, v, x) # es) = put_edges (put_edge g u v x) es"

definition vertex_pairs :: "mesh \<Rightarrow> (nat \<times> nat \<times> 'a) list \<Rightarrow> bool" where
  "vertex_pairs g es \<longleftrightarrow> (\<forall>(u, v, x) \<in> set es. is_vertex g u \<and> is_vertex g v \<and> u \<noteq> v)"

lemma put_edge_vertex [simp]:
  assumes "mg_inv g" "is_vertex g u" "is_vertex g v" "u \<noteq> v"
  shows "is_vertex (put_edge g u v x) = is_vertex g"
proof -
  have "live g u" "live g v" using assms by (simp_all add: mesh_store.vertex_def)
  note p = put_edge_laws [OF assms(1) this assms(4)]
  show ?thesis by (simp add: mesh_store.vertex_def p(3,4) fun_eq_iff)
qed

lemma put_edges_step:
  assumes "mesh_store.tri_ok g" "vertex_pairs g ((u, v, x) # es)"
  defines "h \<equiv> put_edge g u v x"
  shows "mesh_store.tri_ok h" "vertex_pairs h es" "mesh_store.triangles h = mesh_store.triangles g"
    "mesh_store.interiors h = mesh_store.interiors g" "is_vertex h = is_vertex g"
    "length (nodes h) = length (nodes g)" "live h = live g" "getData h = getData g"
    "edge_val h p q = (if same_pair u v p q then Some x else edge_val g p q)"
proof -
  have uv: "is_vertex g u" "is_vertex g v" "u \<noteq> v" using assms(2) by (simp_all add: vertex_pairs_def)
  have l: "live g u" "live g v" using uv by (simp_all add: mesh_store.vertex_def)
  note inv = mesh_store.tri_okD(1) [OF assms(1)]
  show "mesh_store.tri_ok h" "mesh_store.triangles h = mesh_store.triangles g"
    "mesh_store.interiors h = mesh_store.interiors g"
    unfolding h_def by (rule mesh_store.put_vertex_edge [OF assms(1) uv])+
  note p = put_edge_laws [OF inv l uv(3)]
  show vx: "is_vertex h = is_vertex g" unfolding h_def by (rule put_edge_vertex [OF inv uv])
  show "vertex_pairs h es" using assms(2) by (simp add: vertex_pairs_def vx)
  show "length (nodes h) = length (nodes g)" "live h = live g" "getData h = getData g"
    "edge_val h p q = (if same_pair u v p q then Some x else edge_val g p q)"
    unfolding h_def by (rule p ext)+
qed

lemma put_edges_laws:
  assumes "mesh_store.tri_ok g" "vertex_pairs g es"
  shows "mesh_store.tri_ok (put_edges g es) \<and>
    mesh_store.triangles (put_edges g es) = mesh_store.triangles g \<and>
    mesh_store.interiors (put_edges g es) = mesh_store.interiors g \<and>
    is_vertex (put_edges g es) = is_vertex g \<and>
    length (nodes (put_edges g es)) = length (nodes g) \<and>
    live (put_edges g es) = live g \<and> getData (put_edges g es) = getData g"
  using assms
proof (induction g es rule: put_edges.induct)
  case (2 g u v x es)
  note st = put_edges_step [OF "2.prems"]
  show ?case using "2.IH" [OF st(1,2)] by (simp only: put_edges.simps st(3-8))
qed simp

lemma find_snoc:
  "find P (xs @ [y]) = (case find P xs of None \<Rightarrow> (if P y then Some y else None) | Some z \<Rightarrow> Some z)"
  by (induction xs) auto

lemma put_edges_val:
  assumes "mesh_store.tri_ok g" "vertex_pairs g es"
  shows "edge_val (put_edges g es) p q =
    (case find (\<lambda>(u, v, x). same_pair u v p q) (rev es) of
       None \<Rightarrow> edge_val g p q | Some (u, v, x) \<Rightarrow> Some x)"
  using assms
proof (induction g es rule: put_edges.induct)
  case (2 g u v x es)
  note st = put_edges_step [OF "2.prems"]
  show ?case
    using "2.IH" [OF st(1,2)] st(9) [of p q]
    by (simp add: find_snoc split: option.splits prod.splits)
qed simp

lemma cm_createEdges_eq:
  assumes "mesh_store.tri_ok g" "vertex_pairs g es"
  shows "cm_createEdges g es = Inr (put_edges g (map (\<lambda>(u, v, b, m, l). (u, v, EdgeData_new b l m)) es))"
  using assms
proof (induction g es rule: cm_createEdges.induct)
  case (2 g u v b m l es)
  have "vertex_pairs g ((u, v, EdgeData_new b l m) # [])"
    using "2.prems" by (simp add: vertex_pairs_def)
  note st = put_edges_step [OF "2.prems"(1) this]
  have vp: "vertex_pairs (put_edge g u v (EdgeData_new b l m)) es"
    using "2.prems"(2) st(5) by (simp add: vertex_pairs_def)
  have "cm_createEdge g u v b m l = Inr (put_edge g u v (EdgeData_new b l m))"
    using "2.prems" mesh_store.tri_okD(1)
    by (intro cm_createEdge_eq) (auto simp: vertex_pairs_def mesh_store.vertex_def)
  then show ?case using "2.IH" [OF st(1) vp] by simp
qed simp

section \<open>Corners\<close>

lemma createVertex_laws:
  fixes g :: mesh and c :: coordinates
  assumes "mesh_store.tri_ok g"
  defines "g' \<equiv> fst (createVertex g c)"
  shows "snd (createVertex g c) = length (nodes g)" "mesh_store.tri_ok g'"
    "mesh_store.triangles g' = mesh_store.triangles g"
    "mesh_store.interiors g' = mesh_store.interiors g"
    "length (nodes g') = Suc (length (nodes g))"
    "is_vertex g' v \<longleftrightarrow> is_vertex g v \<or> v = length (nodes g)"
    "v \<le> length (nodes g) \<Longrightarrow>
       getData g' v = (if v = length (nodes g) then NodeData_vertex False c False else getData g v)"
    "edge_val g' p q = edge_val g p q"
proof -
  have g': "g' = new_node g (NodeData_vertex False c False)"
    by (simp add: g'_def createVertex_def cm_createNode_eq)
  note inv = mesh_store.tri_okD(1) [OF assms(1)]
  show "snd (createVertex g c) = length (nodes g)" by (simp add: createVertex_def cm_createNode_eq)
  show "mesh_store.tri_ok g'" "mesh_store.triangles g' = mesh_store.triangles g"
    "mesh_store.interiors g' = mesh_store.interiors g"
    unfolding g' by (rule mesh_store.add_vertex [OF assms(1)]; simp)+
  show "length (nodes g') = Suc (length (nodes g))" by (simp add: g')
  show dat: "getData g' v = (if v = length (nodes g) then NodeData_vertex False c False else getData g v)"
    if "v \<le> length (nodes g)" for v
    using that by (simp add: g' getData_new_node)
  show "edge_val g' p q = edge_val g p q" unfolding g' by (rule edge_val_new_node [OF inv])
  show "is_vertex g' v \<longleftrightarrow> is_vertex g v \<or> v = length (nodes g)"
    using dat [of v] by (cases "v \<le> length (nodes g)")
      (auto simp: mesh_store.vertex_def g' live_new_node live_def [of g])
qed

lemma createCorners_laws:
  fixes g :: mesh and c0 c1 c2 c3 :: coordinates
  assumes "mesh_store.tri_ok g"
  defines "N \<equiv> length (nodes g)" and "g' \<equiv> fst (createCorners g c0 c1 c2 c3)"
  shows "snd (createCorners g c0 c1 c2 c3) = [N, N + 1, N + 2, N + 3]" "mesh_store.tri_ok g'"
    "mesh_store.triangles g' = mesh_store.triangles g"
    "mesh_store.interiors g' = mesh_store.interiors g"
    "length (nodes g') = N + 4"
    "is_vertex g' v \<longleftrightarrow> is_vertex g v \<or> v \<in> {N, N + 1, N + 2, N + 3}"
    "v < N \<Longrightarrow> getData g' v = getData g v"
    "getData g' N = NodeData_vertex False c0 False"
    "getData g' (N + 1) = NodeData_vertex False c1 False"
    "getData g' (N + 2) = NodeData_vertex False c2 False"
    "getData g' (N + 3) = NodeData_vertex False c3 False"
    "edge_val g' p q = edge_val g p q"
proof -
  note k0 = createVertex_laws [OF assms(1), where c = c0]
  note k1 = createVertex_laws [OF k0(2), where c = c1]
  note k2 = createVertex_laws [OF k1(2), where c = c2]
  note k3 = createVertex_laws [OF k2(2), where c = c3]
  let ?g0 = "fst (createVertex g c0)"
  let ?g1 = "fst (createVertex ?g0 c1)"
  let ?g2 = "fst (createVertex ?g1 c2)"
  let ?g3 = "fst (createVertex ?g2 c3)"
  have eq: "createCorners g c0 c1 c2 c3 = (?g3, [N, N + 1, N + 2, N + 3])"
    by (simp add: createCorners_def case_prod_beta Let_def k0(1,5) k1(1,5) k2(1,5) k3(1) N_def)
  have g': "g' = ?g3" by (simp add: g'_def eq)
  have len: "length (nodes g) = N" "length (nodes ?g0) = N + 1" "length (nodes ?g1) = N + 2"
    "length (nodes ?g2) = N + 3"
    by (simp_all add: k0(5) k1(5) k2(5) N_def)
  show "snd (createCorners g c0 c1 c2 c3) = [N, N + 1, N + 2, N + 3]" by (simp add: eq)
  show "mesh_store.tri_ok g'" unfolding g' by (rule k3(2))
  show "mesh_store.triangles g' = mesh_store.triangles g"
    "mesh_store.interiors g' = mesh_store.interiors g" "length (nodes g') = N + 4"
    "edge_val g' p q = edge_val g p q"
    unfolding g' by (simp_all add: k3(3,4,5,8) k2(3,4,8) k1(3,4,8) k0(3,4,8) len)
  show "is_vertex g' v \<longleftrightarrow> is_vertex g v \<or> v \<in> {N, N + 1, N + 2, N + 3}"
    unfolding g' k3(6) k2(6) k1(6) k0(6) len by auto
  show "v < N \<Longrightarrow> getData g' v = getData g v" "getData g' N = NodeData_vertex False c0 False"
    "getData g' (N + 1) = NodeData_vertex False c1 False"
    "getData g' (N + 2) = NodeData_vertex False c2 False"
    "getData g' (N + 3) = NodeData_vertex False c3 False"
    unfolding g' by (simp_all add: k3(7) k2(7) k1(7) k0(7) len)
qed

section \<open>The rectangle\<close>

text \<open>A mesh that extends \<open>g\<close> by the four corners \<open>c0\<close> to \<open>c3\<close> and the two triangles on them.\<close>

definition extends_by_square ::
  "mesh \<Rightarrow> coordinates \<Rightarrow> coordinates \<Rightarrow> coordinates \<Rightarrow> coordinates \<Rightarrow> mesh \<Rightarrow> bool" where
  "extends_by_square g c0 c1 c2 c3 g' \<longleftrightarrow>
     (let N = length (nodes g)
      in mesh_ok g' \<and>
         mesh_triangles g' = mesh_triangles g + {#[N, N + 1, N + 3], [N, N + 3, N + 2]#} \<and>
         set (mesh_vertices g') = set (mesh_vertices g) \<union> {N, N + 1, N + 2, N + 3} \<and>
         set (mesh_interiors g') = set (mesh_interiors g) \<union> {N + 4, N + 5} \<and>
         getNeighbours g' (N + 4) = [N, N + 1, N + 3] \<and> getNeighbours g' (N + 5) = [N, N + 3, N + 2] \<and>
         map (\<lambda>k. coords (getData g' (N + k))) [0, 1, 2, 3] = [c0, c1, c2, c3])"

definition square_edges :: "nat \<Rightarrow> edge_data \<Rightarrow> edge_data \<Rightarrow> edge_data \<Rightarrow> edge_data \<Rightarrow> edge_data
    \<Rightarrow> (nat \<times> nat \<times> edge_data) list" where
  "square_edges N x1 x2 x3 x4 x5 =
     [(N, N + 1, x1), (N + 1, N + 3, x2), (N + 2, N + 3, x3), (N, N + 2, x4), (N + 3, N, x5)]"

definition square_mesh ::
  "mesh \<Rightarrow> coordinates \<Rightarrow> coordinates \<Rightarrow> coordinates \<Rightarrow> coordinates
    \<Rightarrow> edge_data \<Rightarrow> edge_data \<Rightarrow> edge_data \<Rightarrow> edge_data \<Rightarrow> edge_data \<Rightarrow> mesh" where
  "square_mesh g c0 c1 c2 c3 x1 x2 x3 x4 x5 =
     (let (g1, ns) = createCorners g c0 c1 c2 c3
      in createTwoInteriors (put_edges g1 (square_edges (length (nodes g)) x1 x2 x3 x4 x5)) ns)"

lemma new_triangle_laws:
  fixes g :: mesh and a b c :: nat
  assumes "mesh_store.tri_ok g" "is_vertex g a" "is_vertex g b" "is_vertex g c" "distinct [a, b, c]"
  defines "h \<equiv> fst (createInterior g a b c)" and "n \<equiv> length (nodes g)"
  shows "mesh_store.tri_ok h" "mesh_store.triangles h = add_mset [a, b, c] (mesh_store.triangles g)"
    "mesh_store.interiors h = insert n (mesh_store.interiors g)" "is_vertex h = is_vertex g"
    "length (nodes h) = Suc n" "v < n \<Longrightarrow> getData h v = getData g v"
    "p < n \<Longrightarrow> q < n \<Longrightarrow> edge_val h p q = edge_val g p q"
    "getNeighbours h n = [a, b, c]"
    "live g v \<Longrightarrow> v \<notin> {a, b, c} \<Longrightarrow> getNeighbours h v = getNeighbours g v"
    "getData h n = tri_data (getData g a) (getData g b) (getData g c)"
proof -
  have l: "\<forall>v \<in> {a, b, c}. live g v" using assms(2-4) by (simp add: mesh_store.vertex_def)
  note t = mesh_store.add_triangle [OF assms(1-5), folded h_def n_def]
  note p = createInterior_laws [OF mesh_store.tri_okD(1) [OF assms(1)] l assms(5), folded h_def n_def]
  show "mesh_store.tri_ok h" "mesh_store.triangles h = add_mset [a, b, c] (mesh_store.triangles g)"
    and int: "mesh_store.interiors h = insert n (mesh_store.interiors g)"
    by (rule t)+
  show "length (nodes h) = Suc n" "getNeighbours h n = [a, b, c]"
    "live g v \<Longrightarrow> v \<notin> {a, b, c} \<Longrightarrow> getNeighbours h v = getNeighbours g v"
    by (rule p; assumption)+
  show "v < n \<Longrightarrow> getData h v = getData g v"
    "p < n \<Longrightarrow> q < n \<Longrightarrow> edge_val h p q = edge_val g p q"
    "getData h n = tri_data (getData g a) (getData g b) (getData g c)"
    using p(4) [of v] p(4) [of n] p(5) [of p q] by simp_all
  show "is_vertex h = is_vertex g"
  proof
    fix v
    have "\<not> is_vertex h n" using int by (intro mesh_store.interior_not_vertex) simp
    then show "is_vertex h v = is_vertex g v"
      using p(3) [of v] p(4) [of v] by (cases "v = n")
        (auto simp: mesh_store.vertex_def live_def [of g] n_def)
  qed
qed

lemma square_vertices:
  fixes g :: mesh and c0 c1 c2 c3 :: coordinates and x1 x2 x3 x4 x5 :: edge_data
  assumes "mesh_store.tri_ok g"
  defines "N \<equiv> length (nodes g)"
  defines "h \<equiv> put_edges (fst (createCorners g c0 c1 c2 c3)) (square_edges N x1 x2 x3 x4 x5)"
  shows "mesh_store.tri_ok h" "mesh_store.triangles h = mesh_store.triangles g"
    "mesh_store.interiors h = mesh_store.interiors g" "length (nodes h) = N + 4"
    "is_vertex h v \<longleftrightarrow> is_vertex g v \<or> v \<in> {N, N + 1, N + 2, N + 3}"
    "k < 4 \<Longrightarrow> getData h (N + k) = NodeData_vertex False ([c0, c1, c2, c3] ! k) False"
    "edge_val h N (N + 1) = Some x1" "edge_val h (N + 1) (N + 3) = Some x2"
    "edge_val h (N + 2) (N + 3) = Some x3" "edge_val h N (N + 2) = Some x4"
    "edge_val h (N + 3) N = Some x5"
    "edge_val h p q = (case find (\<lambda>(u, v, x). same_pair u v p q) (rev (square_edges N x1 x2 x3 x4 x5)) of
       None \<Rightarrow> edge_val g p q | Some (u, v, x) \<Rightarrow> Some x)"
proof -
  note k = createCorners_laws [OF assms(1), where ?c0.0 = c0 and ?c1.0 = c1 and ?c2.0 = c2 and ?c3.0 = c3, folded N_def]
  have vp: "vertex_pairs (fst (createCorners g c0 c1 c2 c3)) (square_edges N x1 x2 x3 x4 x5)"
    by (simp add: vertex_pairs_def square_edges_def k(6))
  note e = put_edges_laws [OF k(2) vp, folded h_def] and ev = put_edges_val [OF k(2) vp, folded h_def]
  show "mesh_store.tri_ok h" "mesh_store.triangles h = mesh_store.triangles g"
    "mesh_store.interiors h = mesh_store.interiors g" "length (nodes h) = N + 4"
    using e k(3,4,5) by simp_all
  show "is_vertex h v \<longleftrightarrow> is_vertex g v \<or> v \<in> {N, N + 1, N + 2, N + 3}" using e k(6) by simp
  show "getData h (N + k) = NodeData_vertex False ([c0, c1, c2, c3] ! k) False" if "k < 4" for k
  proof -
    have "k = 0 \<or> k = 1 \<or> k = 2 \<or> k = 3" using that by auto
    then show ?thesis using e k(8-11) by (elim disjE) simp_all
  qed
  show "edge_val h N (N + 1) = Some x1" "edge_val h (N + 1) (N + 3) = Some x2"
    "edge_val h (N + 2) (N + 3) = Some x3" "edge_val h N (N + 2) = Some x4"
    "edge_val h (N + 3) N = Some x5"
    unfolding ev by (simp_all add: square_edges_def same_pair_def)
  show "edge_val h p q = (case find (\<lambda>(u, v, x). same_pair u v p q) (rev (square_edges N x1 x2 x3 x4 x5)) of
       None \<Rightarrow> edge_val g p q | Some (u, v, x) \<Rightarrow> Some x)"
    unfolding ev k(12) ..
qed

lemma square_mesh_laws:
  fixes g :: mesh and c0 c1 c2 c3 :: coordinates and x1 x2 x3 x4 x5 :: edge_data
  assumes ok: "mesh_ok g"
  defines "N \<equiv> length (nodes g)" and "g' \<equiv> square_mesh g c0 c1 c2 c3 x1 x2 x3 x4 x5"
  shows "extends_by_square g c0 c1 c2 c3 g'"
    "edge_val g' N (N + 1) = Some x1" "edge_val g' (N + 1) (N + 3) = Some x2"
    "edge_val g' (N + 2) (N + 3) = Some x3" "edge_val g' N (N + 2) = Some x4"
    "edge_val g' (N + 3) N = Some x5"
    "k < 4 \<Longrightarrow> getData g' (N + k) = NodeData_vertex False ([c0, c1, c2, c3] ! k) False"
    "\<not> toRefine (getData g' (N + 4))"
    "p < N + 4 \<Longrightarrow> q < N + 4 \<Longrightarrow> edge_val g' p q =
       (case find (\<lambda>(u, v, x). same_pair u v p q) (rev (square_edges N x1 x2 x3 x4 x5)) of
         None \<Rightarrow> edge_val g p q | Some (u, v, x) \<Rightarrow> Some x)"
    "length (nodes g') = N + 6"
    "getData g' (N + 4) = tri_data (NodeData_vertex False c0 False) (NodeData_vertex False c1 False)
       (NodeData_vertex False c3 False)"
    "getData g' (N + 5) = tri_data (NodeData_vertex False c0 False) (NodeData_vertex False c3 False)
       (NodeData_vertex False c2 False)"
proof -
  have tri: "mesh_store.tri_ok g" using ok by (simp add: mesh_ok_iff)
  let ?g2 = "put_edges (fst (createCorners g c0 c1 c2 c3)) (square_edges N x1 x2 x3 x4 x5)"
  note k = createCorners_laws [OF tri, where ?c0.0 = c0 and ?c1.0 = c1 and ?c2.0 = c2 and ?c3.0 = c3, folded N_def]
  note q = square_vertices [OF tri, where ?c0.0 = c0 and ?c1.0 = c1 and ?c2.0 = c2 and ?c3.0 = c3
      and ?x1.0 = x1 and ?x2.0 = x2 and ?x3.0 = x3 and ?x4.0 = x4 and ?x5.0 = x5, folded N_def]
  have d: "distinct [N, N + 1, N + 3]" "distinct [N, N + 3, N + 2]" by simp_all
  have vx: "is_vertex ?g2 N" "is_vertex ?g2 (N + 1)" "is_vertex ?g2 (N + 2)" "is_vertex ?g2 (N + 3)"
    using q(5) by simp_all
  note t3 = new_triangle_laws [OF q(1) vx(1,2,4) d(1), unfolded q(4)]
  let ?g3 = "fst (createInterior ?g2 N (N + 1) (N + 3))"
  have vx3: "is_vertex ?g3 N" "is_vertex ?g3 (N + 3)" "is_vertex ?g3 (N + 2)"
    unfolding t3(4) by (rule vx)+
  note t4 = new_triangle_laws [OF t3(1) vx3 d(2), unfolded t3(5)]
  let ?g4 = "fst (createInterior ?g3 N (N + 3) (N + 2))"
  have g': "g' = ?g4"
    by (simp add: g'_def square_mesh_def createTwoInteriors_def case_prod_beta Let_def k(1)
        N_def [symmetric] numeral_2_eq_2 numeral_3_eq_3)
  show "edge_val g' N (N + 1) = Some x1" "edge_val g' (N + 1) (N + 3) = Some x2"
    "edge_val g' (N + 2) (N + 3) = Some x3" "edge_val g' N (N + 2) = Some x4"
    "edge_val g' (N + 3) N = Some x5"
    by (simp_all add: g' t4(7) t3(7) q(7-11) del: One_nat_def add_2_eq_Suc')
  show dat: "getData g' (N + k) = NodeData_vertex False ([c0, c1, c2, c3] ! k) False" if "k < 4" for k
    using that q(6) t4(6) [of "N + k"] t3(6) [of "N + k"] by (simp add: g')
  show "\<not> toRefine (getData g' (N + 4))"
    using t4(6) [of "N + 4"] t3(10) by (simp add: g' tri_data_def)
  show "edge_val g' p q =
       (case find (\<lambda>(u, v, x). same_pair u v p q) (rev (square_edges N x1 x2 x3 x4 x5)) of
         None \<Rightarrow> edge_val g p q | Some (u, v, x) \<Rightarrow> Some x)" if "p < N + 4" "q < N + 4"
    using that t4(7) [of p q] t3(7) [of p q] by (simp only: g' q(12))
  show "length (nodes g') = N + 6" unfolding g' t4(5) by simp
  have v2: "getData ?g2 (N + k) = NodeData_vertex False ([c0, c1, c2, c3] ! k) False" if "k < 4" for k
    by (rule q(6) [OF that])
  have v3: "getData ?g3 (N + k) = NodeData_vertex False ([c0, c1, c2, c3] ! k) False" if "k < 4" for k
    using that v2 [OF that] t3(6) [of "N + k"] by simp
  show "getData g' (N + 4) = tri_data (NodeData_vertex False c0 False) (NodeData_vertex False c1 False)
       (NodeData_vertex False c3 False)"
    using t4(6) [of "N + 4"] t3(10) v2 [of 0] v2 [of 1] v2 [of 3] unfolding g' by simp
  show "getData g' (N + 5) = tri_data (NodeData_vertex False c0 False) (NodeData_vertex False c3 False)
       (NodeData_vertex False c2 False)"
    using t4(10) v3 [of 0] v3 [of 2] v3 [of 3] unfolding g' by (simp add: add.commute)
  have "N + 4 \<in> mesh_store.interiors ?g3" using t3(3) by simp
  then have "live ?g3 (N + 4)" by (simp add: mesh_store.interiors_def)
  then have nb: "getNeighbours g' (N + 4) = [N, N + 1, N + 3]"
    using t4(9) [of "N + 4"] t3(8) by (simp add: g')
  have ok': "mesh_ok g'" using t4(1) by (simp add: g' mesh_ok_iff)
  have tr: "mesh_triangles g' = mesh_triangles g + {#[N, N + 1, N + 3], [N, N + 3, N + 2]#}"
    unfolding mesh_triangles_eq g' t4(2) t3(2) q(2) by simp
  have vs: "set (mesh_vertices g') = set (mesh_vertices g) \<union> {N, N + 1, N + 2, N + 3}"
    by (rule set_eqI) (simp only: Un_iff is_vertex_iff [symmetric] g' t4(4) t3(4) q(5))
  have int: "set (mesh_interiors g') = set (mesh_interiors g) \<union> {N + 4, N + 5}"
    unfolding set_mesh_interiors g' t4(3) t3(3) q(3) by auto
  show "extends_by_square g c0 c1 c2 c3 g'"
    unfolding extends_by_square_def Let_def N_def [symmetric]
    using ok' tr vs int nb t4(8) [folded g'] dat [of 0] dat [of 1] dat [of 2] dat [of 3] by (simp add: add.commute)
qed

lemma square_vertex_pairs:
  assumes "mesh_store.tri_ok g" "createCorners g c0 c1 c2 c3 = (g1, ns)"
  shows "ns = [length (nodes g), length (nodes g) + 1, length (nodes g) + 2, length (nodes g) + 3]"
    "mesh_store.tri_ok g1"
    "vertex_pairs g1 [(ns ! 0, ns ! 1, x1), (ns ! 1, ns ! 3, x2), (ns ! 2, ns ! 3, x3),
       (ns ! 0, ns ! 2, x4), (ns ! 3, ns ! 0, x5)]"
proof -
  note k = createCorners_laws [OF assms(1), where ?c0.0 = c0 and ?c1.0 = c1 and ?c2.0 = c2
      and ?c3.0 = c3, unfolded assms(2) fst_conv snd_conv]
  show ns: "ns = [length (nodes g), length (nodes g) + 1, length (nodes g) + 2, length (nodes g) + 3]"
    by (rule k(1))
  show "mesh_store.tri_ok g1" by (rule k(2))
  show "vertex_pairs g1 [(ns ! 0, ns ! 1, x1), (ns ! 1, ns ! 3, x2), (ns ! 2, ns ! 3, x3),
       (ns ! 0, ns ! 2, x4), (ns ! 3, ns ! 0, x5)]"
    by (simp add: ns vertex_pairs_def k(6) numeral_2_eq_2 numeral_3_eq_3)
qed

definition sample_square :: "mesh \<Rightarrow> mesh" where
  "sample_square g = square_mesh g (Coord 0 0 0) (Coord 0 1 0) (Coord 1 0 0) (Coord 1 1 0)
     (EdgeData_new True 1 (Coord 0 (1 / 2) 0)) (EdgeData_new True 1 (Coord (1 / 2) 1 0))
     (EdgeData_new True 1 (Coord 1 (1 / 2) 0)) (EdgeData_new True 1 (Coord (1 / 2) 0 0))
     (EdgeData_new False (sqrt 2) (Coord (1 / 2) (1 / 2) 0))"

lemma generateSampleGraph_eq:
  assumes "mesh_ok g"
  shows "generateSampleGraph g = Inr (sample_square g)"
proof -
  have tri: "mesh_store.tri_ok g" using assms by (simp add: mesh_ok_iff)
  obtain g1 ns where
    c: "createCorners g (Coord 0 0 0) (Coord 0 1 0) (Coord 1 0 0) (Coord 1 1 0) = (g1, ns)"
    by (cases "createCorners g (Coord 0 0 0) (Coord 0 1 0) (Coord 1 0 0) (Coord 1 1 0)")
  note k = square_vertex_pairs [OF tri c]
  show ?thesis
    unfolding generateSampleGraph_def c Let_def prod.case
      cm_createEdges_eq [OF k(2,3)]
    by (simp add: sample_square_def square_mesh_def c square_edges_def k(1)
        numeral_2_eq_2 numeral_3_eq_3)
qed

lemma mesh_ok_empty [simp]: "mesh_ok empty_graph"
  by (simp add: mesh_ok_def mesh_interiors_def graph_nodes_def empty_graph_def [symmetric])
     (simp add: empty_graph_def)

text \<open>C13: the generator of the unit square always succeeds on a well-formed mesh and adds to it
  exactly the four corners and the two triangles on them, keeping the mesh well formed.\<close>

theorem generateSampleGraph_square:
  assumes "mesh_ok g"
  shows "\<exists>g'. generateSampleGraph g = Inr g' \<and>
    extends_by_square g (Coord 0 0 0) (Coord 0 1 0) (Coord 1 0 0) (Coord 1 1 0) g'"
  unfolding generateSampleGraph_eq [OF assms] sample_square_def
  using square_mesh_laws(1) [OF assms] by blast

theorem generateSampleGraph_square_witness:
  "\<exists>g'. generateSampleGraph empty_graph = Inr g' \<and>
     mesh_triangles g' = {#[0, 1, 3], [0, 3, 2]#}"
  using generateSampleGraph_square [OF mesh_ok_empty]
  by (auto simp: extends_by_square_def mesh_triangles_def mesh_interiors_def graph_nodes_def
      empty_graph_def eval_nat_numeral)

section \<open>The mesh of the program\<close>

text \<open>The five edges of a rectangle: their lengths are the distances of the corners.\<close>

definition rectangle_edge_data :: "bool \<Rightarrow> coordinates \<Rightarrow> coordinates \<Rightarrow> coordinates \<Rightarrow> coordinates
    \<Rightarrow> edge_data list \<Rightarrow> bool" where
  "rectangle_edge_data v2D c0 c1 c2 c3 xs \<longleftrightarrow>
     map edge_length xs = [coord_dist c0 c1 v2D, coord_dist c1 c3 v2D, coord_dist c2 c3 v2D,
       coord_dist c0 c2 v2D, coord_dist c3 c0 v2D] \<and>
     map border xs = [True, True, True, True, False]"

lemma cm_createEdge_vertices:
  assumes "mesh_store.tri_ok g" "vertex_pairs g ((u, v, EdgeData_new b l m) # es)"
  shows "cm_createEdge g u v b m l = Inr (put_edge g u v (EdgeData_new b l m))"
  using assms mesh_store.tri_okD(1)
  by (intro cm_createEdge_eq) (auto simp: vertex_pairs_def mesh_store.vertex_def)

lemma rectangle_edges_Inr:
  fixes g :: mesh and a b c d :: nat
  assumes tri: "mesh_store.tri_ok g" and vx: "is_vertex g a" "is_vertex g b" "is_vertex g c" "is_vertex g d"
    and dist: "distinct [a, b, c, d]"
    and res: "rectangle_edges height st g [a, b, c, d] west north east south v2D = Inr (st', g')"
  obtains x1 x2 x3 x4 x5 where
    "g' = put_edges g [(a, b, x1), (b, d, x2), (c, d, x3), (a, c, x4), (d, a, x5)]"
    "rectangle_edge_data v2D (coords (getData g a)) (coords (getData g b)) (coords (getData g c))
       (coords (getData g d)) [x1, x2, x3, x4, x5]"
proof -
  let ?len = "\<lambda>u v. coord_dist (coords (getData g u)) (coords (getData g v)) v2D"
  from res obtain m1 m2 m3 m4 m5 g1 g2 g3 g4 where
    e1: "cm_createEdge g a b True m1 (?len a b) = Inr g1" and e2: "cm_createEdge g1 b d True m2 (?len b d) = Inr g2"
    and e3: "cm_createEdge g2 c d True m3 (?len c d) = Inr g3" and e4: "cm_createEdge g3 a c True m4 (?len a c) = Inr g4"
    and e5: "cm_createEdge g4 d a False m5 (?len d a) = Inr g'"
    by (auto simp: rectangle_edges_def Let_def bindR_Inr_iff mapR_def numeral_2_eq_2 numeral_3_eq_3)
  let ?x1 = "EdgeData_new True (?len a b) m1" and ?x2 = "EdgeData_new True (?len b d) m2"
  let ?x3 = "EdgeData_new True (?len c d) m3" and ?x4 = "EdgeData_new True (?len a c) m4"
  let ?x5 = "EdgeData_new False (?len d a) m5"
  let ?es = "[(a, b, ?x1), (b, d, ?x2), (c, d, ?x3), (a, c, ?x4), (d, a, ?x5)]"
  have vp: "vertex_pairs g ?es" using vx dist by (auto simp: vertex_pairs_def)
  note s1 = put_edges_step [OF tri vp]
  note s2 = put_edges_step [OF s1(1,2)]
  note s3 = put_edges_step [OF s2(1,2)]
  note s4 = put_edges_step [OF s3(1,2)]
  note s5 = cm_createEdge_vertices [OF s4(1,2)]
  have g1: "put_edge g a b ?x1 = g1" using e1 cm_createEdge_vertices [OF tri vp] by simp
  have g2: "put_edge g1 b d ?x2 = g2" using e2 cm_createEdge_vertices [OF s1(1,2)] by (simp add: g1)
  have g3: "put_edge g2 c d ?x3 = g3" using e3 cm_createEdge_vertices [OF s2(1,2)] by (simp add: g1 g2)
  have g4: "put_edge g3 a c ?x4 = g4" using e4 cm_createEdge_vertices [OF s3(1,2)] by (simp add: g1 g2 g3)
  have "g' = put_edges g ?es" using e5 s5 by (simp add: g1 g2 g3 g4)
  then show thesis
    by (rule that) (simp add: rectangle_edge_data_def EdgeData_new_def)
qed

lemma generate_utm_square:
  assumes ok: "mesh_ok g"
    and res: "generateSampleGraphWithDataWithConversionToUtm st g m west north east south v2D = Inr (st', m', g')"
  obtains c0 c1 c2 c3 x1 x2 x3 x4 x5 where "g' = square_mesh g c0 c1 c2 c3 x1 x2 x3 x4 x5"
    "rectangle_edge_data v2D c0 c1 c2 c3 [x1, x2, x3, x4, x5]"
proof -
  from res obtain c0 c1 c2 c3 st1 g2 where
    r: "rectangle_edges (\<lambda>st x y. get_height_convert st m' x y False) st1 (fst (createCorners g c0 c1 c2 c3))
         (snd (createCorners g c0 c1 c2 c3)) west north east south v2D = Inr (st', g2)"
    and g': "g' = createTwoInteriors g2 (snd (createCorners g c0 c1 c2 c3))"
    by (auto simp: generateSampleGraphWithDataWithConversionToUtm_def bindR_Inr_iff Let_def case_prod_beta)
  have tri: "mesh_store.tri_ok g" using ok by (simp add: mesh_ok_iff)
  let ?N = "length (nodes g)" and ?h = "fst (createCorners g c0 c1 c2 c3)"
  note k = createCorners_laws [OF tri, where ?c0.0 = c0 and ?c1.0 = c1 and ?c2.0 = c2 and ?c3.0 = c3]
  have vx: "is_vertex ?h ?N" "is_vertex ?h (?N + 1)" "is_vertex ?h (?N + 2)" "is_vertex ?h (?N + 3)"
    using k(6) by simp_all
  show thesis
  proof (rule rectangle_edges_Inr [OF k(2) vx _ r [unfolded k(1)]])
    fix x1 x2 x3 x4 x5
    assume "g2 = put_edges ?h [(?N, ?N + 1, x1), (?N + 1, ?N + 3, x2), (?N + 2, ?N + 3, x3), (?N, ?N + 2, x4), (?N + 3, ?N, x5)]"
      and x: "rectangle_edge_data v2D (coords (getData ?h ?N)) (coords (getData ?h (?N + 1)))
        (coords (getData ?h (?N + 2))) (coords (getData ?h (?N + 3))) [x1, x2, x3, x4, x5]"
    then have "g' = square_mesh g c0 c1 c2 c3 x1 x2 x3 x4 x5"
      by (simp add: g' square_mesh_def square_edges_def case_prod_beta Let_def)
    then show thesis by (rule that) (use x in \<open>simp add: k(8-11) del: One_nat_def add_2_eq_Suc'\<close>)
  qed simp
qed

end
