(* ===== verification/C_Lib.thy ===== *)
theory C_Lib
  imports Mesh_Prelude
begin

text \<open>
  The functions of the C library the program uses on text: the decimal conversions of \<open>sprintf\<close>
  and \<open>std::to_string\<close>, \<open>strtod\<close>, \<open>strtoimax\<close>, \<open>fgets\<close> and \<open>getopt\<close>. \<open>strtod\<close> is modelled
  for decimal numbers; its hexadecimal, infinity and NaN forms are outside the model, like all
  of the floating-point values they stand for.
\<close>

section \<open>Printing integers\<close>

definition digit_char :: "nat \<Rightarrow> char" where
  "digit_char d = char_of (48 + d)"

fun digits_of :: "nat \<Rightarrow> string" where
  "digits_of n = (if n < 10 then [digit_char n] else digits_of (n div 10) @ [digit_char (n mod 10)])"

declare digits_of.simps [simp del]

text \<open>The conversions \<open>%d\<close> and \<open>%.3d\<close> of \<open>sprintf\<close>: the precision is the least number of digits.\<close>

definition show_int :: "nat \<Rightarrow> int \<Rightarrow> string" where
  "show_int precision z =
     (let ds = digits_of (nat \<bar>z\<bar>)
      in (if z < 0 then ''-'' else '''') @ replicate (precision - length ds) (CHR ''0'') @ ds)"

section \<open>Reading numbers\<close>

definition is_space :: "char \<Rightarrow> bool" where
  "is_space c \<longleftrightarrow> c = CHR '' '' \<or> (9 \<le> (of_char c :: nat) \<and> (of_char c :: nat) \<le> 13)"

definition is_digit :: "char \<Rightarrow> bool" where
  "is_digit c \<longleftrightarrow> 48 \<le> (of_char c :: nat) \<and> (of_char c :: nat) \<le> 57"

definition digit_val :: "char \<Rightarrow> nat" where
  "digit_val c = of_char c - 48"

definition nat_of_digits :: "string \<Rightarrow> nat" where
  "nat_of_digits ds = foldl (\<lambda>n c. 10 * n + digit_val c) 0 ds"

fun take_sign :: "string \<Rightarrow> int \<times> string" where
  "take_sign [] = (1, [])"
| "take_sign (c # s) = (if c = CHR ''-'' then (-1, s) else if c = CHR ''+'' then (1, s) else (1, c # s))"

text \<open>The optional exponent; without digits after it the letter is not part of the number.\<close>

fun strtod_exponent :: "string \<Rightarrow> int \<times> string" where
  "strtod_exponent [] = (0, [])"
| "strtod_exponent (c # s) =
     (if c = CHR ''e'' \<or> c = CHR ''E'' then
        (let (sg, s1) = take_sign s; ds = takeWhile is_digit s1
         in if ds = [] then (0, c # s) else (sg * int (nat_of_digits ds), dropWhile is_digit s1))
      else (0, c # s))"

fun strtod_fraction :: "string \<Rightarrow> string \<times> string" where
  "strtod_fraction [] = ([], [])"
| "strtod_fraction (c # s) =
     (if c = CHR ''.'' then (takeWhile is_digit s, dropWhile is_digit s) else ([], c # s))"

text \<open>\<open>strtod(s, &endptr)\<close>: the value and the text from \<open>endptr\<close> on, which is the whole text when
  there is no number.\<close>

definition strtod :: "string \<Rightarrow> real \<times> string" where
  "strtod s =
     (let (sg, s1) = take_sign (dropWhile is_space s);
          ip = takeWhile is_digit s1;
          (fp, s2) = strtod_fraction (dropWhile is_digit s1)
      in if ip = [] \<and> fp = [] then (0, s)
         else (let (ex, s3) = strtod_exponent s2
               in (of_int sg * real (nat_of_digits (ip @ fp)) * 10 powi (ex - int (length fp)), s3)))"

text \<open>\<open>strtoimax(s, nullptr, 10)\<close> with its saturation, and the conversion of the result to the type
  \<open>int\<close> of 32 bits.\<close>

definition strtoimax :: "string \<Rightarrow> int" where
  "strtoimax s =
     (let (sg, s1) = take_sign (dropWhile is_space s)
      in max (- (2 ^ 63)) (min (2 ^ 63 - 1) (sg * int (nat_of_digits (takeWhile is_digit s1)))))"

definition to_c_int :: "int \<Rightarrow> int" where
  "to_c_int z = sint (word_of_int z :: 32 word)"

section \<open>Text files\<close>

text \<open>\<open>fgets(buffer, n, file)\<close>: the characters stored and the rest of the file, or \<open>None\<close> at the end
  of the file.\<close>

definition fgets_length :: "nat \<Rightarrow> string \<Rightarrow> nat" where
  "fgets_length n s = min (n - 1) (Suc (find_if (\<lambda>c. c = CHR 0x0A) s))"

definition fgets :: "nat \<Rightarrow> string \<Rightarrow> (string \<times> string) option" where
  "fgets n s = (if s = [] then None else Some (take (fgets_length n s) s, drop (fgets_length n s) s))"

text \<open>The string that starts at a position of a character array.\<close>

fun c_string :: "char option list \<Rightarrow> string res" where
  "c_string [] = Inl OutOfBounds"
| "c_string (None # cs) = Inl Uninitialised"
| "c_string (Some c # cs) = (if c = CHR 0x00 then Inr [] else mapR (Cons c) (c_string cs))"

section \<open>getopt\<close>

text \<open>What a call of \<open>getopt\<close> finds next: an option with its argument, an option that lacks its
  argument, or an unknown one. The last two both return \<open>'?'\<close> with the character in \<open>optopt\<close>.\<close>

datatype opt_event =
    Opt char "string option"
  | MissingArg char
  | Unknown char

text \<open>\<open>takes_arg\<close> is the option string: \<open>Some True\<close> for a letter with a colon, \<open>Some False\<close> for
  one without, \<open>None\<close> for other characters. \<open>getopt_cluster\<close> goes through the letters of one
  argument; \<open>rest\<close> are the arguments after it.\<close>

fun getopt_cluster ::
  "(char \<Rightarrow> bool option) \<Rightarrow> string \<Rightarrow> string list \<Rightarrow> opt_event list \<times> string list" where
  "getopt_cluster takes_arg [] rest = ([], rest)"
| "getopt_cluster takes_arg (c # cs) rest =
     (case takes_arg c of
        None \<Rightarrow> (let (evs, rest') = getopt_cluster takes_arg cs rest in (Unknown c # evs, rest'))
      | Some False \<Rightarrow>
          (let (evs, rest') = getopt_cluster takes_arg cs rest in (Opt c None # evs, rest'))
      | Some True \<Rightarrow>
          if cs \<noteq> [] then ([Opt c (Some cs)], rest)
          else (case rest of
                  [] \<Rightarrow> ([MissingArg c], [])
                | a # as \<Rightarrow> ([Opt c (Some a)], as)))"

lemma getopt_cluster_length: "length (snd (getopt_cluster takes_arg cs rest)) \<le> length rest"
  by (induction takes_arg cs rest rule: getopt_cluster.induct)
    (auto simp: case_prod_beta split: option.split bool.split list.split)

text \<open>All calls of \<open>getopt\<close> on the arguments after the program name, up to the one that returns
  -1. Arguments that are not options are skipped, as the permuting \<open>getopt\<close> of glibc does.\<close>

function getopt_all :: "(char \<Rightarrow> bool option) \<Rightarrow> string list \<Rightarrow> opt_event list" where
  "getopt_all takes_arg [] = []"
| "getopt_all takes_arg (a # as) =
     (if a = ''--'' then []
      else if a = [] \<or> hd a \<noteq> CHR ''-'' \<or> a = ''-'' then getopt_all takes_arg as
      else fst (getopt_cluster takes_arg (tl a) as) @
           getopt_all takes_arg (snd (getopt_cluster takes_arg (tl a) as)))"
  by pat_completeness auto
termination
  by (relation "measure (\<lambda>(t, as). length as)") (auto simp: le_imp_less_Suc getopt_cluster_length)

section \<open>Printed integers are read back\<close>

lemma of_char_digit_char [simp]: "d < 10 \<Longrightarrow> (of_char (digit_char d) :: nat) = 48 + d"
  by (simp add: digit_char_def)

lemma digit_char_digit [simp]: "d < 10 \<Longrightarrow> is_digit (digit_char d)" "d < 10 \<Longrightarrow> digit_val (digit_char d) = d"
  by (simp_all add: is_digit_def digit_val_def)

lemma nat_of_digits_snoc: "nat_of_digits (ds @ [c]) = 10 * nat_of_digits ds + digit_val c"
  by (simp add: nat_of_digits_def)

lemma digits_of_correct: "nat_of_digits (digits_of n) = n \<and> (\<forall>c \<in> set (digits_of n). is_digit c) \<and> digits_of n \<noteq> []"
proof (induction n rule: digits_of.induct)
  case (1 n)
  show ?case
  proof (cases "n < 10")
    case True
    then show ?thesis by (subst (1 2 3) digits_of.simps) (simp add: nat_of_digits_def)
  next
    case False
    then show ?thesis
      using 1 [OF False] by (subst (1 2 3) digits_of.simps) (simp add: nat_of_digits_snoc)
  qed
qed

lemmas digits_of_simps [simp] = digits_of_correct [THEN conjunct1]
  digits_of_correct [THEN conjunct2, THEN conjunct2]

lemma digits_of_digit: "c \<in> set (digits_of n) \<Longrightarrow> is_digit c"
  using digits_of_correct by blast

lemma nat_of_digits_zeros [simp]: "nat_of_digits (replicate k (CHR ''0'') @ ds) = nat_of_digits ds"
  by (induction k) (simp_all add: nat_of_digits_def digit_val_def)

lemma is_digitD:
  assumes "is_digit c"
  shows "\<not> is_space c" "c \<noteq> CHR ''-''" "c \<noteq> CHR ''+''" "c \<noteq> CHR ''.''" "c \<noteq> CHR ''e''" "c \<noteq> CHR ''E''"
    "c \<noteq> CHR 0x0A" "c \<noteq> CHR 0x00" "c \<noteq> CHR ''#''" "c \<noteq> CHR '' ''"
  using assms by (auto simp: is_digit_def is_space_def)

text \<open>A text that does not continue a number.\<close>

definition ends_number :: "string \<Rightarrow> bool" where
  "ends_number r \<longleftrightarrow> r = [] \<or> (\<not> is_digit (hd r) \<and> hd r \<notin> {CHR ''.'', CHR ''e'', CHR ''E''})"

lemma span_digits:
  assumes "\<forall>c \<in> set ds. is_digit c" "ends_number r"
  shows "takeWhile is_digit (ds @ r) = ds" "dropWhile is_digit (ds @ r) = r"
  using assms by (cases r; auto simp: ends_number_def takeWhile_append dropWhile_append)+

lemma number_end:
  assumes "ends_number r"
  shows "strtod_fraction r = ([], r)" "strtod_exponent r = (0, r)"
  using assms by (cases r; simp add: ends_number_def)+

lemma take_sign_digits:
  assumes "\<forall>c \<in> set ds. is_digit c" "ds \<noteq> []"
  shows "take_sign (dropWhile is_space (ds @ r)) = (1, ds @ r)"
  using assms is_digitD [of "hd ds"] by (cases ds) simp_all

definition signed_digits :: "int \<Rightarrow> string \<Rightarrow> string" where
  "signed_digits z ds = (if z < 0 then ''-'' else []) @ ds"

lemma strtod_signed_digits:
  assumes "\<forall>c \<in> set ds. is_digit c" "ds \<noteq> []" "nat_of_digits ds = nat \<bar>z\<bar>" "ends_number r"
  shows "strtod (signed_digits z ds @ r) = (of_int z, r)"
proof -
  let ?sg = "if z < 0 then - 1 else 1 :: int"
  have ts: "take_sign (dropWhile is_space (signed_digits z ds @ r)) = (?sg, ds @ r)"
    using take_sign_digits [OF assms(1,2)] by (simp add: signed_digits_def is_space_def)
  show ?thesis
    using assms(2,3)
    by (simp add: strtod_def ts span_digits [OF assms(1,4)] number_end [OF assms(4)])
qed

lemma show_int_signed_digits:
  "\<exists>ds. show_int p z = signed_digits z ds \<and> (\<forall>c \<in> set ds. is_digit c) \<and> ds \<noteq> [] \<and>
     nat_of_digits ds = nat \<bar>z\<bar>"
  using digits_of_digit
  by (auto simp: show_int_def Let_def signed_digits_def is_digit_def
      intro!: exI [of _ "replicate (p - length (digits_of (nat \<bar>z\<bar>))) (CHR ''0'') @ digits_of (nat \<bar>z\<bar>)"])

lemma strtod_show_int:
  assumes "ends_number r"
  shows "strtod (show_int p z @ r) = (of_int z, r)"
  using show_int_signed_digits [of p z] strtod_signed_digits assms by metis

text \<open>Leading blanks do not matter.\<close>

lemma strtod_space:
  assumes "is_space c" "strtod s = (v, r)" "r \<noteq> s"
  shows "strtod (c # s) = (v, r)"
  using assms by (auto simp: strtod_def Let_def split: prod.splits if_splits)

lemma show_int_chars:
  assumes "c \<in> set (show_int p z)"
  shows "is_digit c \<or> c = CHR ''-''"
  using show_int_signed_digits [of p z] assms by (auto simp: signed_digits_def split: if_splits)

lemma show_int_nonempty [simp]: "show_int p z \<noteq> []"
  using show_int_signed_digits [of p z] by (auto simp: signed_digits_def)

text \<open>Printing integers is injective.\<close>

lemma show_int_inj: "show_int p y = show_int p z \<Longrightarrow> y = z"
  using strtod_show_int [of "[]" p y] strtod_show_int [of "[]" p z]
  by (simp add: ends_number_def)

section \<open>Lines\<close>

lemma find_if_append_hit: "\<forall>c \<in> set l. \<not> P c \<Longrightarrow> P x \<Longrightarrow> find_if P (l @ x # r) = length l"
  by (induction l) auto

lemma fgets_line:
  assumes "CHR 0x0A \<notin> set l" "Suc (length l) < n"
  shows "fgets n (l @ CHR 0x0A # r) = Some (l @ [CHR 0x0A], r)"
proof -
  have "find_if (\<lambda>c. c = CHR 0x0A) (l @ CHR 0x0A # r) = length l"
    using assms(1) by (intro find_if_append_hit) auto
  then have "fgets_length n (l @ CHR 0x0A # r) = Suc (length l)"
    using assms(2) by (simp add: fgets_length_def)
  then show ?thesis by (simp add: fgets_def)
qed

lemma c_string_text:
  "CHR 0x00 \<notin> set s \<Longrightarrow> c_string (map Some s @ Some (CHR 0x00) # cs) = Inr s"
  by (induction s) (auto simp: mapR_def)

section \<open>Options given one per argument\<close>

definition render_opt :: "opt_event \<Rightarrow> string list" where
  "render_opt ev = (case ev of Opt c a \<Rightarrow> [CHR ''-'', c] # (case a of None \<Rightarrow> [] | Some s \<Rightarrow> [s]) | _ \<Rightarrow> [])"

definition valid_opt :: "(char \<Rightarrow> bool option) \<Rightarrow> opt_event \<Rightarrow> bool" where
  "valid_opt takes_arg ev \<longleftrightarrow>
     (case ev of Opt c a \<Rightarrow> c \<noteq> CHR ''-'' \<and> takes_arg c = Some (a \<noteq> None) | _ \<Rightarrow> False)"

lemma getopt_all_render:
  "\<forall>ev \<in> set evs. valid_opt takes_arg ev \<Longrightarrow> getopt_all takes_arg (concat (map render_opt evs)) = evs"
proof (induction evs)
  case (Cons ev evs)
  then obtain c a where ev: "ev = Opt c a" "c \<noteq> CHR ''-''" "takes_arg c = Some (a \<noteq> None)"
    by (cases ev) (auto simp: valid_opt_def)
  show ?case using Cons ev by (cases a) (simp_all add: render_opt_def)
qed simp

section \<open>Evaluation\<close>

lemma digit_char_simps:
  "digit_char 0 = CHR ''0''" "digit_char (Suc 0) = CHR ''1''" "digit_char 2 = CHR ''2''"
  "digit_char 3 = CHR ''3''" "digit_char 4 = CHR ''4''" "digit_char 5 = CHR ''5''"
  "digit_char 6 = CHR ''6''" "digit_char 7 = CHR ''7''" "digit_char 8 = CHR ''8''"
  "digit_char 9 = CHR ''9''"
  by (simp_all add: digit_char_def char_of_def bit_Suc_0_iff)

lemmas show_int_eval = show_int_def digits_of.simps digit_char_simps

end
