(* ===== verification/Srtm_Reader.thy ===== *)
theory Srtm_Reader
  imports Terrain_Map C_Lib
begin

text \<open>
  \<open>readers/SrtmReader.h\<close> and \<open>readers/SrtmReader.cpp\<close>: reading SRTM tiles into a height map. The
  file system is a parameter, \<open>files\<close>, that gives the bytes of the file of a name, or \<open>None\<close> when
  it cannot be opened. A read buffer comes from \<open>malloc\<close>; \<open>fread\<close> near the end of a file fills only
  a part of it, so its words are options.
\<close>

section \<open>Constants and small functions\<close>

definition RESOLUTION :: int where "RESOLUTION = 3"
definition PIXEL_SIZE :: int where "PIXEL_SIZE = 2"
definition VALUES_IN_DEGREE :: int where "VALUES_IN_DEGREE = 60 * 60 div RESOLUTION"

lemma VALUES_IN_DEGREE_1200 [simp]: "VALUES_IN_DEGREE = 1200"
  by (simp add: VALUES_IN_DEGREE_def RESOLUTION_def)

text \<open>The C function \<open>round\<close>: halves away from zero.\<close>

definition c_round :: "real \<Rightarrow> int" where
  "c_round x = (if x < 0 then - \<lfloor>1 / 2 - x\<rfloor> else \<lfloor>x + 1 / 2\<rfloor>)"

definition border_to_int :: "real \<Rightarrow> int" where
  "border_to_int border = c_round (border * of_int VALUES_IN_DEGREE)"

section \<open>File names\<close>

definition first_long_to_read :: "int \<Rightarrow> int" where
  "first_long_to_read west_border_int =
     (if west_border_int < 0 then
        (if c_mod west_border_int VALUES_IN_DEGREE \<noteq> 0
         then c_div west_border_int VALUES_IN_DEGREE + 1
         else c_div west_border_int VALUES_IN_DEGREE)
      else c_div west_border_int VALUES_IN_DEGREE)"

definition first_lat_to_read :: "int \<Rightarrow> int" where
  "first_lat_to_read north_border_int =
     (if north_border_int < 0 then
        (if c_mod north_border_int VALUES_IN_DEGREE \<noteq> 0
         then c_div north_border_int VALUES_IN_DEGREE + 1
         else c_div north_border_int VALUES_IN_DEGREE)
      else if c_mod north_border_int VALUES_IN_DEGREE \<noteq> 0
         then c_div north_border_int VALUES_IN_DEGREE
         else c_div north_border_int VALUES_IN_DEGREE - 1)"

definition get_filename :: "string \<Rightarrow> int \<Rightarrow> int \<Rightarrow> string" where
  "get_filename map_dir west_border_int north_border_int =
     (let lat = first_lat_to_read north_border_int; long = first_long_to_read west_border_int
      in map_dir @ ''/'' @ (if lat < 0 then ''S'' else ''N'') @ show_int 1 lat
           @ (if long < 0 then ''W'' else ''E'') @ show_int 3 long @ ''.hgt'')"

section \<open>Reading one file\<close>

definition store_cell :: "'a list list \<Rightarrow> nat \<Rightarrow> nat \<Rightarrow> 'a \<Rightarrow> 'a list list res" where
  "store_cell cells i j v =
     (if i < length cells \<and> j < length (cells ! i) then Inr (cells[i := (cells ! i)[j := v]])
      else Inl OutOfBounds)"

text \<open>\<open>fread(buffer, 2, cols, file)\<close>: the words that are in the file from the position on, at most
  \<open>cols\<close> of them; a trailing odd byte leaves its word undetermined. The machine is little-endian.\<close>

fun words_from :: "8 word list \<Rightarrow> 16 word option list \<Rightarrow> 16 word option list" where
  "words_from bs [] = []"
| "words_from (b0 # b1 # bs) (w # ws) = Some (u16_le b0 b1) # words_from bs ws"
| "words_from [b0] (w # ws) = None # ws"
| "words_from [] (w # ws) = w # ws"

definition fread_words :: "8 word list \<Rightarrow> nat \<Rightarrow> 16 word option list \<Rightarrow> 16 word option list \<times> nat" where
  "fread_words bytes pos buffer =
     (words_from (drop pos bytes) buffer,
      max pos (min (length bytes) (pos + nat PIXEL_SIZE * length buffer)))"

text \<open>\<open>fseek\<close> fails exactly for a negative position.\<close>

definition fseek :: "int \<Rightarrow> nat option" where
  "fseek pos = (if pos < 0 then None else Some (nat pos))"

definition cells_in_degree :: int where
  "cells_in_degree = VALUES_IN_DEGREE + 1"

definition start_offset :: "int \<Rightarrow> int \<Rightarrow> int" where
  "start_offset north_border_int west_border_int =
     (c_mod (VALUES_IN_DEGREE - c_mod north_border_int VALUES_IN_DEGREE) VALUES_IN_DEGREE
        * cells_in_degree + c_mod west_border_int VALUES_IN_DEGREE) * PIXEL_SIZE"

text \<open>The inner loop: the words of the buffer, swapped in place, go to a row of the map.\<close>

fun store_row ::
  "nat \<Rightarrow> nat \<Rightarrow> 16 word option list \<Rightarrow> real option list list \<Rightarrow> real option list list res" where
  "store_row row col [] map_data = Inr map_data"
| "store_row row col (w # ws) map_data =
     bindR (store_cell map_data row col (map_option (\<lambda>v. real (unat v)) w)) (\<lambda>map_data'.
       store_row row (Suc col) ws map_data')"

fun read_rows ::
  "8 word list \<Rightarrow> nat \<Rightarrow> nat \<Rightarrow> nat \<Rightarrow> nat \<Rightarrow> 16 word option list \<Rightarrow> real option list list
     \<Rightarrow> real option list list res" where
  "read_rows bytes 0 row first_col pos buffer map_data = Inr map_data"
| "read_rows bytes (Suc rows) row first_col pos buffer map_data =
     (let (buffer', pos') = fread_words bytes pos buffer
      in case fseek (int pos' + (cells_in_degree - int (length buffer)) * PIXEL_SIZE) of
           None \<Rightarrow> Inl (Exit 1)
         | Some pos'' \<Rightarrow>
             let buffer'' = map (map_option change_bytes_order) buffer'
             in bindR (store_row row first_col buffer'' map_data) (\<lambda>map_data'.
                  read_rows bytes rows (Suc row) first_col pos'' buffer'' map_data'))"

definition read_from_file ::
  "(string \<Rightarrow> 8 word list option) \<Rightarrow> int \<Rightarrow> int \<Rightarrow> nat \<Rightarrow> nat \<Rightarrow> nat \<Rightarrow> nat \<Rightarrow> real option list list
     \<Rightarrow> string \<Rightarrow> real option list list res" where
  "read_from_file files north_border_int west_border_int rows cols first_row first_col map_data
       map_dir =
     (let file_to_open = get_filename map_dir west_border_int north_border_int
      in if length file_to_open \<ge> 256 then Inl OutOfBounds
         else case files file_to_open of
                None \<Rightarrow> Inl (Exit 1)
              | Some bytes \<Rightarrow>
                  (case fseek (start_offset north_border_int west_border_int) of
                     None \<Rightarrow> Inl (Exit 1)
                   | Some pos \<Rightarrow>
                       read_rows bytes rows first_row first_col pos (replicate cols None) map_data))"

section \<open>Reading the tiles of an area\<close>

text \<open>The two while loops. Not returning is the value \<open>None\<close>.\<close>

partial_function (option) read_tiles_row ::
  "(string \<Rightarrow> 8 word list option) \<Rightarrow> string \<Rightarrow> real \<Rightarrow> int \<Rightarrow> nat \<Rightarrow> nat \<Rightarrow> nat \<Rightarrow> real \<Rightarrow> real
     \<Rightarrow> real option list list \<Rightarrow> real option list list res option" where
  "read_tiles_row files map_dir east_border north_ptr_int rows_here first_free_row first_free_col
       west_ptr east_ptr map_data =
     (if is_lesser west_ptr east_border then
        (let west_ptr_int = border_to_int west_ptr;
             cols_here = nat \<bar>border_to_int east_ptr - west_ptr_int\<bar>
         in case read_from_file files north_ptr_int west_ptr_int rows_here cols_here first_free_row
                   first_free_col map_data map_dir of
              Inl e \<Rightarrow> Some (Inl e)
            | Inr map_data' \<Rightarrow>
                read_tiles_row files map_dir east_border north_ptr_int rows_here first_free_row
                  (first_free_col + cols_here) (floor2 (west_ptr + 1))
                  (if is_greater (east_ptr + 1) east_border then east_border else east_ptr + 1)
                  map_data')
      else Some (Inr map_data))"

partial_function (option) read_tiles ::
  "(string \<Rightarrow> 8 word list option) \<Rightarrow> string \<Rightarrow> real \<Rightarrow> real \<Rightarrow> real \<Rightarrow> nat \<Rightarrow> real \<Rightarrow> real
     \<Rightarrow> real option list list \<Rightarrow> real option list list res option" where
  "read_tiles files map_dir west_border east_border south_border first_free_row north_ptr south_ptr
       map_data =
     (if is_greater north_ptr south_border then
        (let north_ptr_int = border_to_int north_ptr;
             rows_here = nat \<bar>north_ptr_int - border_to_int south_ptr\<bar>
         in Option.bind
              (read_tiles_row files map_dir east_border north_ptr_int rows_here first_free_row 0
                 west_border
                 (if is_greater (ceil2 west_border) east_border then east_border
                  else ceil2 west_border) map_data)
              (\<lambda>r. case r of
                 Inl e \<Rightarrow> Some (Inl e)
               | Inr map_data' \<Rightarrow>
                   read_tiles files map_dir west_border east_border south_border
                     (first_free_row + rows_here)
                     (if Utils_equals (floor2 north_ptr) north_ptr then north_ptr - 1
                      else floor2 north_ptr)
                     (if is_lesser (south_ptr - 1) south_border then south_border
                      else south_ptr - 1) map_data'))
      else Some (Inr map_data))"

definition read_from_multiple_files ::
  "(string \<Rightarrow> 8 word list option) \<Rightarrow> real \<Rightarrow> real \<Rightarrow> real \<Rightarrow> real \<Rightarrow> string \<Rightarrow> real option list list
     \<Rightarrow> real option list list res option" where
  "read_from_multiple_files files west_border north_border east_border south_border map_dir map_data =
     (let south_ptr = (if is_lesser (floor2 north_border) south_border then south_border
                       else floor2 north_border);
          south_ptr = (if Utils_equals north_border south_ptr
                       then (if is_lesser (north_border - 1) south_border then south_border
                             else north_border - 1)
                       else south_ptr)
      in read_tiles files map_dir west_border east_border south_border 0 north_border south_ptr
           map_data)"

section \<open>Outliers\<close>

definition is_outlier :: "real \<Rightarrow> bool" where
  "is_outlier h \<longleftrightarrow> h > 3000 \<or> h < 10"

text \<open>One cell: an outlier takes the value of the cell above, in the first row of the cell below.\<close>

definition skip_outlier_at :: "nat \<Rightarrow> nat \<Rightarrow> real option list list \<Rightarrow> real option list list res" where
  "skip_outlier_at i j map_data =
     bindR (get_at map_data (int i)) (\<lambda>row.
     bindR (get_at row (int j)) (\<lambda>c.
     bindR (get_init c) (\<lambda>h.
       if is_outlier h then
         bindR (get_at map_data (if i > 0 then int i - 1 else int i + 1)) (\<lambda>row'.
         bindR (get_at row' (int j)) (\<lambda>v. store_cell map_data i j v))
       else Inr map_data)))"

fun skip_outliers_row :: "nat \<Rightarrow> nat list \<Rightarrow> real option list list \<Rightarrow> real option list list res" where
  "skip_outliers_row i [] map_data = Inr map_data"
| "skip_outliers_row i (j # js) map_data =
     bindR (skip_outlier_at i j map_data) (skip_outliers_row i js)"

fun skip_outliers_rows ::
  "nat list \<Rightarrow> nat \<Rightarrow> real option list list \<Rightarrow> real option list list res" where
  "skip_outliers_rows [] width map_data = Inr map_data"
| "skip_outliers_rows (i # is) width map_data =
     bindR (skip_outliers_row i [0..<width] map_data) (skip_outliers_rows is width)"

definition skip_outliers ::
  "real option list list \<Rightarrow> nat \<Rightarrow> nat \<Rightarrow> real option list list res" where
  "skip_outliers map_data len width = skip_outliers_rows [0..<len] width map_data"

section \<open>The reader\<close>

definition SrtmReader_read ::
  "(string \<Rightarrow> 8 word list option) \<Rightarrow> real \<Rightarrow> real \<Rightarrow> real \<Rightarrow> real \<Rightarrow> string \<Rightarrow> tmap res option" where
  "SrtmReader_read files west_border north_border east_border south_border map_dir =
     (let (south_border, north_border) = swap_if_required south_border north_border;
          (west_border, east_border) = swap_if_required west_border east_border;
          cols = nat (border_to_int east_border - border_to_int west_border);
          rows = nat (border_to_int north_border - border_to_int south_border);
          m = setWestBorder (setNorthBorder
                (Map_new (init_map_data rows cols) cols rows (1 / of_int VALUES_IN_DEGREE)
                   (1 / of_int VALUES_IN_DEGREE)) north_border) west_border
      in map_option
           (\<lambda>r. bindR r (\<lambda>map_data.
                bindR (skip_outliers map_data (m_length m) (m_width m)) (\<lambda>map_data'.
                  Inr (m\<lparr>m_data := map_data'\<rparr>))))
           (read_from_multiple_files files west_border north_border east_border south_border map_dir
              (m_data m)))"

end
