(* ===== verification/Config.thy ===== *)
theory Config
  imports C_Lib
begin

text \<open>
  \<open>utils/Config.h\<close>: the command line. The arguments go through \<open>getopt\<close> with the option string of
  the source; the messages on the standard error stream are values. The number of active threads
  is an argument, because the default name of the output file contains it.
\<close>

record config =
  tolerance :: real
  version2D :: bool
  steps :: int
  cores :: int
  display :: bool
  border_N :: real
  border_S :: real
  border_E :: real
  border_W :: real
  dataDir :: string
  ascii :: bool
  asciiFile :: string
  outputFile :: string

datatype message =
    USAGE
  | Requires_argument char
  | Unknown_option char
  | Unknown_option_character char

definition Config_default :: "nat \<Rightarrow> config" where
  "Config_default active_threads =
     \<lparr>tolerance = 5, version2D = False, steps = 14, cores = -1, display = False,
      border_N = 502 / 10, border_S = 493 / 10, border_E = 207 / 10, border_W = 192 / 10,
      dataDir = ''data'', ascii = False, asciiFile = [],
      outputFile = ''graph'' @ show_int 1 (int active_threads) @ ''.mgf''\<rparr>"

text \<open>The option string \<open>"T:23s:dN:S:E:W:D:af:o:c:"\<close>.\<close>

definition option_string :: "char \<Rightarrow> bool option" where
  "option_string c =
     (if c \<in> set ''TsNSEWDfoc'' then Some True else if c \<in> set ''23da'' then Some False else None)"

text \<open>The branches of the switch for the options.\<close>

definition set_option :: "char \<Rightarrow> string \<Rightarrow> config \<Rightarrow> config" where
  "set_option c optarg cf =
     (if c = CHR ''T'' then cf\<lparr>tolerance := fst (strtod optarg)\<rparr>
      else if c = CHR ''2'' then cf\<lparr>version2D := True\<rparr>
      else if c = CHR ''3'' then cf\<lparr>version2D := False\<rparr>
      else if c = CHR ''s'' then cf\<lparr>steps := to_c_int (strtoimax optarg)\<rparr>
      else if c = CHR ''d'' then cf\<lparr>display := True\<rparr>
      else if c = CHR ''N'' then cf\<lparr>border_N := fst (strtod optarg)\<rparr>
      else if c = CHR ''S'' then cf\<lparr>border_S := fst (strtod optarg)\<rparr>
      else if c = CHR ''E'' then cf\<lparr>border_E := fst (strtod optarg)\<rparr>
      else if c = CHR ''W'' then cf\<lparr>border_W := fst (strtod optarg)\<rparr>
      else if c = CHR ''D'' then cf\<lparr>dataDir := optarg\<rparr>
      else if c = CHR ''a'' then cf\<lparr>ascii := True\<rparr>
      else if c = CHR ''f'' then cf\<lparr>asciiFile := optarg\<rparr>
      else if c = CHR ''o'' then cf\<lparr>outputFile := optarg\<rparr>
      else if c = CHR ''c'' then cf\<lparr>cores := to_c_int (strtoimax optarg)\<rparr>
      else cf)"

definition is_print :: "char \<Rightarrow> bool" where
  "is_print c \<longleftrightarrow> 32 \<le> (of_char c :: nat) \<and> (of_char c :: nat) \<le> 126"

text \<open>The branch for \<open>'?'\<close>.\<close>

definition question_messages :: "char \<Rightarrow> message list" where
  "question_messages optopt =
     (if optopt \<in> set ''Ts23dNSEWDafoc'' then [Requires_argument optopt, USAGE]
      else if is_print optopt then [Unknown_option optopt, USAGE]
      else [Unknown_option_character optopt, USAGE])"

definition handle_event :: "opt_event \<Rightarrow> config \<times> message list \<Rightarrow> config \<times> message list" where
  "handle_event ev s =
     (case ev of
        Opt c a \<Rightarrow> (set_option c (case a of None \<Rightarrow> [] | Some x \<Rightarrow> x) (fst s), snd s)
      | MissingArg c \<Rightarrow> (fst s, snd s @ question_messages c)
      | Unknown c \<Rightarrow> (fst s, snd s @ question_messages c))"

text \<open>\<open>argv\<close> includes the program name.\<close>

definition parseArguments :: "string list \<Rightarrow> config \<Rightarrow> config \<times> message list" where
  "parseArguments argv cf =
     fold handle_event (getopt_all option_string (tl argv))
       (cf, if length argv = 1 then [USAGE] else [])"

definition Config_new :: "nat \<Rightarrow> string list \<Rightarrow> config \<times> message list" where
  "Config_new active_threads argv = parseArguments argv (Config_default active_threads)"

section \<open>The last occurrence of an option decides\<close>

text \<open>The argument of the last event among the given letters, with its letter.\<close>

definition last_of :: "string \<Rightarrow> opt_event list \<Rightarrow> (char \<times> string) option" where
  "last_of cs evs =
     (let xs = filter (\<lambda>ev. case ev of Opt c a \<Rightarrow> c \<in> set cs | _ \<Rightarrow> False) evs
      in if xs = [] then None
         else (case last xs of Opt c a \<Rightarrow> Some (c, case a of None \<Rightarrow> [] | Some x \<Rightarrow> x) | _ \<Rightarrow> None))"

lemma last_of_Nil [simp]: "last_of cs [] = None"
  by (simp add: last_of_def)

lemma last_of_snoc:
  "last_of cs (evs @ [ev]) =
     (case ev of Opt c a \<Rightarrow> if c \<in> set cs then Some (c, case a of None \<Rightarrow> [] | Some x \<Rightarrow> x)
        else last_of cs evs | _ \<Rightarrow> last_of cs evs)"
  by (cases ev) (auto simp: last_of_def Let_def)

definition field_by :: "string \<Rightarrow> (char \<times> string \<Rightarrow> 'a) \<Rightarrow> 'a \<Rightarrow> opt_event list \<Rightarrow> 'a" where
  "field_by cs f d evs = (case last_of cs evs of None \<Rightarrow> d | Some x \<Rightarrow> f x)"

text \<open>The configuration that gives each field the value of the last of its options.\<close>

definition last_wins :: "config \<Rightarrow> opt_event list \<Rightarrow> config" where
  "last_wins cf evs =
     \<lparr>tolerance = field_by ''T'' (\<lambda>(c, a). fst (strtod a)) (tolerance cf) evs,
      version2D = field_by ''23'' (\<lambda>(c, a). c = CHR ''2'') (version2D cf) evs,
      steps = field_by ''s'' (\<lambda>(c, a). to_c_int (strtoimax a)) (steps cf) evs,
      cores = field_by ''c'' (\<lambda>(c, a). to_c_int (strtoimax a)) (cores cf) evs,
      display = field_by ''d'' (\<lambda>(c, a). True) (display cf) evs,
      border_N = field_by ''N'' (\<lambda>(c, a). fst (strtod a)) (border_N cf) evs,
      border_S = field_by ''S'' (\<lambda>(c, a). fst (strtod a)) (border_S cf) evs,
      border_E = field_by ''E'' (\<lambda>(c, a). fst (strtod a)) (border_E cf) evs,
      border_W = field_by ''W'' (\<lambda>(c, a). fst (strtod a)) (border_W cf) evs,
      dataDir = field_by ''D'' snd (dataDir cf) evs,
      ascii = field_by ''a'' (\<lambda>(c, a). True) (ascii cf) evs,
      asciiFile = field_by ''f'' snd (asciiFile cf) evs,
      outputFile = field_by ''o'' snd (outputFile cf) evs\<rparr>"

lemma last_wins_Nil: "last_wins cf [] = cf"
  by (simp add: last_wins_def field_by_def)

lemma field_by_snoc:
  "field_by cs f d (evs @ [ev]) =
     (case ev of Opt c a \<Rightarrow> if c \<in> set cs then f (c, case a of None \<Rightarrow> [] | Some x \<Rightarrow> x)
        else field_by cs f d evs | _ \<Rightarrow> field_by cs f d evs)"
  by (cases ev) (simp_all add: field_by_def last_of_snoc)

lemma last_wins_snoc: "last_wins cf (evs @ [ev]) = fst (handle_event ev (last_wins cf evs, ms))"
  by (cases ev) (simp_all add: handle_event_def set_option_def last_wins_def field_by_snoc)

lemma fold_handle_event: "fst (fold handle_event evs (cf, ms)) = last_wins cf evs"
proof (induction evs rule: rev_induct)
  case (snoc ev evs)
  have "handle_event ev (fold handle_event evs (cf, ms)) =
      handle_event ev (last_wins cf evs, snd (fold handle_event evs (cf, ms)))"
    by (simp flip: snoc.IH)
  then show ?case
    by (simp add: last_wins_snoc [where ms = "snd (fold handle_event evs (cf, ms))"])
qed (simp add: last_wins_Nil)

text \<open>C18: for a command line that gives its options as separate arguments, each field of the
  configuration has the value of the last option for it, and its default when there is none; the
  order of options for different fields does not matter, and nothing is reported.\<close>

theorem parseArguments_last_wins:
  assumes "\<forall>ev \<in> set evs. valid_opt option_string ev" "evs \<noteq> []"
  shows "Config_new threads (prog # concat (map render_opt evs)) =
    (last_wins (Config_default threads) evs, [])"
proof -
  have 1: "snd (fold handle_event evs (cf, ms)) = ms" if "\<forall>ev \<in> set evs. valid_opt option_string ev"
    for cf ms and evs
    using that
    by (induction evs arbitrary: cf) (auto simp: valid_opt_def handle_event_def split: opt_event.splits)
  have "concat (map render_opt evs) \<noteq> []"
    using assms by (cases evs; cases "hd evs") (auto simp: valid_opt_def render_opt_def)
  then show ?thesis
    using fold_handle_event 1 [OF assms(1)] getopt_all_render [OF assms(1)]
    by (simp add: Config_new_def parseArguments_def prod_eq_iff)
qed

theorem parseArguments_last_wins_witness:
  "version2D (fst (Config_new 4 [''prog'', ''-2'', ''-o'', ''x.mgf'', ''-3'', ''-T'', ''7'', ''-2''])) \<and>
   outputFile (fst (Config_new 4 [''prog'', ''-2'', ''-o'', ''x.mgf'', ''-3'', ''-T'', ''7'', ''-2''])) = ''x.mgf''"
proof -
  let ?evs = "[Opt (CHR ''2'') None, Opt (CHR ''o'') (Some ''x.mgf''), Opt (CHR ''3'') None,
    Opt (CHR ''T'') (Some ''7''), Opt (CHR ''2'') None]"
  have "Config_new 4 (''prog'' # concat (map render_opt ?evs)) = (last_wins (Config_default 4) ?evs, [])"
    by (rule parseArguments_last_wins) (simp_all add: valid_opt_def option_string_def)
  then show ?thesis
    by (simp add: render_opt_def last_wins_def field_by_def last_of_def)
qed

end
