(* ===== verification/Writer.thy ===== *)
theory Writer
  imports Connectivity C_Lib
begin

text \<open>
  \<open>utils/MyGraphFormatWriter.h\<close>: numbering the nodes of the mesh and writing nodes and edges. The
  two ordered sets of the source are lists in the order of the set; \<open>set_emplace\<close> inserts as
  \<open>std::set\<close> does, with the comparison of the element type. The file is the list of its lines,
  each as the values the source streams into it; the formatting of doubles by the stream is not
  modelled.
\<close>

section \<open>Ordered sets\<close>

fun set_emplace :: "('a \<Rightarrow> 'a \<Rightarrow> bool) \<Rightarrow> 'a \<Rightarrow> 'a list \<Rightarrow> 'a list" where
  "set_emplace lt x [] = [x]"
| "set_emplace lt x (y # ys) =
     (if lt x y then x # y # ys else if lt y x then y # set_emplace lt x ys else y # ys)"

text \<open>The comparison of \<open>std::string\<close>, of the pairs \<open>Node\<close> and of the tuples \<open>Edge\<close>.\<close>

fun str_less :: "string \<Rightarrow> string \<Rightarrow> bool" where
  "str_less s [] = False"
| "str_less [] (d # t) = True"
| "str_less (c # s) (d # t) =
     ((of_char c :: nat) < of_char d \<or> \<not> (of_char d :: nat) < of_char c \<and> str_less s t)"

type_synonym writer_node = "nat \<times> node_data"
type_synonym writer_edge = "string \<times> string \<times> bool"

definition writer_node_less :: "writer_node \<Rightarrow> writer_node \<Rightarrow> bool" where
  "writer_node_less p q \<longleftrightarrow> fst p < fst q \<or> \<not> fst q < fst p \<and> node_less (snd p) (snd q)"

definition writer_edge_less :: "writer_edge \<Rightarrow> writer_edge \<Rightarrow> bool" where
  "writer_edge_less p q \<longleftrightarrow>
     (case p of (a1, b1, f1) \<Rightarrow> case q of (a2, b2, f2) \<Rightarrow>
        str_less a1 a2 \<or> \<not> str_less a2 a1 \<and>
          (str_less b1 b2 \<or> \<not> str_less b2 b1 \<and> (\<not> f1 \<and> f2)))"

section \<open>Identifiers\<close>

definition node_id :: "node_data \<Rightarrow> nat \<Rightarrow> string" where
  "node_id nd k = (if hyperEdge nd then ''h'' else ''n'') @ show_int 1 (int k)"

definition findNode :: "node_data \<Rightarrow> writer_node list \<Rightarrow> string option" where
  "findNode nd nodesSet =
     map_option (\<lambda>pair. node_id nd (fst pair)) (List.find (\<lambda>pair. node_eq (snd pair) nd) nodesSet)"

text \<open>\<open>getNodeId\<close> returns the set and the counter it updates, and the identifier.\<close>

definition getNodeId ::
  "writer_node list \<Rightarrow> nat \<Rightarrow> node_data \<Rightarrow> writer_node list option \<Rightarrow> writer_node list \<times> nat \<times> string" where
  "getNodeId nodesSet nodesIter nd additionalNodesSet =
     (case findNode nd nodesSet of
        Some i \<Rightarrow> (nodesSet, nodesIter, i)
      | None \<Rightarrow>
          (case Option.bind additionalNodesSet (findNode nd) of
             Some i \<Rightarrow> (nodesSet, nodesIter, i)
           | None \<Rightarrow>
               (set_emplace writer_node_less (nodesIter, nd) nodesSet, Suc nodesIter,
                node_id nd nodesIter)))"

definition writer_findEdge :: "string \<Rightarrow> string \<Rightarrow> writer_edge list \<Rightarrow> writer_edge option" where
  "writer_findEdge a b es =
     List.find (\<lambda>(s, t, f). s = a \<and> t = b \<or> s = b \<and> t = a) es"

definition writer_addEdge :: "writer_edge list \<Rightarrow> string \<Rightarrow> string \<Rightarrow> bool \<Rightarrow> writer_edge list" where
  "writer_addEdge es firstNodeId secondNodeId isBorder =
     (if writer_findEdge firstNodeId secondNodeId es = None
      then set_emplace writer_edge_less (firstNodeId, secondNodeId, isBorder) es else es)"

section \<open>Lines\<close>

datatype line =
    NodeLine string nat real real real bool
  | EdgeLine nat string string bool

definition printNodes :: "writer_node list \<Rightarrow> string \<Rightarrow> (node_data \<Rightarrow> bool) \<Rightarrow> line list" where
  "printNodes nodesSet preambule attributeChecker =
     map (\<lambda>(k, nd). NodeLine preambule k (getX (coords nd)) (getY (coords nd)) (getZ (coords nd))
                      (attributeChecker nd)) nodesSet"

definition printEdges :: "writer_edge list \<Rightarrow> line list" where
  "printEdges es = map (\<lambda>(i, (a, b, f)). EdgeLine i a b f) (enumerate 0 es)"

record writer =
  w_vertices :: "writer_node list"
  w_interiors :: "writer_node list"
  w_edges :: "writer_edge list"
  w_nodesIter :: nat
  w_interiorsIter :: nat

definition writer_init :: writer where
  "writer_init = \<lparr>w_vertices = [], w_interiors = [], w_edges = [], w_nodesIter = 0, w_interiorsIter = 0\<rparr>"

definition writeToMyGraphFormat :: "writer \<Rightarrow> line list" where
  "writeToMyGraphFormat w =
     printNodes (w_vertices w) ''N,n'' hanging @ printNodes (w_interiors w) ''H,h'' toRefine
       @ printEdges (w_edges w)"

section \<open>The traversal\<close>

definition border_between :: "mesh \<Rightarrow> nat \<Rightarrow> nat \<Rightarrow> bool res" where
  "border_between g n d = mapR border (edge_at g (n, findEdge g n d))"

text \<open>One edge of a vertex, and one edge of an interior.\<close>

definition write_vertex_edge :: "mesh \<Rightarrow> nat \<Rightarrow> string \<Rightarrow> nat \<Rightarrow> writer \<Rightarrow> writer res" where
  "write_vertex_edge g n firstNodeId e w =
     (let dstNode = getEdgeDst g n e; dstNodeData = getData g dstNode
      in if hyperEdge dstNodeData then Inr w
         else (let (vs, k, secondNodeId) = getNodeId (w_vertices w) (w_nodesIter w) dstNodeData None
               in mapR (\<lambda>b. w\<lparr>w_vertices := vs, w_nodesIter := k,
                              w_edges := writer_addEdge (w_edges w) firstNodeId secondNodeId b\<rparr>)
                    (border_between g n dstNode)))"

definition write_interior_edge :: "mesh \<Rightarrow> nat \<Rightarrow> string \<Rightarrow> nat \<Rightarrow> writer \<Rightarrow> writer res" where
  "write_interior_edge g n firstInteriorId e w =
     (let dstNode = getEdgeDst g n e; dstNodeData = getData g dstNode;
          (is, k, secondNodeId) = getNodeId (w_interiors w) (w_interiorsIter w) dstNodeData
                                    (Some (w_vertices w))
      in mapR (\<lambda>b. w\<lparr>w_interiors := is, w_interiorsIter := k,
                     w_edges := writer_addEdge (w_edges w) firstInteriorId secondNodeId b\<rparr>)
           (border_between g n dstNode))"

fun foldR :: "('a \<Rightarrow> 's \<Rightarrow> 's res) \<Rightarrow> 'a list \<Rightarrow> 's \<Rightarrow> 's res" where
  "foldR f [] s = Inr s"
| "foldR f (x # xs) s = bindR (f x s) (foldR f xs)"

definition write_node :: "mesh \<Rightarrow> nat \<Rightarrow> writer \<Rightarrow> writer res" where
  "write_node g n w =
     (let nd = getData g n
      in if \<not> hyperEdge nd then
           (let (vs, k, firstNodeId) = getNodeId (w_vertices w) (w_nodesIter w) nd None
            in foldR (write_vertex_edge g n firstNodeId) (out_edges g n)
                 (w\<lparr>w_vertices := vs, w_nodesIter := k\<rparr>))
         else
           (let (is, k, firstInteriorId) = getNodeId (w_interiors w) (w_interiorsIter w) nd
                                             (Some (w_vertices w))
            in foldR (write_interior_edge g n firstInteriorId) (out_edges g n)
                 (w\<lparr>w_interiors := is, w_interiorsIter := k\<rparr>)))"

definition writeToFile :: "mesh \<Rightarrow> line list res" where
  "writeToFile g = mapR writeToMyGraphFormat (foldR (write_node g) (graph_nodes g) writer_init)"

end
