(* ===== verification/Mesh_Main.thy ===== *)
theory Mesh_Main
  imports Production_Progress Mesh_Refinement Generator_Laws Srtm_Reader Config Writer
begin

text \<open>
  \<open>GraphGrammar.cpp\<close>: the main program. Each of the configured steps runs two parallel loops over
  the nodes of the graph, one that checks the refinement condition and one that applies the
  productions. A parallel loop takes tasks from a work list in any order, and the runtime makes the
  tasks behave as if one ran after the other; \<open>for_each\<close> is therefore a relation that picks any task of
  the work list, runs it and adds what the task pushed. The relation records the states the run goes
  through. The log, the statistics and the call of the display script are left out.
\<close>

section \<open>The state of the program\<close>

text \<open>The mesh, the static state of the conversion library and the files written so far.\<close>

record world =
  w_mesh :: mesh
  w_utm :: utm
  w_files :: "string \<Rightarrow> line list option"

definition basicCondition :: "mesh \<Rightarrow> nat \<Rightarrow> bool" where
  "basicCondition g n \<longleftrightarrow> containsNode g n \<and> hyperEdge (getData g n)"

definition afterStep_path :: "int \<Rightarrow> string" where
  "afterStep_path i = ''out/step'' @ show_int 1 (i - 1) @ ''.mgf''"

definition afterStep :: "int \<Rightarrow> world \<Rightarrow> world res" where
  "afterStep i w =
     mapR (\<lambda>ls. w\<lparr>w_files := (w_files w)(afterStep_path i \<mapsto> ls)\<rparr>) (writeToFile (w_mesh w))"

section \<open>The tasks\<close>

text \<open>The task of the first loop: the terrain check of one node. Not returning is \<open>None\<close>.\<close>

definition check_task :: "tmap \<Rightarrow> real \<Rightarrow> nat \<Rightarrow> world \<Rightarrow> (world \<times> nat list) res option" where
  "check_task m tol n w =
     (if basicCondition (w_mesh w) n
      then map_option (mapR (\<lambda>(st, g, _). (w\<lparr>w_utm := st, w_mesh := g\<rparr>, [])))
             (Terrain_execute (w_utm w) m tol (w_mesh w) n)
      else Some (Inr (w, [])))"

text \<open>The productions are tried in their order until one applies.\<close>

fun try_productions :: "production list \<Rightarrow> mesh \<Rightarrow> production_state \<Rightarrow> (mesh \<times> nat list \<times> bool) res" where
  "try_productions [] g ps = Inr (g, [], False)"
| "try_productions (P # Ps) g ps =
     bindR (P g ps) (\<lambda>(g', pushed, ok).
       if ok then Inr (g', pushed, True)
       else mapR (\<lambda>(g'', pushed', ok'). (g'', pushed @ pushed', ok')) (try_productions Ps g' ps))"

text \<open>The task of the second loop. The height function reads the static state of the conversion
  library; what it leaves there has no effect on later heights (\<open>zGetter_tm_irrelevant\<close>).\<close>

definition refine_task :: "int \<Rightarrow> bool \<Rightarrow> tmap \<Rightarrow> nat \<Rightarrow> world \<Rightarrow> (world \<times> nat list) res" where
  "refine_task j v2D m n w =
     (if \<not> basicCondition (w_mesh w) n then Inr (w, [])
      else bindR (ProductionState (w_mesh w) n v2D (zGetter (w_utm w) m)) (\<lambda>ps.
           bindR (try_productions productions (w_mesh w) ps) (\<lambda>(g, pushed, ok).
             let w' = w\<lparr>w_mesh := g\<rparr>
             in if ok then mapR (\<lambda>w''. (w'', pushed)) (afterStep j w') else Inr (w', pushed))))"

section \<open>The loops\<close>

text \<open>\<open>run_tasks body s W tr s' W'\<close>: from the state \<open>s\<close> with the work list \<open>W\<close> some tasks run, the state
  goes through \<open>tr\<close> to \<open>s'\<close> and \<open>W'\<close> is left. The loop \<open>for_each\<close> ends when the work list is empty, or
  with the fault of a task.\<close>

inductive run_tasks ::
  "(nat \<Rightarrow> 's \<Rightarrow> ('s \<times> nat list) res option) \<Rightarrow> 's \<Rightarrow> nat multiset \<Rightarrow> 's list \<Rightarrow> 's \<Rightarrow> nat multiset \<Rightarrow> bool"
  for body where
  run_nil: "run_tasks body s W [] s W"
| run_task: "n \<in># W \<Longrightarrow> body n s = Some (Inr (s', pushed)) \<Longrightarrow>
    run_tasks body s' (W - {#n#} + mset pushed) tr s'' W'' \<Longrightarrow> run_tasks body s W (s' # tr) s'' W''"

inductive for_each ::
  "(nat \<Rightarrow> 's \<Rightarrow> ('s \<times> nat list) res option) \<Rightarrow> 's \<Rightarrow> nat multiset \<Rightarrow> 's list \<Rightarrow> 's res \<Rightarrow> bool"
  for body where
  for_each_done: "run_tasks body s W tr s' {#} \<Longrightarrow> for_each body s W tr (Inr s')"
| for_each_fault: "run_tasks body s W tr s' W' \<Longrightarrow> n \<in># W' \<Longrightarrow> body n s' = Some (Inl f) \<Longrightarrow>
    for_each body s W tr (Inl f)"

inductive_cases for_eachE: "for_each body s W tr r"

definition check_loop :: "tmap \<Rightarrow> real \<Rightarrow> world \<Rightarrow> world list \<Rightarrow> world res \<Rightarrow> bool" where
  "check_loop m tol w tr r = for_each (check_task m tol) w (mset (graph_nodes (w_mesh w))) tr r"

definition refine_body :: "int \<Rightarrow> bool \<Rightarrow> tmap \<Rightarrow> nat \<Rightarrow> world \<Rightarrow> (world \<times> nat list) res option" where
  "refine_body j v2D m n w = Some (refine_task j v2D m n w)"

definition refine_loop :: "int \<Rightarrow> bool \<Rightarrow> tmap \<Rightarrow> world \<Rightarrow> world list \<Rightarrow> world res \<Rightarrow> bool" where
  "refine_loop j v2D m w tr r =
     for_each (refine_body j v2D m) w (mset (graph_nodes (w_mesh w))) tr r"

text \<open>The steps from \<open>j\<close> on.\<close>

inductive step_loop :: "config \<Rightarrow> tmap \<Rightarrow> int \<Rightarrow> world \<Rightarrow> world list \<Rightarrow> world res \<Rightarrow> bool" for cf m where
  steps_done: "\<not> j < steps cf \<Longrightarrow> step_loop cf m j w [] (Inr w)"
| check_fault: "j < steps cf \<Longrightarrow> check_loop m (tolerance cf) w tr (Inl f) \<Longrightarrow> step_loop cf m j w tr (Inl f)"
| refine_fault: "j < steps cf \<Longrightarrow> check_loop m (tolerance cf) w tr1 (Inr w1) \<Longrightarrow>
    refine_loop j (version2D cf) m w1 tr2 (Inl f) \<Longrightarrow> step_loop cf m j w (tr1 @ tr2) (Inl f)"
| steps_next: "j < steps cf \<Longrightarrow> check_loop m (tolerance cf) w tr1 (Inr w1) \<Longrightarrow>
    refine_loop j (version2D cf) m w1 tr2 (Inr w2) \<Longrightarrow> step_loop cf m (j + 1) w2 tr3 r \<Longrightarrow>
    step_loop cf m j w (tr1 @ tr2 @ tr3) r"

section \<open>The program\<close>

text \<open>Everything before the loop: the map is read and the initial mesh is generated.\<close>

definition main_init ::
  "config \<Rightarrow> (string \<Rightarrow> 8 word list option) \<Rightarrow> utm \<Rightarrow> (tmap \<times> world) res option" where
  "main_init cf data_files st =
     map_option (\<lambda>r. bindR r (\<lambda>m.
         mapR (\<lambda>(st', m', g). (m', \<lparr>w_mesh = g, w_utm = st', w_files = (\<lambda>_. None)\<rparr>))
           (generateSampleGraphWithDataWithConversionToUtm st empty_graph m (border_W cf) (border_N cf)
              (border_E cf) (border_S cf) (version2D cf))))
       (SrtmReader_read data_files (border_W cf) (border_N cf) (border_E cf) (border_S cf) (dataDir cf))"

definition write_result :: "config \<Rightarrow> world \<Rightarrow> world res" where
  "write_result cf w =
     mapR (\<lambda>ls. w\<lparr>w_files := (w_files w)(outputFile cf \<mapsto> ls)\<rparr>) (writeToFile (w_mesh w))"

inductive main_run ::
  "nat \<Rightarrow> string list \<Rightarrow> (string \<Rightarrow> 8 word list option) \<Rightarrow> world list \<Rightarrow> world res \<Rightarrow> bool" where
  main_init_fault: "cf = fst (Config_new threads argv) \<Longrightarrow>
    main_init cf data_files utm_init = Some (Inl f) \<Longrightarrow> main_run threads argv data_files [] (Inl f)"
| main_loop: "cf = fst (Config_new threads argv) \<Longrightarrow>
    main_init cf data_files utm_init = Some (Inr (m, w)) \<Longrightarrow> step_loop cf m 0 w tr r \<Longrightarrow>
    main_run threads argv data_files (w # tr) (bindR r (write_result cf))"

section \<open>At most one production applies\<close>

lemma not_applicable:
  assumes "c = countBrokenEdges (ps_edgesIterators ps)"
  shows "c \<noteq> 0 \<Longrightarrow> P1_execute g ps = not_applied g" "c \<noteq> 1 \<Longrightarrow> P2_execute g ps = not_applied g"
    "c \<noteq> 1 \<Longrightarrow> P3_execute g ps = not_applied g" "c \<noteq> 2 \<Longrightarrow> P4_execute g ps = not_applied g"
    "c \<noteq> 2 \<Longrightarrow> P5_execute g ps = not_applied g" "c \<noteq> 3 \<Longrightarrow> P6_execute g ps = not_applied g"
  using assms
  by (simp_all add: execute_defs P1_checkApplicabilityCondition_def hasBrokenEdge_def
      P2_checkApplicabilityCondition_def P3_checkApplicabilityCondition_def
      P4_checkApplicabilityCondition_def P5_checkApplicabilityCondition_def P6_checkApplicabilityCondition_def)

lemma P2_P3_exclusive:
  "P2_execute g ps = not_applied g \<or> P3_execute g ps = not_applied g \<or> P2_execute g ps = P3_execute g ps"
  by (cases "checkIfBrokenEdgeIsTheLongest g (nat (getAnyBrokenEdge ps)) (ps_edgesIterators ps) (ps_vertices ps)")
    (auto simp: P2_execute_def P3_execute_def P2_checkApplicabilityCondition_def
      P3_checkApplicabilityCondition_def Let_def)

lemma P4_P5_exclusive: "P4_execute g ps = not_applied g \<or> P5_execute g ps = not_applied g"
proof (cases "List.find (\<lambda>e. e \<in> set (ps_brokenEdges ps)) (getLongestEdgesIncludingBrokenOnes ps)")
  case (Some e)
  then have e: "e \<in> set (getLongestEdgesIncludingBrokenOnes ps)" "e \<in> set (ps_brokenEdges ps)"
    by (auto simp: find_Some_iff)
  then have "getLongestEdgesIncludingBrokenOnes ps ! 0 = e"
    if "\<not> length (getLongestEdgesIncludingBrokenOnes ps) > 1"
    using that longest_including_broken(1) [of ps] by (cases "getLongestEdgesIncludingBrokenOnes ps") auto
  then show ?thesis using e(2) by (auto simp: P5_execute_def Let_def)
qed (simp add: P4_execute_def)

lemma productions_exclusive:
  assumes "P \<in> set productions" "Q \<in> set productions"
  shows "P g ps = not_applied g \<or> Q g ps = not_applied g \<or> P g ps = Q g ps"
proof -
  let ?c = "countBrokenEdges (ps_edgesIterators ps)"
  note na = not_applicable [OF refl, of ps g]
  consider "?c = 0" | "?c = 1" | "?c = 2" | "?c = 3" | "?c > 3" by linarith
  then show ?thesis
    using assms P2_P3_exclusive [of g ps] P4_P5_exclusive [of g ps] na
    unfolding productions_def by cases auto
qed

text \<open>What trying the productions comes to.\<close>

lemma try_productions_eq:
  assumes "set Ps \<subseteq> set productions"
  shows "try_productions Ps g ps =
    (case List.find (\<lambda>P. P g ps \<noteq> not_applied g) Ps of None \<Rightarrow> not_applied g | Some P \<Rightarrow> P g ps)"
  using assms
proof (induction Ps)
  case (Cons P Ps)
  show ?case
  proof (cases "P g ps = not_applied g")
    case False
    have "P g ps = Inr (g', pushed, False) \<Longrightarrow> False" for g' pushed
      using False production_False [of P g ps g' pushed] Cons.prems by (auto simp: not_applied_def)
    then show ?thesis using False by (cases "P g ps") (auto simp: bindR_def split: if_splits)
  qed (use Cons in \<open>simp add: not_applied_def mapR_def bindR_def split: sum.splits\<close>)
qed (simp add: not_applied_def)

lemma try_productions_Inr:
  assumes "try_productions productions g ps = Inr (g', pushed, ok)"
  shows "if ok then \<exists>P \<in> set productions. P g ps = Inr (g', pushed, True) else g' = g \<and> pushed = []"
proof (cases "List.find (\<lambda>P. P g ps \<noteq> not_applied g) productions")
  case None
  then show ?thesis using assms by (simp add: try_productions_eq not_applied_Inr)
next
  case (Some P)
  then have "P \<in> set productions" "P g ps \<noteq> not_applied g" by (auto simp: find_Some_iff)
  moreover have "P g ps = Inr (g', pushed, ok)" using assms Some by (simp add: try_productions_eq)
  ultimately show ?thesis using production_False [of P g ps g' pushed] by (cases ok) (auto simp: not_applied_def)
qed

lemma try_productions_set:
  assumes "set Ps = set productions" "set Qs = set productions"
  shows "try_productions Ps g ps = try_productions Qs g ps"
proof -
  let ?E = "\<lambda>P. P g ps \<noteq> not_applied g"
  have none: "List.find ?E Ps = None \<longleftrightarrow> List.find ?E Qs = None"
    unfolding find_None_iff using assms by simp
  have "P g ps = Q g ps" if "List.find ?E Ps = Some P" "List.find ?E Qs = Some Q" for P Q
  proof -
    have "P \<in> set Ps" "?E P" "Q \<in> set Qs" "?E Q" using that by (auto simp: find_Some_iff)
    then show ?thesis using productions_exclusive [of P Q g ps] assms by auto
  qed
  then show ?thesis
    using none assms by (auto simp: try_productions_eq split: option.splits)
qed

section \<open>The tasks keep the mesh good\<close>

text \<open>No two nodes of the graph are at the same place up to the tolerance.\<close>

definition resolved_mesh :: "mesh \<Rightarrow> bool" where
  "resolved_mesh g \<longleftrightarrow> (\<forall>u \<in> set (graph_nodes g). \<forall>v \<in> set (graph_nodes g).
     isXYequal (coords (getData g u)) (coords (getData g v)) \<longrightarrow> u = v)"

definition good :: "bool \<Rightarrow> mesh \<Rightarrow> bool" where
  "good v2D g \<longleftrightarrow> mesh_ok g \<and> good_mesh v2D (abs_mesh g)"

lemma resolved_abs: "resolved_mesh g \<Longrightarrow> resolved (abs_mesh g)"
  unfolding resolved_def resolved_mesh_def dom_abs
  by (auto simp: point_abs is_vertex_iff mesh_vertices_def)

lemma middle_area:
  assumes "e < 3" "pair_middle A (side_first t e) (side_second t e) (opposite t e)"
  shows "tri_area A t = 0"
proof -
  have "signed_area2 (point A (side_first t e)) (point A (side_second t e)) (point A (opposite t e)) = 0"
    unfolding signed_area2_def assms(2) [unfolded pair_middle_def, THEN conjunct1]
      assms(2) [unfolded pair_middle_def, THEN conjunct2] by (simp add: field_simps)
  then show ?thesis by (simp add: tri_area_side [OF assms(1)] get_area_signed)
qed

lemma good_hanging_proper:
  assumes g: "good v2D g" and res: "resolved_mesh g" and n: "n \<in> set (mesh_interiors g)"
  shows "hanging_proper g (getNeighbours g n)"
  unfolding hanging_proper_def
proof (intro allI impI)
  let ?A = "abs_mesh g" and ?vs = "getNeighbours g n"
  have ok: "mesh_store.tri_ok g" "n \<in> mesh_store.interiors g" "?vs \<in># am_triangles ?A"
    using g n interior_triangle by (simp_all add: good_def mesh_ok_iff set_mesh_interiors)
  have A: "am_wf ?A" "broken_have_middle ?A" "all_positive ?A" using g by (simp_all add: good_def good_mesh_def)
  fix e h
  assume e: "e < (3 :: nat)" and none: "edge_val g (side_first ?vs e) (side_second ?vs e) = None"
    and f: "findNodeBetween g (side_first ?vs e) (side_second ?vs e) = Some h"
  note ts = triangle_sides [OF ok(1,2) refl e]
  have l: "live g (side_first ?vs e)" "live g (side_second ?vs e)"
    using ts(4,5) by (simp_all add: mesh_store.vertex_def)
  note fn = findNodeBetween_Some [OF ts(1) l f]
  have "side_edge ?A ?vs e = None" using none ts(4,5) by (simp add: am_edges_abs)
  then obtain h' where h': "h' \<in> dom (am_points ?A)" "pair_middle ?A (side_first ?vs e) (side_second ?vs e) h'"
    using A(2) ok(3) e unfolding broken_have_middle_def by blast
  then have v: "is_vertex g h'" "live g h'" by (simp_all add: dom_abs is_vertex_iff mesh_vertices_def)
  have "isXYequal (coords (getData g h)) (coords (getData g h'))"
    using fn(6) h'(2) unfolding isXYequal_def pair_middle_def point_abs [OF ts(4)] point_abs [OF ts(5)]
      point_abs [OF v(1)] coord_div_def coord_add_def Coord_simps by metis
  then have "h = h'" using res fn(3) v(2) by (simp add: resolved_mesh_def)
  moreover have "opposite ?vs e \<noteq> h'"
    using middle_area [OF e, of ?A ?vs] h'(2) A(3) ok(3) by (auto simp: all_positive_def)
  ultimately show "\<not> hyperEdge (getData g h) \<and> h \<noteq> opposite ?vs e"
    using v(1) by (auto simp: mesh_store.vertex_def)
qed

lemma production_good:
  assumes "good v2D g" "resolved_mesh g" "state_of g n ps" "ps_version2D ps = v2D" "P \<in> set productions"
    and "P g ps = Inr (g', pushed, True)"
  shows "good v2D g' \<and> keeps (abs_mesh g) (abs_mesh g')"
proof -
  have "n \<in> set (mesh_interiors g)" using assms(3) by (simp add: state_of_def)
  then have "abs_step v2D (abs_mesh g) (abs_mesh g') \<and> mesh_ok g'"
    using production_refines [OF assms(3,5) good_hanging_proper [OF assms(1,2)] assms(6)] assms(4) by simp
  then show ?thesis
    using abs_step_good [OF _ _ resolved_abs [OF assms(2)]] assms(1) unfolding good_def by blast
qed

lemma basicCondition_iff: "n < length (nodes g) \<Longrightarrow> basicCondition g n \<longleftrightarrow> n \<in> set (mesh_interiors g)"
  by (simp add: basicCondition_def mesh_interiors_def containsNode_def live_def)

lemma graph_nodes_split: "set (graph_nodes g) = set (mesh_vertices g) \<union> set (mesh_interiors g)"
  by (auto simp: mesh_vertices_def mesh_interiors_def)

text \<open>A production that applies pushes exactly the nodes it creates, and the interior is gone.\<close>

lemma production_nodes:
  assumes st: "state_of g n ps" and proper: "hanging_proper g (getNeighbours g n)" and P: "P \<in> set productions"
    and res: "P g ps = Inr (g', pushed, True)"
  shows "set (graph_nodes g') = set (graph_nodes g) - {n} \<union> set pushed \<and>
    pushed = [length (nodes g)..<length (nodes g) + (if P \<in> set new_node_productions then 3 else 2)]"
proof -
  have nv: "n \<notin> set (mesh_vertices g)"
    using st by (auto simp: state_of_def mesh_vertices_def mesh_interiors_def)
  consider "P \<in> set new_node_productions" | "P \<notin> set new_node_productions" "P \<in> set hanging_node_productions"
    using P by (auto simp: productions_def new_node_productions_def hanging_node_productions_def)
  then show ?thesis
  proof cases
    case 1
    from new_node_True [OF 1 res] obtain e where e: "e < 3" "breakElementWithoutHangingNode g e ps = Inr (g', pushed)" .
    show ?thesis
    proof (rule new_node_split_at [OF st e])
      assume s: "split_at g n e (length (nodes g)) g'"
        and p: "pushed = [length (nodes g), Suc (length (nodes g)), Suc (Suc (length (nodes g)))]"
        and i: "set (mesh_interiors g') = set (mesh_interiors g) - {n} \<union> {Suc (length (nodes g)), Suc (Suc (length (nodes g)))}"
      have "set (graph_nodes g') = set (graph_nodes g) - {n} \<union> set pushed"
        using s nv unfolding graph_nodes_split i p by (auto simp: split_at_def)
      moreover have "pushed = [length (nodes g)..<length (nodes g) + 3]" by (simp add: p upt_rec)
      ultimately show ?thesis using 1 by simp
    qed
  next
    case 2
    from hanging_node_True [OF st 2(2) res] obtain e where
      e: "e \<in> set (ps_brokenEdges ps)" "breakElementWithHangingNode g e ps = Inr (g', pushed)" .
    then have b: "e < 3" "edge_val g (side_first (getNeighbours g n) e) (side_second (getNeighbours g n) e) = None"
      using brokenEdges_iff [OF st] by auto
    show ?thesis
    proof (rule hanging_split_at [OF st b(1) proper b(2) e(2)])
      fix h
      assume s: "split_at g n e h g'" "h \<in> set (mesh_vertices g)"
        and p: "pushed = [length (nodes g), Suc (length (nodes g))]"
        and i: "set (mesh_interiors g') = set (mesh_interiors g) - {n} \<union> set pushed"
      have "set (graph_nodes g') = set (graph_nodes g) - {n} \<union> set pushed"
        using s nv unfolding graph_nodes_split i by (auto simp: split_at_def)
      moreover have "pushed = [length (nodes g)..<length (nodes g) + 2]" by (simp add: p upt_rec)
      ultimately show ?thesis using 2(1) by simp
    qed
  qed
qed

lemma refine_task_cases:
  assumes "refine_task j v2D m n w = Inr (w', pushed)" "mesh_ok (w_mesh w)" "n < length (nodes (w_mesh w))"
  shows "w_mesh w' = w_mesh w \<and> pushed = [] \<or>
    (\<exists>P \<in> set productions. \<exists>ps. state_of (w_mesh w) n ps \<and> ps_version2D ps = v2D \<and>
      P (w_mesh w) ps = Inr (w_mesh w', pushed, True))"
proof (cases "basicCondition (w_mesh w) n")
  case True
  then have n: "n \<in> set (mesh_interiors (w_mesh w))" using assms(3) by (simp add: basicCondition_iff)
  let ?z = "zGetter (w_utm w) m"
  from assms(1) True obtain ps g' ok where
    ps: "ProductionState (w_mesh w) n v2D ?z = Inr ps"
    and t: "try_productions productions (w_mesh w) ps = Inr (g', pushed, ok)" and g': "w_mesh w' = g'"
    by (auto simp: refine_task_def bindR_Inr_iff afterStep_def mapR_def Let_def split: if_splits)
  have "ps_version2D ps = v2D" "ps_zGetter ps = ?z" using ps by (auto simp: ProductionState_def bindR_Inr_iff Let_def)
  then have "state_of (w_mesh w) n ps" using ps n assms(2) by (simp add: state_of_def)
  then show ?thesis
    using try_productions_Inr [OF t] g' \<open>ps_version2D ps = v2D\<close> by (auto split: if_splits)
qed (use assms(1) in \<open>simp add: refine_task_def\<close>)

lemma keeps_refl [simp]: "keeps A A"
  by (simp add: keeps_def)

lemma keeps_trans: "keeps A B \<Longrightarrow> keeps B C \<Longrightarrow> keeps A C"
  unfolding keeps_def by (auto intro: map_le_trans)

lemma refine_task_good:
  assumes "refine_task j v2D m n w = Inr (w', pushed)" "good v2D (w_mesh w)" "resolved_mesh (w_mesh w)"
    and "n < length (nodes (w_mesh w))"
  shows "good v2D (w_mesh w')" "keeps (abs_mesh (w_mesh w)) (abs_mesh (w_mesh w'))"
    "length (nodes (w_mesh w)) \<le> length (nodes (w_mesh w'))"
    "\<forall>k \<in> set pushed. k < length (nodes (w_mesh w'))"
proof -
  let ?g = "w_mesh w" and ?g' = "w_mesh w'"
  have "good v2D ?g' \<and> keeps (abs_mesh ?g) (abs_mesh ?g') \<and> length (nodes ?g) \<le> length (nodes ?g') \<and>
    (\<forall>k \<in> set pushed. k < length (nodes ?g'))"
    using refine_task_cases [OF assms(1) assms(2) [unfolded good_def, THEN conjunct1] assms(4)]
  proof (elim disjE)
    assume "\<exists>P \<in> set productions. \<exists>ps. state_of ?g n ps \<and> ps_version2D ps = v2D \<and> P ?g ps = Inr (?g', pushed, True)"
    then obtain P ps where P: "P \<in> set productions" "state_of ?g n ps" "ps_version2D ps = v2D"
      "P ?g ps = Inr (?g', pushed, True)" by blast
    have "n \<in> set (mesh_interiors ?g)" using P(2) by (simp add: state_of_def)
    note pn = production_nodes [OF P(2) good_hanging_proper [OF assms(2,3) this] P(1,4)]
    then have "set pushed \<subseteq> set (graph_nodes ?g')" by blast
    then have lt: "\<forall>k \<in> set pushed. k < length (nodes ?g')" by (auto simp: graph_nodes_def)
    moreover have "length (nodes ?g) \<in> set pushed" using pn by auto
    ultimately have "length (nodes ?g) \<le> length (nodes ?g')" by (blast intro: less_imp_le)
    then show ?thesis using production_good [OF assms(2,3) P(2,3,1,4)] lt by blast
  qed (use assms(2) in \<open>auto simp: good_def\<close>)
  then show "good v2D ?g'" "keeps (abs_mesh ?g) (abs_mesh ?g')" "length (nodes ?g) \<le> length (nodes ?g')"
    "\<forall>k \<in> set pushed. k < length (nodes ?g')" by blast+
qed

text \<open>The check of a node only sets its flag.\<close>

lemma updData_flag:
  assumes "live g n" "mesh_ok g"
  shows "abs_mesh (updData g n (setToRefine b)) = abs_mesh g" "mesh_ok (updData g n (setToRefine b))"
    "length (nodes (updData g n (setToRefine b))) = length (nodes g)"
proof -
  let ?h = "updData g n (setToRefine b)"
  note tri = assms(2) [unfolded mesh_ok_iff]
  note u = updData_laws [OF mesh_store.tri_okD(1) [OF tri] assms(1), where f = "setToRefine b"]
  have d: "coords (getData ?h v) = coords (getData g v)" "hyperEdge (getData ?h v) = hyperEdge (getData g v)" for v
    using u(4) [of v] by auto
  have "active (node ?h v) = active (node g v)" if "v < length (nodes g)" for v
    using u(3) [of v] u(2) that unfolding live_def by simp
  then have gn: "graph_nodes ?h = graph_nodes g"
    unfolding graph_nodes_def u(2) by (intro filter_cong) simp_all
  then have vi: "mesh_vertices ?h = mesh_vertices g" "mesh_interiors ?h = mesh_interiors g"
    using d by (simp_all add: mesh_vertices_def mesh_interiors_def)
  have nb: "getNeighbours ?h v = getNeighbours g v" if "v \<in> set (mesh_interiors g)" for v
    using that u(6) by (simp add: mesh_interiors_def)
  then have tr: "mesh_triangles ?h = mesh_triangles g"
    unfolding mesh_triangles_def vi by (auto cong: map_cong)
  show "abs_mesh ?h = abs_mesh g"
    unfolding abs_mesh_def vi tr d u(5) ..
  show "mesh_ok ?h" using assms(2) u(1) vi nb d by (simp add: mesh_ok_def)
  show "length (nodes ?h) = length (nodes g)" by (rule u(2))
qed

lemma check_task_good:
  assumes "check_task m tol n w = Some (Inr (w', pushed))" "good v2D (w_mesh w)" "n < length (nodes (w_mesh w))"
  shows "good v2D (w_mesh w')" "abs_mesh (w_mesh w') = abs_mesh (w_mesh w)"
    "length (nodes (w_mesh w')) = length (nodes (w_mesh w))" "pushed = []"
proof -
  have l: "live (w_mesh w) n" if "basicCondition (w_mesh w) n"
    using that assms(3) by (simp add: basicCondition_def containsNode_def live_def)
  note u = updData_flag [OF l assms(2) [unfolded good_def, THEN conjunct1]]
  have "w_mesh w' = w_mesh w \<or>
      w_mesh w' = updData (w_mesh w) n (setToRefine True) \<and> basicCondition (w_mesh w) n"
    and p: "pushed = []"
    using assms(1) by (auto simp: check_task_def Terrain_execute_def Let_def mapR_def bindR_Inr_iff split: if_splits)
  then show "good v2D (w_mesh w')" "abs_mesh (w_mesh w') = abs_mesh (w_mesh w)"
    "length (nodes (w_mesh w')) = length (nodes (w_mesh w))" "pushed = []"
    using u assms(2) by (auto simp: good_def)
qed

section \<open>Runs of the loops\<close>

text \<open>An invariant of the tasks is an invariant of the loop; \<open>R\<close> is what is known of the states on the
  way, and the relation \<open>Q\<close> between a state and a later one is reflexive and transitive.\<close>

lemma run_tasks_invariant:
  assumes run: "run_tasks body s W tr s' W'" and init: "I s" "\<forall>n \<in># W. ok s n"
    and R: "\<forall>x \<in> set (butlast (s # tr)). R x"
    and step: "\<And>n x x' pushed. body n x = Some (Inr (x', pushed)) \<Longrightarrow> I x \<Longrightarrow> R x \<Longrightarrow> ok x n \<Longrightarrow>
      I x' \<and> Q x x' \<and> (\<forall>k. ok x k \<longrightarrow> ok x' k) \<and> (\<forall>k \<in> set pushed. ok x' k)"
    and refl: "\<And>x. Q x x" and trans: "\<And>x y z. Q x y \<Longrightarrow> Q y z \<Longrightarrow> Q x z"
  shows "(\<forall>x \<in> set tr. I x \<and> Q s x) \<and> s' = last (s # tr)"
  using run init R
proof (induction rule: run_tasks.induct)
  case (run_task n W s s' pushed tr s'' W'')
  note st = step [OF run_task.hyps(2) run_task.prems(1)]
  have "R s" "ok s n" using run_task.prems(2,3) run_task.hyps(1) by auto
  note st = st [OF this]
  have "\<forall>k \<in># W - {#n#} + mset pushed. ok s' k"
    using st run_task.prems(2) by (auto dest: in_diffD)
  moreover have "\<forall>x \<in> set (butlast (s' # tr)). R x" using run_task.prems(3) by simp
  ultimately show ?case using run_task.IH st trans by auto
qed (simp_all add: refl)

lemma for_each_run:
  assumes "for_each body s W tr r"
  obtains s' W' where "run_tasks body s W tr s' W'" "r = Inr s' \<or> (\<exists>f. r = Inl f)"
  using assms by (elim for_eachE) auto

lemma handles_valid: "\<forall>n \<in># mset (graph_nodes g). n < length (nodes g)"
  by (auto simp: live_def)

text \<open>What a run of the steps gives: every mesh on the way is good and keeps the points, the area and
  the region of the first.\<close>

definition good_after :: "bool \<Rightarrow> world \<Rightarrow> world \<Rightarrow> bool" where
  "good_after v2D w w' \<longleftrightarrow> good v2D (w_mesh w') \<and> keeps (abs_mesh (w_mesh w)) (abs_mesh (w_mesh w'))"

lemma good_after_trans: "good_after v2D w w' \<Longrightarrow> good_after v2D w' w'' \<Longrightarrow> good_after v2D w w''"
  unfolding good_after_def using keeps_trans by blast

lemma check_run_good:
  assumes "run_tasks (check_task m tol) w W tr w' W'" "good v2D (w_mesh w)"
    and "\<forall>n \<in># W. n < length (nodes (w_mesh w))"
  shows "(\<forall>x \<in> set tr. good_after v2D w x) \<and> w' = last (w # tr)"
proof -
  have "(\<forall>x \<in> set tr. good v2D (w_mesh x) \<and> keeps (abs_mesh (w_mesh w)) (abs_mesh (w_mesh x))) \<and> w' = last (w # tr)"
  proof (rule run_tasks_invariant [OF assms(1), where R = "\<lambda>_. True" and ok = "\<lambda>x n. n < length (nodes (w_mesh x))"])
    fix n x x' pushed
    assume "check_task m tol n x = Some (Inr (x', pushed))" "good v2D (w_mesh x)" "n < length (nodes (w_mesh x))"
    note t = check_task_good [OF this]
    show "good v2D (w_mesh x') \<and> keeps (abs_mesh (w_mesh x)) (abs_mesh (w_mesh x')) \<and>
        (\<forall>k. k < length (nodes (w_mesh x)) \<longrightarrow> k < length (nodes (w_mesh x'))) \<and>
        (\<forall>k \<in> set pushed. k < length (nodes (w_mesh x')))"
      using t by simp
  qed (use assms(2,3) keeps_trans in auto)
  then show ?thesis by (simp add: good_after_def)
qed

lemma refine_run_good:
  assumes "run_tasks (refine_body j v2D m) w W tr w' W'" "good v2D (w_mesh w)"
    and "\<forall>n \<in># W. n < length (nodes (w_mesh w))" "\<forall>x \<in> set (butlast (w # tr)). resolved_mesh (w_mesh x)"
  shows "(\<forall>x \<in> set tr. good_after v2D w x) \<and> w' = last (w # tr)"
proof -
  have "(\<forall>x \<in> set tr. good v2D (w_mesh x) \<and> keeps (abs_mesh (w_mesh w)) (abs_mesh (w_mesh x))) \<and> w' = last (w # tr)"
  proof (rule run_tasks_invariant [OF assms(1), where R = "\<lambda>x. resolved_mesh (w_mesh x)"
        and ok = "\<lambda>x n. n < length (nodes (w_mesh x))"])
    fix n x x' pushed
    assume "refine_body j v2D m n x = Some (Inr (x', pushed))" "good v2D (w_mesh x)"
      "resolved_mesh (w_mesh x)" "n < length (nodes (w_mesh x))"
    then show "good v2D (w_mesh x') \<and> keeps (abs_mesh (w_mesh x)) (abs_mesh (w_mesh x')) \<and>
        (\<forall>k. k < length (nodes (w_mesh x)) \<longrightarrow> k < length (nodes (w_mesh x'))) \<and>
        (\<forall>k \<in> set pushed. k < length (nodes (w_mesh x')))"
      using refine_task_good [of j v2D m n x x' pushed] by (simp add: refine_body_def less_le_trans)
  qed (use assms(2-4) keeps_trans in auto)
  then show ?thesis by (simp add: good_after_def)
qed

lemma check_loop_good:
  assumes "check_loop m tol w tr r" "good v2D (w_mesh w)"
  shows "(\<forall>x \<in> set tr. good_after v2D w x) \<and> (\<forall>x. r = Inr x \<longrightarrow> x = last (w # tr))"
proof -
  obtain w' W' where "run_tasks (check_task m tol) w (mset (graph_nodes (w_mesh w))) tr w' W'"
    "r = Inr w' \<or> (\<exists>f. r = Inl f)"
    by (rule for_each_run [OF assms(1) [unfolded check_loop_def]])
  then show ?thesis using check_run_good [OF _ assms(2) handles_valid] by blast
qed

lemma refine_loop_good:
  assumes "refine_loop j v2D m w tr r" "good v2D (w_mesh w)" "\<forall>x \<in> set (w # tr). resolved_mesh (w_mesh x)"
  shows "(\<forall>x \<in> set tr. good_after v2D w x) \<and> (\<forall>x. r = Inr x \<longrightarrow> x = last (w # tr))"
proof -
  have "\<forall>x \<in> set (butlast (w # tr)). resolved_mesh (w_mesh x)" using assms(3) in_set_butlastD by fast
  moreover obtain w' W' where "run_tasks (refine_body j v2D m) w (mset (graph_nodes (w_mesh w))) tr w' W'"
    "r = Inr w' \<or> (\<exists>f. r = Inl f)"
    by (rule for_each_run [OF assms(1) [unfolded refine_loop_def]])
  ultimately show ?thesis using refine_run_good [OF _ assms(2) handles_valid] by blast
qed

lemma last_trace: "x = last (w # tr) \<Longrightarrow> (\<forall>y \<in> set tr. P y) \<Longrightarrow> P w \<Longrightarrow> P x"
  by (metis last.simps last_in_set)

lemma step_loop_good:
  assumes "step_loop cf m j w tr r" "good (version2D cf) (w_mesh w)" "\<forall>x \<in> set (w # tr). resolved_mesh (w_mesh x)"
  shows "(\<forall>x \<in> set tr. good_after (version2D cf) w x) \<and> (\<forall>x. r = Inr x \<longrightarrow> x = last (w # tr))"
  using assms
proof (induction rule: step_loop.induct)
  case (check_fault j w tr f)
  then show ?case using check_loop_good by blast
next
  case (refine_fault j w tr1 w1 tr2 f)
  let ?G = "good_after (version2D cf)"
  have 1: "\<forall>x \<in> set tr1. ?G w x" "w1 = last (w # tr1)"
    using check_loop_good [OF refine_fault(2) refine_fault.prems(1)] by auto
  have w1: "?G w w1" "resolved_mesh (w_mesh w1)"
    using last_trace [OF 1(2) 1(1)] last_trace [OF 1(2), of "\<lambda>x. resolved_mesh (w_mesh x)"] refine_fault.prems
    by (auto simp: good_after_def)
  then have "\<forall>x \<in> set tr2. ?G w1 x"
    using refine_loop_good [OF refine_fault(3)] refine_fault.prems(2) by (auto simp: good_after_def)
  then show ?case using 1(1) w1(1) good_after_trans by auto
next
  case (steps_next j w tr1 w1 tr2 w2 tr3 r)
  let ?G = "good_after (version2D cf)" and ?R = "\<lambda>x. resolved_mesh (w_mesh x)"
  have 1: "\<forall>x \<in> set tr1. ?G w x" "w1 = last (w # tr1)"
    using check_loop_good [OF steps_next(2) steps_next.prems(1)] by auto
  have w1: "?G w w1" "?R w1"
    using last_trace [OF 1(2) 1(1)] last_trace [OF 1(2), of ?R] steps_next.prems by (auto simp: good_after_def)
  have 2: "\<forall>x \<in> set tr2. ?G w1 x" "w2 = last (w1 # tr2)"
    using refine_loop_good [OF steps_next(3)] w1 steps_next.prems(2) by (auto simp: good_after_def)
  have w2: "?G w1 w2" "?R w2"
    using last_trace [OF 2(2) 2(1)] last_trace [OF 2(2), of ?R] w1 steps_next.prems(2) by (auto simp: good_after_def)
  have 3: "(\<forall>x \<in> set tr3. ?G w2 x) \<and> (\<forall>x. r = Inr x \<longrightarrow> x = last (w2 # tr3))"
    using steps_next.IH w2 steps_next.prems(2) by (auto simp: good_after_def)
  have "\<forall>x \<in> set (tr1 @ tr2 @ tr3). ?G w x"
    using 1(1) 2(1) 3 w1(1) w2(1) good_after_trans by (metis (no_types, lifting) set_append Un_iff)
  moreover have "last (w # tr1 @ tr2 @ tr3) = last (w2 # tr3)"
    using 1(2) 2(2) by (cases tr3; cases tr2; cases tr1) (auto simp: last_append)
  ultimately show ?case using 3 by simp
qed simp

section \<open>The initial mesh\<close>

lemma find_Some_in: "find P xs = Some x \<Longrightarrow> x \<in> set xs \<and> P x"
  by (induction xs) (auto split: if_splits)

lemma square_mesh_empty:
  fixes c0 c1 c2 c3 :: coordinates and x1 x2 x3 x4 x5 :: edge_data
  defines "g \<equiv> square_mesh empty_graph c0 c1 c2 c3 x1 x2 x3 x4 x5"
  shows "mesh_ok g" "mesh_triangles g = {#[0, 1, 3], [0, 3, 2]#}" "set (mesh_vertices g) = {0, 1, 2, 3}"
    "set (mesh_interiors g) = {4, 5}" "getNeighbours g 4 = [0, 1, 3]" "getNeighbours g 5 = [0, 3, 2]"
    "map (\<lambda>k. getData g k) [0, 1, 2, 3] = map (\<lambda>c. NodeData_vertex False c False) [c0, c1, c2, c3]"
    "getData g 4 = tri_data (NodeData_vertex False c0 False) (NodeData_vertex False c1 False) (NodeData_vertex False c3 False)"
    "getData g 5 = tri_data (NodeData_vertex False c0 False) (NodeData_vertex False c3 False) (NodeData_vertex False c2 False)"
    "length (nodes g) = 6"
    "edge_val g 0 1 = Some x1" "edge_val g 1 3 = Some x2" "edge_val g 2 3 = Some x3"
    "edge_val g 0 2 = Some x4" "edge_val g 3 0 = Some x5"
    "p < 4 \<Longrightarrow> q < 4 \<Longrightarrow> edge_val g p q = Some d \<Longrightarrow>
      (p, q, d) \<in> set (square_edges 0 x1 x2 x3 x4 x5) \<or> (q, p, d) \<in> set (square_edges 0 x1 x2 x3 x4 x5)"
proof -
  note sq = square_mesh_laws [OF mesh_ok_empty, where ?c0.0 = c0 and ?c1.0 = c1 and ?c2.0 = c2 and ?c3.0 = c3
      and ?x1.0 = x1 and ?x2.0 = x2 and ?x3.0 = x3 and ?x4.0 = x4 and ?x5.0 = x5, folded g_def]
  have N: "length (nodes (empty_graph :: mesh)) = 0" by (simp add: empty_graph_def)
  have e: "mesh_triangles empty_graph = {#}" "mesh_vertices empty_graph = []" "mesh_interiors empty_graph = []"
    by (simp_all add: mesh_triangles_def mesh_vertices_def mesh_interiors_def graph_nodes_def empty_graph_def)
  note ext = sq(1) [unfolded extends_by_square_def Let_def N e]
  show "mesh_ok g" "mesh_triangles g = {#[0, 1, 3], [0, 3, 2]#}" "set (mesh_vertices g) = {0, 1, 2, 3}"
    "set (mesh_interiors g) = {4, 5}" "getNeighbours g 4 = [0, 1, 3]" "getNeighbours g 5 = [0, 3, 2]"
    using ext by (simp_all add: numeral_2_eq_2)
  show "map (\<lambda>k. getData g k) [0, 1, 2, 3] = map (\<lambda>c. NodeData_vertex False c False) [c0, c1, c2, c3]"
    using sq(7) [of 0] sq(7) [of 1] sq(7) [of 2] sq(7) [of 3] by (simp add: N numeral_2_eq_2)
  show "getData g 4 = tri_data (NodeData_vertex False c0 False) (NodeData_vertex False c1 False) (NodeData_vertex False c3 False)"
    "getData g 5 = tri_data (NodeData_vertex False c0 False) (NodeData_vertex False c3 False) (NodeData_vertex False c2 False)"
    "length (nodes g) = 6"
    using sq(10-12) by (simp_all add: N)
  show "edge_val g 0 1 = Some x1" "edge_val g 1 3 = Some x2" "edge_val g 2 3 = Some x3"
    "edge_val g 0 2 = Some x4" "edge_val g 3 0 = Some x5"
    using sq(2-6) by (simp_all add: N numeral_2_eq_2)
  assume "p < 4" "q < 4" "edge_val g p q = Some d"
  then have f: "(case find (\<lambda>(u, v, x). same_pair u v p q) (rev (square_edges 0 x1 x2 x3 x4 x5)) of
      None \<Rightarrow> edge_val (empty_graph :: mesh) p q | Some (u, v, x) \<Rightarrow> Some x) = Some d"
    using sq(9) [of p q] by (simp add: N)
  obtain u v x where "find (\<lambda>(u, v, x). same_pair u v p q) (rev (square_edges 0 x1 x2 x3 x4 x5)) = Some (u, v, x)" "x = d"
    using f edge_val_live [of "empty_graph :: mesh" p q] by (auto simp: live_def N split: option.splits)
  then show "(p, q, d) \<in> set (square_edges 0 x1 x2 x3 x4 x5) \<or> (q, p, d) \<in> set (square_edges 0 x1 x2 x3 x4 x5)"
    by (auto dest!: find_Some_in simp: same_pair_def)
qed

lemma square_good:
  assumes x: "rectangle_edge_data v2D c0 c1 c2 c3 [x1, x2, x3, x4, x5]"
    and pos: "0 < get_area c0 c1 c3" "0 < get_area c0 c3 c2"
  shows "good v2D (square_mesh empty_graph c0 c1 c2 c3 x1 x2 x3 x4 x5)"
proof -
  let ?g = "square_mesh empty_graph c0 c1 c2 c3 x1 x2 x3 x4 x5" and ?E = "square_edges 0 x1 x2 x3 x4 x5"
  let ?A = "abs_mesh ?g"
  note sq = square_mesh_empty [where ?c0.0 = c0 and ?c1.0 = c1 and ?c2.0 = c2 and ?c3.0 = c3
      and ?x1.0 = x1 and ?x2.0 = x2 and ?x3.0 = x3 and ?x4.0 = x4 and ?x5.0 = x5]
  note vs = sq(3) and inv = mesh_store.tri_okD(1) [OF sq(1) [unfolded mesh_ok_iff]]
  have pt: "point ?A 0 = c0" "point ?A 1 = c1" "point ?A 2 = c2" "point ?A 3 = c3"
    using sq(7) vs by (simp_all add: point_def abs_mesh_apply)
  have len: "edge_length d = coord_dist (point ?A p) (point ?A q) v2D" if "(p, q, d) \<in> set ?E" for p q d
    using that x pt by (auto simp: square_edges_def rectangle_edge_data_def numeral_2_eq_2)
  have "(p, q, d) \<in> set ?E \<or> (q, p, d) \<in> set ?E" if "am_edges ?A p q = Some d" for p q d
  proof -
    have "p \<in> set (mesh_vertices ?g)" "q \<in> set (mesh_vertices ?g)" "edge_val ?g p q = Some d"
      using that unfolding abs_mesh_apply by (simp_all split: if_splits)
    then show ?thesis unfolding vs by (intro sq(16)) auto
  qed
  then have "lengths_ok v2D ?A" unfolding lengths_ok_def using len coord_dist_sym by metis
  moreover have "all_positive ?A"
    unfolding all_positive_def am_triangles_abs sq(2) using pos pt by (simp add: tri_area_def numeral_2_eq_2)
  moreover have "side_edge ?A t e \<noteq> None" if "t \<in># {#[0, 1, 3], [0, 3, 2 :: nat]#}" "e < 3" for t e
    using that sq(11-15) vs edge_val_sym [OF inv]
    by (auto simp: less_3_cases side_first_def side_second_def abs_mesh_apply numeral_2_eq_2)
  then have "broken_have_middle ?A" unfolding broken_have_middle_def am_triangles_abs sq(2) by blast
  ultimately show ?thesis using sq(1) abs_mesh_wf by (simp add: good_def good_mesh_def)
qed

lemma good_lengths_nonneg:
  assumes "good v2D g" "state_of g n ps" "ps_version2D ps = v2D"
  shows "lengths_nonneg ps"
  unfolding lengths_nonneg_def
proof (intro allI impI)
  fix e
  assume e: "e < (3 :: nat)" "e \<notin> set (ps_brokenEdges ps)"
  let ?u = "side_first (getNeighbours g n) e" and ?v = "side_second (getNeighbours g n) e"
  note sd = state_ofD [OF assms(2)]
  note ts = triangle_sides [OF sd(1,2) refl e(1)]
  obtain d where d: "edge_val g ?u ?v = Some d" using e brokenEdges_iff [OF assms(2)] by auto
  then have "am_edges (abs_mesh g) ?u ?v = Some d" using ts(4,5) by (simp add: am_edges_abs)
  then have "edge_length d = coord_dist (point (abs_mesh g) ?u) (point (abs_mesh g) ?v) v2D"
    using assms(1) by (simp add: good_def good_mesh_def lengths_ok_def)
  then show "0 \<le> ps_lengths ps ! e" using sd(8) [OF e(1)] d coord_dist_nonneg by simp
qed

lemma try_productions_returns:
  assumes "safe_state g n ps"
  shows "\<exists>g' pushed b. try_productions productions g ps = Inr (g', pushed, b)"
proof (cases "List.find (\<lambda>P. P g ps \<noteq> not_applied g) productions")
  case (Some P)
  then have "P \<in> set productions" by (auto simp: find_Some_iff)
  from productions_return [OF assms this] Some show ?thesis by (auto simp: try_productions_eq)
qed (auto simp: try_productions_eq not_applied_def)

lemma try_productions_applied:
  assumes "P \<in> set productions" "P g ps = Inr (g', pushed, True)"
  shows "try_productions productions g ps = Inr (g', pushed, True)"
proof -
  have ne: "P g ps \<noteq> not_applied g" using assms(2) by (simp add: not_applied_def)
  then obtain Q where Q: "List.find (\<lambda>P. P g ps \<noteq> not_applied g) productions = Some Q"
    using assms(1) by (cases "List.find (\<lambda>P. P g ps \<noteq> not_applied g) productions") (auto simp: find_None_iff)
  then have "Q \<in> set productions" "Q g ps \<noteq> not_applied g" by (auto simp: find_Some_iff)
  then show ?thesis
    using productions_exclusive [OF assms(1), of Q g ps] ne Q assms(2) by (simp add: try_productions_eq)
qed

lemma broken_sides_progress:
  assumes "safe_state g n ps" "2 \<le> length (ps_brokenEdges ps)"
  shows "\<exists>g' pushed. try_productions productions g ps = Inr (g', pushed, True)"
proof -
  have "length (ps_brokenEdges ps) \<le> length [0..<3]"
    unfolding state_ofD(9) [OF safe_stateD(1) [OF assms(1)]] by (rule length_filter_le)
  then consider "length (ps_brokenEdges ps) = 2" | "length (ps_brokenEdges ps) = 3" using assms(2) by fastforce
  then obtain P g' pushed where "P \<in> set productions" "P g ps = Inr (g', pushed, True)"
  proof cases
    case 1
    from P4_P5_True [OF assms(1) 1] that [of P4_execute] that [of P5_execute] show thesis
      by (auto simp: productions_def)
  next
    case 2
    from P6_True_if [OF assms(1) 2] that [of P6_execute] show thesis by (auto simp: productions_def)
  qed
  then show ?thesis using try_productions_applied by blast
qed

end
