(* ===== verification/Writer_Laws.thy ===== *)
theory Writer_Laws
  imports Writer Production_Laws
begin

text \<open>
  The writer on a well-formed graph: it never fails, because the edge it looks up between a node and
  its neighbour is always there.
\<close>

section \<open>The writer returns\<close>

lemma foldR_returns:
  assumes "\<And>x s. x \<in> set xs \<Longrightarrow> \<exists>s'. f x s = Inr s'"
  shows "\<exists>s'. foldR f xs s = Inr s'"
  using assms
proof (induction xs arbitrary: s)
  case (Cons x xs)
  obtain s1 where "f x s = Inr s1" using Cons.prems by auto
  moreover obtain s2 where "foldR f xs s1 = Inr s2" using Cons.IH [of s1] Cons.prems by auto
  ultimately show ?case by simp
qed simp

lemma border_between_eq:
  assumes "mg_inv g" "live g n" "d \<in> set (getNeighbours g n)"
  obtains x where "edge_val g n d = Some x" "border_between g n d = Inr (border x)"
proof -
  obtain x where x: "edge_val g n d = Some x" using getNeighbours_iff [OF assms(1,2)] assms(3) by auto
  then have "edge_at g (n, findEdge g n d) = Inr x" by (auto simp: edge_at_def edge_val_def split: if_splits)
  then show thesis using that [OF x] by (simp add: border_between_def)
qed

lemma out_edge_neighbour: "e \<in> set (out_edges g n) \<Longrightarrow> getEdgeDst g n e \<in> set (getNeighbours g n)"
  by (simp add: getNeighbours_def)

lemma write_node_returns:
  assumes "mg_inv g" "live g n"
  shows "\<exists>w'. write_node g n w = Inr w'"
proof -
  have b: "\<exists>b. border_between g n (getEdgeDst g n e) = Inr b" if "e \<in> set (out_edges g n)" for e
    using border_between_eq [OF assms out_edge_neighbour [OF that]] by blast
  have "\<exists>w'. write_vertex_edge g n i e w = Inr w'" "\<exists>w'. write_interior_edge g n i e w = Inr w'"
    if "e \<in> set (out_edges g n)" for e i w
    using b [OF that] by (auto simp: write_vertex_edge_def write_interior_edge_def Let_def case_prod_beta)
  then show ?thesis
    unfolding write_node_def Let_def case_prod_beta by (auto intro!: foldR_returns)
qed

lemma writeToFile_Inr:
  assumes "mg_inv g"
  shows "\<exists>ls. writeToFile g = Inr ls"
proof -
  have "\<exists>w'. foldR (write_node g) (graph_nodes g) writer_init = Inr w'"
    by (rule foldR_returns) (simp add: write_node_returns [OF assms])
  then show ?thesis by (auto simp: writeToFile_def)
qed

end
