(* ===== verification/Mesh_Example.thy ===== *)
theory Mesh_Example
  imports Mesh_Main Writer_Laws
begin

text \<open>
  Small concrete meshes on which the properties are tried out: the unit square of the sample
  generator with one triangle marked for refinement, and single triangles with given points on their
  sides. The meshes are built with the operations of the program.
\<close>

section \<open>One triangle\<close>

fun add_vertices :: "mesh \<Rightarrow> coordinates list \<Rightarrow> mesh" where
  "add_vertices g [] = g"
| "add_vertices g (c # cs) = add_vertices (fst (createVertex g c)) cs"

lemma add_vertices_laws:
  assumes "mesh_store.tri_ok g"
  shows "mesh_store.tri_ok (add_vertices g cs) \<and>
    mesh_store.triangles (add_vertices g cs) = mesh_store.triangles g \<and>
    mesh_store.interiors (add_vertices g cs) = mesh_store.interiors g \<and>
    length (nodes (add_vertices g cs)) = length (nodes g) + length cs \<and>
    (\<forall>v. is_vertex (add_vertices g cs) v \<longleftrightarrow>
       is_vertex g v \<or> length (nodes g) \<le> v \<and> v < length (nodes g) + length cs) \<and>
    (\<forall>v < length (nodes g). getData (add_vertices g cs) v = getData g v) \<and>
    (\<forall>k < length cs. getData (add_vertices g cs) (length (nodes g) + k) = NodeData_vertex False (cs ! k) False) \<and>
    edge_val (add_vertices g cs) = edge_val g"
  using assms
proof (induction cs arbitrary: g)
  case (Cons c cs)
  let ?h = "fst (createVertex g c)"
  note v = createVertex_laws [OF Cons.prems, where c = c]
  note ih = Cons.IH [OF v(2)]
  have "getData (add_vertices ?h cs) (length (nodes g) + k) = NodeData_vertex False ((c # cs) ! k) False"
    if "k < length (c # cs)" for k
    using ih v(5) v(7) that by (cases k) auto
  moreover have "is_vertex (add_vertices ?h cs) x \<longleftrightarrow>
      is_vertex g x \<or> length (nodes g) \<le> x \<and> x < length (nodes g) + length (c # cs)" for x
    using ih v(5,6) by auto
  moreover have "edge_val (add_vertices ?h cs) = edge_val g" using ih v(8) by (simp add: fun_eq_iff)
  ultimately show ?case using ih v(3,4,5,7) by simp
qed auto

definition one_triangle :: "coordinates list \<Rightarrow> (nat \<times> nat \<times> edge_data) list \<Rightarrow> mesh" where
  "one_triangle cs es = fst (createInterior (put_edges (add_vertices empty_graph cs) es) 0 1 2)"

lemma one_triangle_laws:
  assumes "3 \<le> length cs" "\<forall>(u, v, x) \<in> set es. u < length cs \<and> v < length cs \<and> u \<noteq> v"
  defines "g \<equiv> one_triangle cs es"
  shows "mesh_ok g" "set (mesh_interiors g) = {length cs}" "getNeighbours g (length cs) = [0, 1, 2]"
    "v < length cs \<Longrightarrow> getData g v = NodeData_vertex False (cs ! v) False"
    "p < length cs \<Longrightarrow> q < length cs \<Longrightarrow> edge_val g p q =
      (case find (\<lambda>(u, v, x). same_pair u v p q) (rev es) of None \<Rightarrow> None | Some (u, v, x) \<Rightarrow> Some x)"
    "v < length cs \<Longrightarrow> live g v"
proof -
  let ?e = "empty_graph :: mesh" and ?h = "put_edges (add_vertices empty_graph cs) es"
  have tri: "mesh_store.tri_ok ?e" using mesh_ok_empty by (simp add: mesh_ok_iff)
  have N: "length (nodes ?e) = 0" by (simp add: empty_graph_def)
  note a = add_vertices_laws [OF tri, of cs, unfolded N add_0]
  have vx: "is_vertex (add_vertices ?e cs) v" if "v < length cs" for v using a that by simp
  have vp: "vertex_pairs (add_vertices ?e cs) es" using assms(2) vx by (auto simp: vertex_pairs_def)
  have triA: "mesh_store.tri_ok (add_vertices ?e cs)" using a by blast
  note e = put_edges_laws [OF triA vp] and ev = put_edges_val [OF triA vp]
  have len: "length (nodes ?h) = length cs" using a e by simp
  have vxh: "is_vertex ?h v" if "v < length cs" for v using e vx [OF that] by simp
  have triH: "mesh_store.tri_ok ?h" using e by blast
  have vx3: "is_vertex ?h 0" "is_vertex ?h 1" "is_vertex ?h 2" using assms(1) by (auto intro: vxh)
  note t = new_triangle_laws [OF triH vx3, folded one_triangle_def g_def, unfolded len]
  have d3: "distinct [0 :: nat, 1, 2]" by simp
  note t = t [OF d3]
  show "mesh_ok g" using t(1) by (simp add: mesh_ok_iff)
  have "mesh_store.interiors ?e = {}" by (simp add: mesh_store.interiors_def live_def N)
  then show "set (mesh_interiors g) = {length cs}" using t(3) a e by (simp add: set_mesh_interiors)
  show "getNeighbours g (length cs) = [0, 1, 2]" by (rule t(8))
  show "getData g v = NodeData_vertex False (cs ! v) False" if "v < length cs" for v
    using t(6) [OF that] a e that by simp
  show "edge_val g p q =
      (case find (\<lambda>(u, v, x). same_pair u v p q) (rev es) of None \<Rightarrow> None | Some (u, v, x) \<Rightarrow> Some x)"
    if "p < length cs" "q < length cs" for p q
  proof -
    have "edge_val ?e p q = None"
      using edge_val_live [of ?e p q] by (cases "edge_val ?e p q") (auto simp: live_def N)
    moreover have "edge_val (add_vertices ?e cs) p q = edge_val ?e p q" using a by metis
    ultimately show ?thesis using t(7) [OF that] ev [of p q] by (auto split: option.splits)
  qed
  show "live g v" if "v < length cs" for v
    using vxh [OF that] unfolding t(4) [symmetric] by (simp add: mesh_store.vertex_def)
qed

text \<open>A production state exists for every interior of a well-formed mesh.\<close>

definition state_at :: "mesh \<Rightarrow> nat \<Rightarrow> bool \<Rightarrow> (real \<Rightarrow> real \<Rightarrow> real res) \<Rightarrow> production_state" where
  "state_at g n v2D z = (case ProductionState g n v2D z of Inr ps \<Rightarrow> ps | Inl _ \<Rightarrow> undefined)"

lemma state_at:
  assumes "mesh_ok g" "n \<in> set (mesh_interiors g)"
  shows "state_of g n (state_at g n v2D z)" "ps_version2D (state_at g n v2D z) = v2D"
    "ps_zGetter (state_at g n v2D z) = z" "ProductionState g n v2D z = Inr (state_at g n v2D z)"
proof -
  have "\<exists>ps. ProductionState g n v2D z = Inr ps"
    by (rule ProductionState_ok [OF assms, of v2D z]) simp
  then obtain ps where ps: "ProductionState g n v2D z = Inr ps" ..
  moreover have "ps_version2D ps = v2D" "ps_zGetter ps = z"
    using ps by (auto simp: ProductionState_def bindR_Inr_iff Let_def)
  ultimately show "state_of g n (state_at g n v2D z)" "ps_version2D (state_at g n v2D z) = v2D"
    "ps_zGetter (state_at g n v2D z) = z" "ProductionState g n v2D z = Inr (state_at g n v2D z)"
    using assms by (simp_all add: state_of_def state_at_def)
qed

definition sea_level :: "real \<Rightarrow> real \<Rightarrow> real res" where
  "sea_level x y = Inr 0"

lemma heights_sea_level [simp]: "heights_total sea_level"
  by (simp add: heights_total_def sea_level_def)

lemma findNodeBetween_exists:
  assumes "mg_inv g" "live g u" "live g v" "edge_val g u h \<noteq> None" "edge_val g v h \<noteq> None"
    and "isXYequal (coords (getData g h)) (coord_div (coord_add (coords (getData g u)) (coords (getData g v))) 2)"
  shows "findNodeBetween g u v \<noteq> None"
proof -
  have "h \<in> set (getNeighbours g u)" "h \<in> set (getNeighbours g v)"
    using getNeighbours_iff [OF assms(1)] assms(2-5) by blast+
  then show ?thesis
    using assms(6) unfolding findNodeBetween_def Let_def find_None_iff by (auto simp: list_ex_iff)
qed

subsection \<open>Two broken sides\<close>

definition plain_edge :: "real \<Rightarrow> edge_data" where
  "plain_edge l = EdgeData_new False l Coord_default"

definition two_broken_points :: "coordinates list" where
  "two_broken_points = [Coord 0 0 0, Coord 8 0 0, Coord 0 6 0, Coord 4 0 0, Coord 4 3 0]"

definition two_broken_edges :: "(nat \<times> nat \<times> edge_data) list" where
  "two_broken_edges =
     [(0, 3, plain_edge 4), (3, 1, plain_edge 4), (1, 4, plain_edge 5), (4, 2, plain_edge 5), (2, 0, plain_edge 6)]"

definition two_broken :: mesh where
  "two_broken = one_triangle two_broken_points two_broken_edges"

lemma two_broken_laws:
  shows "mesh_ok two_broken" "set (mesh_interiors two_broken) = {5}" "getNeighbours two_broken 5 = [0, 1, 2]"
    "v < 5 \<Longrightarrow> getData two_broken v = NodeData_vertex False (two_broken_points ! v) False"
    "p < 5 \<Longrightarrow> q < 5 \<Longrightarrow> edge_val two_broken p q =
      (case find (\<lambda>(u, v, x). same_pair u v p q) (rev two_broken_edges) of
         None \<Rightarrow> None | Some (u, v, x) \<Rightarrow> Some x)"
    "v < 5 \<Longrightarrow> live two_broken v"
proof -
  have len: "length two_broken_points = 5" by (simp add: two_broken_points_def)
  have "3 \<le> length two_broken_points" by (simp add: len)
  moreover have "\<forall>(u, v, x) \<in> set two_broken_edges. u < length two_broken_points \<and> v < length two_broken_points \<and> u \<noteq> v"
    by (simp add: len two_broken_edges_def)
  note l = one_triangle_laws [OF calculation this, folded two_broken_def, unfolded len]
  show "mesh_ok two_broken" "set (mesh_interiors two_broken) = {5}" "getNeighbours two_broken 5 = [0, 1, 2]"
    "v < 5 \<Longrightarrow> getData two_broken v = NodeData_vertex False (two_broken_points ! v) False"
    "p < 5 \<Longrightarrow> q < 5 \<Longrightarrow> edge_val two_broken p q =
      (case find (\<lambda>(u, v, x). same_pair u v p q) (rev two_broken_edges) of
         None \<Rightarrow> None | Some (u, v, x) \<Rightarrow> Some x)"
    "v < 5 \<Longrightarrow> live two_broken v"
    by (rule l; assumption)+
qed

lemma two_broken_safe:
  defines "ps \<equiv> state_at two_broken 5 True sea_level"
  shows "safe_state two_broken 5 ps" "ps_brokenEdges ps = [0, 1]"
proof -
  note l = two_broken_laws
  have st: "state_of two_broken 5 ps" and z: "ps_zGetter ps = sea_level"
    using state_at [OF l(1)] by (simp_all add: l(2) ps_def)
  note sd = state_ofD [OF st, unfolded l(3)]
  have ev: "edge_val two_broken 0 1 = None" "edge_val two_broken 1 2 = None"
    "edge_val two_broken 2 0 = Some (plain_edge 6)" "edge_val two_broken 0 3 \<noteq> None"
    "edge_val two_broken 1 3 \<noteq> None" "edge_val two_broken 1 4 \<noteq> None" "edge_val two_broken 2 4 \<noteq> None"
    by (simp_all add: l(5) two_broken_edges_def same_pair_def)
  show br: "ps_brokenEdges ps = [0, 1]"
    unfolding sd(9) using ev by (simp add: upt_3 side_first_def side_second_def numeral_2_eq_2)
  have inv: "mg_inv two_broken" using l(1) by (simp add: mesh_ok_def)
  have "findNodeBetween two_broken 0 1 \<noteq> None"
    by (rule findNodeBetween_exists [OF inv, where h = 3])
      (use ev l(6) in \<open>simp_all add: l(4) two_broken_points_def isXYequal_def coord_div_def coord_add_def eps_defs eval_nat_numeral\<close>)
  moreover have "findNodeBetween two_broken 1 2 \<noteq> None"
    by (rule findNodeBetween_exists [OF inv, where h = 4])
      (use ev l(6) in \<open>simp_all add: l(4) two_broken_points_def isXYequal_def coord_div_def coord_add_def eps_defs eval_nat_numeral\<close>)
  ultimately have "hanging_found two_broken [0, 1, 2]"
    unfolding hanging_found_def all_less_3 using ev by (simp add: side_first_def side_second_def numeral_2_eq_2)
  moreover have "lengths_nonneg ps"
    unfolding lengths_nonneg_def all_less_3 br
    using ev sd(8) [of 2] by (simp add: side_first_def side_second_def plain_edge_def EdgeData_new_def)
  ultimately show "safe_state two_broken 5 ps" using st z by (simp add: safe_state_def l(3))
qed

section \<open>The marked square\<close>

definition marked_square :: mesh where
  "marked_square = updData (sample_square empty_graph) 4 (setToRefine True)"

text \<open>It is what the sample generator and the condition that always holds give.\<close>

lemma marked_square_eq:
  "\<exists>g. generateSampleGraph empty_graph = Inr g \<and> Dummy_execute g 4 = (marked_square, True)"
proof -
  note sq = square_mesh_empty [where ?c0.0 = "Coord 0 0 0" and ?c1.0 = "Coord 0 1 0" and ?c2.0 = "Coord 1 0 0"
      and ?c3.0 = "Coord 1 1 0"]
  have "hyperEdge (getData (sample_square empty_graph) 4)"
    unfolding sample_square_def sq(8) by (simp add: tri_data_def)
  then show ?thesis using generateSampleGraph_eq [OF mesh_ok_empty] by (simp add: Dummy_execute_def marked_square_def)
qed

lemma sample_edges:
  "rectangle_edge_data v2D (Coord 0 0 0) (Coord 0 1 0) (Coord 1 0 0) (Coord 1 1 0)
     [EdgeData_new True 1 (Coord 0 (1 / 2) 0), EdgeData_new True 1 (Coord (1 / 2) 1 0),
      EdgeData_new True 1 (Coord 1 (1 / 2) 0), EdgeData_new True 1 (Coord (1 / 2) 0 0),
      EdgeData_new False (sqrt 2) (Coord (1 / 2) (1 / 2) 0)]"
  by (simp add: rectangle_edge_data_def EdgeData_new_def coord_dist_def dist2D_def dist3D_def)

lemma sample_good: "good v2D (sample_square empty_graph)"
  unfolding sample_square_def by (rule square_good [OF sample_edges]) (simp_all add: get_area_def)

lemma sample_laws:
  defines "g \<equiv> sample_square empty_graph"
  shows "mesh_ok g" "set (mesh_interiors g) = {4, 5}" "set (mesh_vertices g) = {0, 1, 2, 3}"
    "getNeighbours g 4 = [0, 1, 3]" "getNeighbours g 5 = [0, 3, 2]" "length (nodes g) = 6"
    "map (getData g) [0, 1, 2, 3] = map (\<lambda>c. NodeData_vertex False c False)
       [Coord 0 0 0, Coord 0 1 0, Coord 1 0 0, Coord 1 1 0]"
    "coords (getData g 4) = Coord (1 / 3) (2 / 3) 0" "coords (getData g 5) = Coord (2 / 3) (1 / 3) 0"
    "edge_val g 0 1 = Some (EdgeData_new True 1 (Coord 0 (1 / 2) 0))"
    "edge_val g 1 3 = Some (EdgeData_new True 1 (Coord (1 / 2) 1 0))"
    "edge_val g 3 0 = Some (EdgeData_new False (sqrt 2) (Coord (1 / 2) (1 / 2) 0))"
  unfolding g_def sample_square_def
  by (rule square_mesh_empty | simp add: square_mesh_empty(8,9) tri_data_def coord_div_def coord_add_def; fail)+

lemma marked_laws:
  shows "good v2D marked_square" "set (mesh_interiors marked_square) = {4, 5}"
    "getNeighbours marked_square 4 = [0, 1, 3]" "length (nodes marked_square) = 6"
    "getData marked_square v = (if v = 4 then setToRefine True (getData (sample_square empty_graph) 4)
       else getData (sample_square empty_graph) v)"
    "edge_val marked_square p q = edge_val (sample_square empty_graph) p q"
    "set (graph_nodes marked_square) = {0, 1, 2, 3, 4, 5}"
proof -
  let ?g = "sample_square empty_graph"
  have l: "live ?g 4" using sample_laws(2) by (auto simp: mesh_interiors_def)
  note f = updData_flag [OF l sample_laws(1), of True, folded marked_square_def]
  have inv: "mg_inv ?g" using sample_laws(1) by (simp add: mesh_ok_def)
  note u = updData_laws [OF inv l, where f = "setToRefine True", folded marked_square_def]
  show "good v2D marked_square" using f sample_good by (simp add: good_def)
  show "length (nodes marked_square) = 6" using f(3) sample_laws(6) by simp
  show "getNeighbours marked_square 4 = [0, 1, 3]" using u(6) [OF l] sample_laws(4) by simp
  show d: "getData marked_square v = (if v = 4 then setToRefine True (getData ?g 4) else getData ?g v)" for v
    by (rule u(4))
  show "edge_val marked_square p q = edge_val ?g p q" by (rule u(5))
  have "set (graph_nodes marked_square) = set (graph_nodes ?g)" using u(3) by simp
  then show "set (graph_nodes marked_square) = {0, 1, 2, 3, 4, 5}"
    using sample_laws(2,3) graph_nodes_split [of ?g] by auto
  have "hyperEdge (getData marked_square v) = hyperEdge (getData ?g v)" for v using d [of v] by simp
  then have "set (mesh_interiors marked_square) = set (mesh_interiors ?g)"
    using u(3) by (simp add: mesh_interiors_def)
  then show "set (mesh_interiors marked_square) = {4, 5}" using sample_laws(2) by simp
qed

lemma marked_resolved: "resolved_mesh marked_square"
proof -
  have c: "coords (getData marked_square 0) = Coord 0 0 0" "coords (getData marked_square 1) = Coord 0 1 0"
    "coords (getData marked_square 2) = Coord 1 0 0" "coords (getData marked_square 3) = Coord 1 1 0"
    "coords (getData marked_square 4) = Coord (1 / 3) (2 / 3) 0" "coords (getData marked_square 5) = Coord (2 / 3) (1 / 3) 0"
    using sample_laws(7-9) by (simp_all add: marked_laws(5))
  show ?thesis
    unfolding resolved_mesh_def marked_laws(7) by (simp add: c c(2) [simplified] isXYequal_def eps_defs)
qed

lemma marked_P1:
  assumes "heights_total z"
  shows "\<exists>g' pushed. P1_execute marked_square (state_at marked_square 4 v2D z) = Inr (g', pushed, True)"
proof -
  let ?ps = "state_at marked_square 4 v2D z"
  have ok: "mesh_ok marked_square" using marked_laws(1) by (simp add: good_def)
  have n: "4 \<in> set (mesh_interiors marked_square)" by (simp add: marked_laws(2))
  note st = state_at(1) [OF ok n, of v2D z] and zg = state_at(3) [OF ok n, of v2D z]
  note sd = state_ofD [OF st, unfolded marked_laws(3)]
  have ev: "edge_val marked_square (side_first [0, 1, 3] e) (side_second [0, 1, 3] e) = Some ([EdgeData_new True 1 (Coord 0 (1 / 2) 0),
      EdgeData_new True 1 (Coord (1 / 2) 1 0), EdgeData_new False (sqrt 2) (Coord (1 / 2) (1 / 2) 0)] ! e)" if "e < 3" for e
    using that sample_laws(10-12) by (auto simp: less_3_cases side_first_def side_second_def marked_laws(6))
  have br: "ps_brokenEdges ?ps = []" unfolding sd(9) using ev by (simp add: filter_empty_conv)
  then have "\<not> hasBrokenEdge (ps_edgesIterators ?ps)" using sd(10) by (simp add: hasBrokenEdge_def)
  then have app: "P1_checkApplicabilityCondition (getData marked_square (ps_interior ?ps)) (ps_edgesIterators ?ps)"
    using sd(3) by (simp add: P1_checkApplicabilityCondition_def marked_laws(5))
  have len: "ps_lengths ?ps ! 0 = 1" "ps_lengths ?ps ! 1 = 1" "ps_lengths ?ps ! 2 = sqrt 2"
    using sd(8) [of 0] sd(8) [of 1] sd(8) [of 2] ev [of 0] ev [of 1] ev [of 2] by (simp_all add: EdgeData_new_def)
  have "(14 / 10 :: real) < sqrt 2" by (rule real_less_rsqrt) (simp add: power2_eq_square)
  then have L: "getLongestEdges ?ps = [2]"
    using len by (simp add: getLongestEdges_def upt_3 eps_defs numeral_2_eq_2)
  have "neither_hanging ?ps 2"
    using sd(5) [of 2] sd(5) [of 0] sample_laws(7)
    by (simp add: neither_hanging_def getEdgeVertices_def marked_laws(5))
  then have "P1_getEdgeToBreak ?ps = Inr 2"
    using sd(6) [of 2] ev [of 2] by (simp add: P1_getEdgeToBreak_def L get_opt_def)
  moreover obtain g' pushed where "breakElementWithoutHangingNode marked_square 2 ?ps = Inr (g', pushed)"
    using new_node_break_returns [OF st, where e = 2] br zg assms by auto
  ultimately show ?thesis using app by (simp add: P1_execute_def applied_def)
qed

text \<open>The program state with the marked square, and the task of its marked triangle.\<close>

definition marked_world :: world where
  "marked_world = \<lparr>w_mesh = marked_square, w_utm = utm_init, w_files = (\<lambda>_. None)\<rparr>"

lemma marked_task:
  "\<exists>w'. refine_task j v2D (flat_map h) 4 marked_world = Inr (w', [6, 7, 8])"
proof -
  let ?z = "zGetter utm_init (flat_map h)" and ?g = marked_square
  let ?ps = "state_at ?g 4 v2D ?z"
  have ok: "mesh_ok ?g" using marked_laws(1) by (simp add: good_def)
  have n: "4 \<in> set (mesh_interiors ?g)" by (simp add: marked_laws(2))
  note st = state_at [OF ok n, of v2D ?z]
  have "heights_total ?z" by (simp add: heights_total_def zGetter_flat_map)
  then obtain g' pushed where P1: "P1_execute ?g ?ps = Inr (g', pushed, True)" using marked_P1 by blast
  have P1_in: "P1_execute \<in> set productions" by (simp add: productions_def)
  have "P1_execute \<in> set new_node_productions" by (simp add: new_node_productions_def)
  from new_node_True [OF this P1] obtain e where e: "e < 3" "breakElementWithoutHangingNode ?g e ?ps = Inr (g', pushed)" .
  have p: "pushed = [6, 7, 8]"
    by (rule new_node_split_at [OF st(1) e]) (simp add: marked_laws(4))
  have "good v2D g'" using production_good [OF marked_laws(1) marked_resolved st(1,2) P1_in P1] by blast
  then have "mg_inv g'" by (simp add: good_def mesh_ok_def)
  then obtain ls where "writeToFile g' = Inr ls" using writeToFile_Inr by blast
  moreover have "try_productions productions ?g ?ps = Inr (g', pushed, True)"
    using P1 by (simp add: productions_def)
  moreover have "basicCondition ?g 4" using n by (simp add: basicCondition_iff marked_laws(4))
  ultimately show ?thesis
    using st(4) p by (simp add: refine_task_def marked_world_def afterStep_def)
qed

lemma marked_hanging_found: "hanging_found marked_square (getNeighbours marked_square 4)"
  unfolding hanging_found_def marked_laws(3) all_less_3
  using sample_laws(10-12) by (simp add: side_first_def side_second_def marked_laws(6) numeral_2_eq_2)

end
