(* ===== verification/Check_Loop.thy ===== *)
theory Check_Loop
  imports Mesh_Example
begin

text \<open>
  The loop that checks the refinement condition runs its tasks in any order. The answer for a node
  depends on the coordinates of its vertices and on the map only, and a task changes only the flag of
  its own node; so every run of the loop ends with the mesh that checking the nodes one after the other
  gives.
\<close>

section \<open>The answer for one node\<close>

definition violates :: "(real \<Rightarrow> real \<Rightarrow> real) \<Rightarrow> tmap \<Rightarrow> real \<Rightarrow> coordinates list \<Rightarrow> bool" where
  "violates f m tol vs \<longleftrightarrow>
     (\<exists>i \<in> grid_x (sampling_step m) vs. \<exists>j \<in> grid_y (sampling_step m) vs. sample_violates f tol vs i j)"

definition mark :: "(real \<Rightarrow> real \<Rightarrow> real) \<Rightarrow> tmap \<Rightarrow> real \<Rightarrow> mesh \<Rightarrow> nat \<Rightarrow> mesh \<Rightarrow> mesh" where
  "mark f m tol g n h =
     (if basicCondition g n \<and> violates f m tol (getVerticesCoords g n) then updData h n (setToRefine True) else h)"

text \<open>Marking all nodes in the order of the graph.\<close>

definition mark_all :: "(real \<Rightarrow> real \<Rightarrow> real) \<Rightarrow> tmap \<Rightarrow> real \<Rightarrow> mesh \<Rightarrow> mesh" where
  "mark_all f m tol g = fold (mark f m tol g) (graph_nodes g) g"

text \<open>Meshes that differ in the flags only.\<close>

definition same_but_flags :: "mesh \<Rightarrow> mesh \<Rightarrow> bool" where
  "same_but_flags g h \<longleftrightarrow> mesh_ok h \<and> length (nodes h) = length (nodes g) \<and>
     (\<forall>n. live h n = live g n \<and> (live g n \<longrightarrow> getNeighbours h n = getNeighbours g n) \<and>
        coords (getData h n) = coords (getData g n) \<and> hyperEdge (getData h n) = hyperEdge (getData g n))"

lemma same_but_flags_upd:
  assumes "same_but_flags g h" "live g n"
  shows "same_but_flags g (updData h n (setToRefine b))"
proof -
  have l: "live h n" and ok: "mesh_ok h" using assms by (simp_all add: same_but_flags_def)
  have inv: "mg_inv h" using ok by (simp add: mesh_ok_def)
  note u = updData_laws [OF inv l, where f = "setToRefine b"] and f = updData_flag [OF l ok, of b]
  show ?thesis
    unfolding same_but_flags_def
  proof (intro conjI allI impI)
    fix k
    show "coords (getData (updData h n (setToRefine b)) k) = coords (getData g k)"
      "hyperEdge (getData (updData h n (setToRefine b)) k) = hyperEdge (getData g k)"
      using u(4) [of k] assms(1) by (simp_all add: same_but_flags_def)
    show "live (updData h n (setToRefine b)) k = live g k" using u(3) [of k] assms(1) by (simp add: same_but_flags_def)
    show "getNeighbours (updData h n (setToRefine b)) k = getNeighbours g k" if "live g k"
      using u(6) [of k] that assms(1) by (simp add: same_but_flags_def)
  qed (use f u(2) assms(1) in \<open>simp_all add: same_but_flags_def\<close>)
qed

lemma same_but_flags_queries:
  assumes "same_but_flags g h" "mesh_ok g" "n < length (nodes g)"
  shows "basicCondition h n = basicCondition g n"
    and "basicCondition g n \<Longrightarrow> getVerticesCoords h n = getVerticesCoords g n"
    and "basicCondition g n \<Longrightarrow> length (getVerticesCoords h n) = 3"
proof -
  have live: "live h k = live g k" "hyperEdge (getData h k) = hyperEdge (getData g k)"
    "coords (getData h k) = coords (getData g k)" "live g k \<Longrightarrow> getNeighbours h k = getNeighbours g k" for k
    using assms(1) by (simp_all add: same_but_flags_def)
  show b: "basicCondition h n = basicCondition g n"
    using live(1) [of n] live(2) [of n] assms(1,3) by (simp add: basicCondition_def containsNode_def live_def same_but_flags_def)
  assume bc: "basicCondition g n"
  then have l: "live g n" using assms(3) by (simp add: basicCondition_def containsNode_def live_def)
  show eq: "getVerticesCoords h n = getVerticesCoords g n"
    by (simp add: getVerticesCoords_def live(3) live(4) [OF l])
  show "length (getVerticesCoords h n) = 3"
    using assms(2) bc basicCondition_iff [OF assms(3)] unfolding eq by (simp add: getVerticesCoords_def mesh_ok_def)
qed

section \<open>Tasks and runs\<close>

lemma check_task_value:
  assumes "utm_ok st" "0 < sampling_step m" "\<And>x y. zGetter st m x y = Inr (f x y)"
    and "same_but_flags g (w_mesh w)" "mesh_ok g" "n < length (nodes g)" "w_utm w = st\<lparr>UTM_tm := t\<rparr>"
  shows "\<exists>t'. check_task m tol n w =
    Some (Inr (w\<lparr>w_utm := st\<lparr>UTM_tm := t'\<rparr>, w_mesh := mark f m tol g n (w_mesh w)\<rparr>, []))"
proof -
  note q = same_but_flags_queries [OF assms(4-6)]
  let ?vs = "getVerticesCoords g n"
  obtain t' where c: "inside_condition (st\<lparr>UTM_tm := t\<rparr>) m tol ?vs =
      Some (Inr (st\<lparr>UTM_tm := t'\<rparr>, violates f m tol ?vs))"
    using inside_condition_value [where f = f and t = t and vs = ?vs and tol = tol, OF assms(1,2)] assms(3)
    unfolding violates_def by blast
  show ?thesis
  proof (cases "basicCondition g n")
    case True
    then have "hyperEdge (getData (w_mesh w) n)" using q(1) by (simp add: basicCondition_def)
    then show ?thesis
      using True q c by (intro exI [of _ t'])
        (simp add: check_task_def Terrain_execute_def Let_def assms(7) mark_def)
  next
    case False
    then show ?thesis
      using q(1) assms(7) by (intro exI [of _ t]) (simp add: check_task_def mark_def assms(7) [symmetric])
  qed
qed

lemma same_but_flags_mark:
  assumes "same_but_flags g h" "n < length (nodes g)"
  shows "same_but_flags g (mark f m tol g n h)"
  using assms same_but_flags_upd [OF assms(1), of n True]
  by (auto simp: mark_def basicCondition_def containsNode_def live_def)

lemma check_run_marks:
  assumes run: "run_tasks (check_task m tol) w W tr w' W'"
    and st: "utm_ok st" "0 < sampling_step m" "\<And>x y. zGetter st m x y = Inr (f x y)" and g: "mesh_ok g"
    and "same_but_flags g (w_mesh w)" "\<forall>n \<in># W. n < length (nodes g)" "w_utm w = st\<lparr>UTM_tm := t\<rparr>"
  shows "\<exists>ns t'. W = mset ns + W' \<and> w_mesh w' = fold (mark f m tol g) ns (w_mesh w) \<and>
    same_but_flags g (w_mesh w') \<and> w_utm w' = st\<lparr>UTM_tm := t'\<rparr>"
  using run assms(6-8)
proof (induction arbitrary: t rule: run_tasks.induct)
  case (run_task n W s s' pushed tr s'' W'')
  have n: "n < length (nodes g)" using run_task.hyps(1) run_task.prems(2) by blast
  obtain t1 where "s' = s\<lparr>w_utm := st\<lparr>UTM_tm := t1\<rparr>, w_mesh := mark f m tol g n (w_mesh s)\<rparr>" "pushed = []"
    using check_task_value [where tol = tol, OF st run_task.prems(1) g n run_task.prems(3)] run_task.hyps(2) by auto
  moreover from this have "same_but_flags g (w_mesh s')" "\<forall>k \<in># W - {#n#} + mset pushed. k < length (nodes g)"
    using same_but_flags_mark [OF run_task.prems(1) n] run_task.prems(2) by (auto dest: in_diffD)
  ultimately obtain ns t' where ns: "W - {#n#} = mset ns + W''" "w_mesh s'' = fold (mark f m tol g) ns (w_mesh s')"
    "same_but_flags g (w_mesh s'')" "w_utm s'' = st\<lparr>UTM_tm := t'\<rparr>" "w_mesh s' = mark f m tol g n (w_mesh s)"
    using run_task.IH [of t1] by auto
  then have "W = mset (n # ns) + W''" using insert_DiffM [OF run_task.hyps(1)] by simp
  then show ?case using ns by (intro exI [of _ "n # ns"] exI [of _ t']) simp
qed (auto intro!: exI [of _ "[]"])

lemma updData_commute:
  assumes "n < length (nodes g)" "k < length (nodes g)"
  shows "updData (updData g n f) k f = updData (updData g k f) n f"
  using assms by (cases "n = k") (auto simp: updData_def set_node_def node_def list_update_swap)

lemma nodes_mark [simp]: "length (nodes (mark f m tol g n h)) = length (nodes h)"
  by (simp add: mark_def updData_def set_node_def)

text \<open>The order of the nodes does not matter.\<close>

lemma mark_commute:
  assumes "n < length (nodes h)" "k < length (nodes h)"
  shows "mark f m tol g n (mark f m tol g k h) = mark f m tol g k (mark f m tol g n h)"
  using assms by (simp add: mark_def updData_commute)

lemma fold_mark_perm:
  assumes "mset ns = mset ks" "\<forall>n \<in> set ns. n < length (nodes h)"
  shows "fold (mark f m tol g) ns h = fold (mark f m tol g) ks h"
  using assms
proof (induction ns arbitrary: ks h)
  case (Cons n ns)
  have "n \<in> set ks" using Cons.prems(1) by (metis list.set_intros(1) set_mset_mset)
  then obtain xs ys where ks: "ks = xs @ n # ys" by (meson split_list)
  have move: "fold (mark f m tol g) (xs @ [n]) h = fold (mark f m tol g) (n # xs) h"
    if "\<forall>x \<in> set (n # xs). x < length (nodes h)" for h
    using that
  proof (induction xs arbitrary: h)
    case (Cons x xs)
    then show ?case using mark_commute [of n h x f m tol g] by simp
  qed simp
  have "mset ns = mset (xs @ ys)" using Cons.prems(1) by (simp add: ks)
  then have "fold (mark f m tol g) ns (mark f m tol g n h) = fold (mark f m tol g) (xs @ ys) (mark f m tol g n h)"
    using Cons.prems(2) by (intro Cons.IH) simp_all
  moreover have "\<forall>x \<in> set (n # xs). x < length (nodes h)"
    using Cons.prems mset_eq_setD [OF Cons.prems(1)] by (auto simp: ks)
  ultimately show ?case using move [of h] by (simp add: ks)
qed simp

lemma check_loop_marks:
  assumes "check_loop m tol w tr r" "mesh_ok (w_mesh w)" "utm_ok (w_utm w)" "0 < sampling_step m"
    and "\<And>x y. zGetter (w_utm w) m x y = Inr (f x y)"
  shows "\<exists>w'. r = Inr w' \<and> w_mesh w' = mark_all f m tol (w_mesh w)"
proof -
  let ?g = "w_mesh w" and ?st = "w_utm w"
  have same: "same_but_flags ?g ?g" using assms(2) by (simp add: same_but_flags_def)
  have tm: "?st = ?st\<lparr>UTM_tm := UTM_tm ?st\<rparr>" by simp
  note marks = check_run_marks [OF _ assms(3,4,5,2) same _ tm]
  from assms(1) [unfolded check_loop_def] show ?thesis
  proof cases
    case (for_each_done w')
    from marks [OF this(2)] handles_valid obtain ns where
      ns: "mset (graph_nodes ?g) = mset ns" "w_mesh w' = fold (mark f m tol ?g) ns ?g"
      by auto
    have "set ns = set (graph_nodes ?g)" using mset_eq_setD [OF ns(1)] by simp
    then have "fold (mark f m tol ?g) ns ?g = mark_all f m tol ?g"
      unfolding mark_all_def using ns(1) by (intro fold_mark_perm) (auto simp: live_def)
    then show ?thesis using for_each_done(1) ns(2) by simp
  next
    case (for_each_fault w' W' n fl)
    from marks [OF this(2)] handles_valid obtain ns t' where
      ns: "mset (graph_nodes ?g) = mset ns + W'" "same_but_flags ?g (w_mesh w')" "w_utm w' = ?st\<lparr>UTM_tm := t'\<rparr>"
      by blast
    have "n \<in># mset (graph_nodes ?g)" using ns(1) for_each_fault(3) by simp
    then have "n < length (nodes ?g)" using handles_valid by blast
    from check_task_value [where tol = tol, OF assms(3,4,5) ns(2) assms(2) this ns(3)] for_each_fault(4)
    show ?thesis by auto
  qed
qed

text \<open>The loop can always be run to its end.\<close>

lemma check_run_exists:
  assumes st: "utm_ok st" "0 < sampling_step m" "\<And>x y. zGetter st m x y = Inr (f x y)" and g: "mesh_ok g"
    and "same_but_flags g (w_mesh w)" "\<forall>n \<in> set ns. n < length (nodes g)" "w_utm w = st\<lparr>UTM_tm := t\<rparr>"
  shows "\<exists>tr w'. run_tasks (check_task m tol) w (mset ns) tr w' {#}"
  using assms(5-7)
proof (induction ns arbitrary: w t)
  case (Cons n ns)
  have n: "n < length (nodes g)" using Cons.prems(2) by simp
  obtain t1 where t1: "check_task m tol n w =
      Some (Inr (w\<lparr>w_utm := st\<lparr>UTM_tm := t1\<rparr>, w_mesh := mark f m tol g n (w_mesh w)\<rparr>, []))"
    using check_task_value [where tol = tol, OF st Cons.prems(1) g n Cons.prems(3)] by blast
  let ?w = "w\<lparr>w_utm := st\<lparr>UTM_tm := t1\<rparr>, w_mesh := mark f m tol g n (w_mesh w)\<rparr>"
  have "\<exists>tr w'. run_tasks (check_task m tol) ?w (mset ns) tr w' {#}"
    using Cons.prems same_but_flags_mark [OF Cons.prems(1) n] by (intro Cons.IH [of ?w t1]) simp_all
  then obtain tr w' where "run_tasks (check_task m tol) ?w (mset ns) tr w' {#}" by blast
  then have "run_tasks (check_task m tol) w (mset (n # ns)) (?w # tr) w' {#}"
    by (intro run_task [where n = n and pushed = "[]"]) (simp_all add: t1)
  then show ?case by blast
qed (auto intro: run_nil)



end
