(* ===== verification/Quiet_Mesh.thy ===== *)
theory Quiet_Mesh
  imports Check_Loop
begin

text \<open>
  When the refinement stops: on a mesh without marked triangles and without broken sides whose triangles
  are within the tolerance of the terrain, no check marks a triangle and no production applies. So
  all further steps of the program run to their end and leave the mesh as it is.
\<close>

section \<open>Loops that keep the state\<close>

lemma steady_run:
  assumes "run_tasks body s W tr s' W'" "Q s" "\<forall>n \<in># W. R n"
    and "\<forall>n s. R n \<longrightarrow> Q s \<longrightarrow> (\<exists>s'. body n s = Some (Inr (s', [])) \<and> Q s')"
  shows "Q s' \<and> (\<forall>x \<in> set tr. Q x) \<and> (\<forall>n \<in># W'. R n)"
  using assms(1-3)
proof (induction rule: run_tasks.induct)
  case (run_task n W s s' pushed tr s'' W'')
  have "R n" using run_task.hyps(1) run_task.prems(2) by blast
  with assms(4) run_task.prems(1) run_task.hyps(2) have "Q s'" "pushed = []" by fastforce+
  then show ?case using run_task.IH run_task.prems(2) by (auto dest: in_diffD)
qed simp

lemma steady_for_each:
  assumes "for_each body s W tr r" "Q s" "\<forall>n \<in># W. R n"
    and "\<forall>n s. R n \<longrightarrow> Q s \<longrightarrow> (\<exists>s'. body n s = Some (Inr (s', [])) \<and> Q s')"
  shows "\<exists>s'. r = Inr s' \<and> Q s' \<and> (\<forall>x \<in> set tr. Q x)"
  using assms(1)
proof cases
  case (for_each_done s')
  then show ?thesis using steady_run [OF _ assms(2-4)] by blast
next
  case (for_each_fault s' W' n f)
  then have "Q s'" "R n" using steady_run [OF _ assms(2-4)] by blast+
  then show ?thesis using assms(4) for_each_fault(4) by fastforce
qed

lemma steady_exists:
  assumes "\<forall>n s. R n \<longrightarrow> Q s \<longrightarrow> (\<exists>s'. body n s = Some (Inr (s', [])) \<and> Q s')"
    and "Q s" "\<forall>n \<in> set ns. R n"
  shows "\<exists>tr s'. for_each body s (mset ns) tr (Inr s')"
proof -
  have "\<exists>tr s'. run_tasks body s (mset ns) tr s' {#}"
    using assms(2,3)
  proof (induction ns arbitrary: s)
    case (Cons n ns)
    obtain s1 where s1: "body n s = Some (Inr (s1, []))" "Q s1" using assms(1) Cons.prems by (metis list.set_intros(1))
    then obtain tr s' where "run_tasks body s1 (mset ns) tr s' {#}" using Cons.IH [of s1] Cons.prems by auto
    then have "run_tasks body s (mset (n # ns)) (s1 # tr) s' {#}"
      by (intro run_task [where n = n and pushed = "[]"]) (simp_all add: s1)
    then show ?case by blast
  qed (auto intro: run_nil)
  then obtain tr s' where "run_tasks body s (mset ns) tr s' {#}" by blast
  from for_each_done [OF this] show ?thesis by (intro exI)
qed

section \<open>Quiet meshes\<close>

definition quiet :: "mesh \<Rightarrow> bool" where
  "quiet g \<longleftrightarrow> (\<forall>n \<in> set (mesh_interiors g). \<not> toRefine (getData g n) \<and>
     (\<forall>e < 3. edge_val g (side_first (getNeighbours g n) e) (side_second (getNeighbours g n) e) \<noteq> None))"

definition within_tolerance :: "(real \<Rightarrow> real \<Rightarrow> real) \<Rightarrow> tmap \<Rightarrow> real \<Rightarrow> mesh \<Rightarrow> bool" where
  "within_tolerance f m tol g \<longleftrightarrow>
     (\<forall>n \<in> set (mesh_interiors g). \<not> violates f m tol (getVerticesCoords g n))"

lemma quiet_no_production:
  assumes "state_of g n ps" "quiet g"
  shows "try_productions productions g ps = Inr (g, [], False)"
proof -
  note sd = state_ofD [OF assms(1)]
  have n: "n \<in> set (mesh_interiors g)" using assms(1) by (simp add: state_of_def)
  then have "ps_brokenEdges ps = []" using assms(2) unfolding sd(9) quiet_def by (simp add: filter_empty_conv)
  then have "0 = countBrokenEdges (ps_edgesIterators ps)" using sd(10) by simp
  note na = not_applicable [OF this]
  have "P1_execute g ps = not_applied g"
    using assms(2) n sd(3) by (simp add: P1_execute_def P1_checkApplicabilityCondition_def quiet_def)
  then show ?thesis
    using na(2-6) by (simp add: productions_def not_applied_def)
qed

lemma quiet_refine_task:
  assumes "mesh_ok (w_mesh w)" "quiet (w_mesh w)" "n < length (nodes (w_mesh w))"
  shows "refine_task j v2D m n w = Inr (w, [])"
proof (cases "basicCondition (w_mesh w) n")
  case True
  then have n: "n \<in> set (mesh_interiors (w_mesh w))" using basicCondition_iff [OF assms(3)] by simp
  note st = state_at [OF assms(1) n, of v2D "zGetter (w_utm w) m"]
  show ?thesis using True st(4) quiet_no_production [OF st(1) assms(2)] by (simp add: refine_task_def)
qed (simp add: refine_task_def)

lemma mark_within:
  assumes "within_tolerance f m tol g" "n < length (nodes g)"
  shows "mark f m tol g n h = h"
  using assms basicCondition_iff [OF assms(2)] by (auto simp: mark_def within_tolerance_def)
section \<open>The steps of the program\<close>

definition settled :: "(real \<Rightarrow> real \<Rightarrow> real) \<Rightarrow> tmap \<Rightarrow> real \<Rightarrow> mesh \<Rightarrow> bool" where
  "settled f m tol g \<longleftrightarrow> mesh_ok g \<and> quiet g \<and> within_tolerance f m tol g"

text \<open>States of the program that differ in the variables of the projection only.\<close>

definition steady_world :: "utm \<Rightarrow> mesh \<Rightarrow> (string \<Rightarrow> line list option) \<Rightarrow> world \<Rightarrow> bool" where
  "steady_world st g fs w \<longleftrightarrow> w_mesh w = g \<and> w_files w = fs \<and> (\<exists>t. w_utm w = st\<lparr>UTM_tm := t\<rparr>)"

lemma steady_world_self: "steady_world (w_utm w) (w_mesh w) (w_files w) w"
proof -
  have "w_utm w = (w_utm w)\<lparr>UTM_tm := UTM_tm (w_utm w)\<rparr>" by simp
  then show ?thesis unfolding steady_world_def by blast
qed

lemma steady_check:
  assumes "settled f m tol g" "utm_ok st" "0 < sampling_step m" "\<And>x y. zGetter st m x y = Inr (f x y)"
  shows "\<forall>n w. n < length (nodes g) \<longrightarrow> steady_world st g fs w \<longrightarrow>
    (\<exists>w'. check_task m tol n w = Some (Inr (w', [])) \<and> steady_world st g fs w')"
proof (intro allI impI)
  fix n w assume n: "n < length (nodes g)" and "steady_world st g fs w"
  then obtain t where w: "w_mesh w = g" "w_files w = fs" "w_utm w = st\<lparr>UTM_tm := t\<rparr>" by (auto simp: steady_world_def)
  have g: "mesh_ok g" "within_tolerance f m tol g" using assms(1) by (simp_all add: settled_def)
  have "same_but_flags g (w_mesh w)" using g(1) by (simp add: same_but_flags_def w(1))
  from check_task_value [where tol = tol, OF assms(2-4) this g(1) n w(3)] obtain t' where
    "check_task m tol n w = Some (Inr (w\<lparr>w_utm := st\<lparr>UTM_tm := t'\<rparr>, w_mesh := mark f m tol g n (w_mesh w)\<rparr>, []))" by blast
  then show "\<exists>w'. check_task m tol n w = Some (Inr (w', [])) \<and> steady_world st g fs w'"
    unfolding mark_within [OF g(2) n] by (auto simp: steady_world_def w)
qed

lemma steady_refine:
  assumes "settled f m tol g"
  shows "\<forall>n w. n < length (nodes g) \<longrightarrow> steady_world st g fs w \<longrightarrow>
    (\<exists>w'. refine_body j v2D m n w = Some (Inr (w', [])) \<and> steady_world st g fs w')"
  using assms quiet_refine_task by (auto simp: steady_world_def settled_def refine_body_def)

lemma steady_loops:
  assumes "settled f m tol g" "utm_ok st" "0 < sampling_step m" "\<And>x y. zGetter st m x y = Inr (f x y)"
    and w: "steady_world st g fs w"
  shows "check_loop m tol w tr r \<Longrightarrow> \<exists>w'. r = Inr w' \<and> steady_world st g fs w' \<and> (\<forall>x \<in> set tr. steady_world st g fs x)"
    "refine_loop j v2D m w tr r \<Longrightarrow> \<exists>w'. r = Inr w' \<and> steady_world st g fs w' \<and> (\<forall>x \<in> set tr. steady_world st g fs x)"
    "\<exists>tr w'. check_loop m tol w tr (Inr w')" "\<exists>tr w'. refine_loop j v2D m w tr (Inr w')"
proof -
  have g: "w_mesh w = g" using w by (simp add: steady_world_def)
  have valid: "\<forall>n \<in> set (graph_nodes g). n < length (nodes g)" by (simp add: live_def)
  note check = steady_check [OF assms(1-4), of fs] and refine = steady_refine [OF assms(1), of st fs j v2D]
  show "\<exists>w'. r = Inr w' \<and> steady_world st g fs w' \<and> (\<forall>x \<in> set tr. steady_world st g fs x)" if "check_loop m tol w tr r"
    using steady_for_each [OF that [unfolded check_loop_def g] w handles_valid check] by blast
  show "\<exists>w'. r = Inr w' \<and> steady_world st g fs w' \<and> (\<forall>x \<in> set tr. steady_world st g fs x)" if "refine_loop j v2D m w tr r"
    using steady_for_each [OF that [unfolded refine_loop_def g] w handles_valid refine] by blast
  show "\<exists>tr w'. check_loop m tol w tr (Inr w')"
    unfolding check_loop_def g by (rule steady_exists [OF check w valid])
  show "\<exists>tr w'. refine_loop j v2D m w tr (Inr w')"
    unfolding refine_loop_def g by (rule steady_exists [OF refine w valid])
qed

lemma settled_steps:
  assumes "step_loop cf m j w tr r" "settled f m (tolerance cf) g" "utm_ok st" "0 < sampling_step m"
    and "\<And>x y. zGetter st m x y = Inr (f x y)" "steady_world st g fs w"
  shows "\<exists>w'. r = Inr w' \<and> steady_world st g fs w' \<and> (\<forall>x \<in> set tr. steady_world st g fs x)"
  using assms(1,6)
proof (induction rule: step_loop.induct)
  case (check_fault j w tr f)
  then show ?case using steady_loops(1) [OF assms(2-5)] by fastforce
next
  case (refine_fault j w tr1 w1 tr2 f)
  have "steady_world st g fs w1" using steady_loops(1) [OF assms(2-5) refine_fault.prems refine_fault(2)] by simp
  then show ?case using steady_loops(2) [OF assms(2-5) _ refine_fault(3)] by blast
next
  case (steps_next j w tr1 w1 tr2 w2 tr3 r)
  have 1: "steady_world st g fs w1" "\<forall>x \<in> set tr1. steady_world st g fs x"
    using steady_loops(1) [OF assms(2-5) steps_next.prems steps_next(2)] by simp_all
  have 2: "steady_world st g fs w2" "\<forall>x \<in> set tr2. steady_world st g fs x"
    using steady_loops(2) [OF assms(2-5) 1(1) steps_next(3)] by simp_all
  then show ?case using steps_next.IH [OF 2(1)] 1(2) by auto
qed simp

lemma settled_steps_exist:
  assumes "settled f m (tolerance cf) g" "utm_ok st" "0 < sampling_step m"
    and "\<And>x y. zGetter st m x y = Inr (f x y)" "steady_world st g fs w"
  shows "\<exists>tr w'. step_loop cf m j w tr (Inr w')"
  using assms(5)
proof (induction "nat (steps cf - j)" arbitrary: j w)
  case 0
  then have "step_loop cf m j w [] (Inr w)" by (intro steps_done) simp
  then show ?case by blast
next
  case (Suc k)
  obtain tr1 w1 where 1: "check_loop m (tolerance cf) w tr1 (Inr w1)"
    using steady_loops(3) [OF assms(1-4) Suc.prems] by blast
  then have s1: "steady_world st g fs w1" using steady_loops(1) [OF assms(1-4) Suc.prems] by fastforce
  obtain tr2 w2 where 2: "refine_loop j (version2D cf) m w1 tr2 (Inr w2)"
    using steady_loops(4) [OF assms(1-4) s1] by blast
  then have s2: "steady_world st g fs w2" using steady_loops(2) [OF assms(1-4) s1] by fastforce
  have "k = nat (steps cf - (j + 1))" using Suc.hyps(2) by simp
  from Suc.hyps(1) [OF this s2] obtain tr3 w' where 3: "step_loop cf m (j + 1) w2 tr3 (Inr w')" by blast
  have "j < steps cf" using Suc.hyps(2) by simp
  from steps_next [OF this 1 2 3] show ?case by blast
qed


section \<open>The flat square\<close>

definition flat_world :: world where
  "flat_world = \<lparr>w_mesh = sample_square empty_graph, w_utm = utm_init, w_files = (\<lambda>_. None)\<rparr>"

lemma flat_settled: "settled (\<lambda>x y. 0) (flat_map 0) 5 (sample_square empty_graph)"
proof -
  let ?g = "sample_square empty_graph"
  note sq = square_mesh_empty [where ?c0.0 = "Coord 0 0 0" and ?c1.0 = "Coord 0 1 0" and ?c2.0 = "Coord 1 0 0"
      and ?c3.0 = "Coord 1 1 0", folded sample_square_def]
  have inv: "mg_inv ?g" using sample_laws(1) by (simp add: mesh_ok_def)
  have e: "edge_val ?g 0 1 \<noteq> None" "edge_val ?g 1 3 \<noteq> None" "edge_val ?g 3 0 \<noteq> None"
    "edge_val ?g 0 3 \<noteq> None" "edge_val ?g 3 2 \<noteq> None" "edge_val ?g 2 0 \<noteq> None"
    using edge_val_sym [OF inv, of 0 3] edge_val_sym [OF inv, of 3 2] edge_val_sym [OF inv, of 2 0]
    unfolding sample_square_def by (simp_all add: square_mesh_empty(11-15) del: One_nat_def)
  have u: "\<not> toRefine (getData ?g 4)" "\<not> toRefine (getData ?g 5)"
    unfolding sample_square_def square_mesh_empty(8,9) by (simp_all add: tri_data_def setCoords_def NodeData_plain_def)
  have "quiet ?g"
    unfolding quiet_def sample_laws(2) all_less_3
    using e u by (simp add: sample_laws(4,5) side_first_def side_second_def numeral_2_eq_2)
  moreover have "within_tolerance (\<lambda>x y. 0) (flat_map 0) 5 ?g"
    unfolding within_tolerance_def sample_laws(2) using sample_laws(7)
    by (auto simp: violates_def sample_violates_def triangle_height_def getVerticesCoords_def sample_laws(4,5))
  ultimately show ?thesis using sample_laws(1) by (simp add: settled_def)
qed

lemma sample_resolved: "resolved_mesh (sample_square empty_graph)"
proof -
  have "coords (getData marked_square v) = coords (getData (sample_square empty_graph) v)" for v
    by (simp add: marked_laws(5))
  moreover have "set (graph_nodes marked_square) = set (graph_nodes (sample_square empty_graph))"
    unfolding marked_laws(7) graph_nodes_split [of "sample_square empty_graph"] sample_laws(2,3) by auto
  ultimately show ?thesis using marked_resolved by (simp add: resolved_mesh_def)
qed


end
