(* ===== verification/Writer_Spec.thy ===== *)
theory Writer_Spec
  imports Mesh_Example
begin

text \<open>
  What \<open>MyGraphFormatWriter\<close> writes: the file has one line for every vertex and for every interior, with
  consecutive numbers, and one line for every edge, which names its ends by these numbers and has the
  border flag of the edge. This needs that no two nodes of the mesh coincide, since the writer finds
  nodes by their data, and that an interior comes after its vertices in the order of the graph.
\<close>

section \<open>Positions and numbers\<close>

definition position :: "'a list \<Rightarrow> 'a \<Rightarrow> nat" where
  "position xs x = length (takeWhile (\<lambda>y. y \<noteq> x) xs)"

definition add_last :: "'a \<Rightarrow> 'a list \<Rightarrow> 'a list" where
  "add_last x xs = (if x \<in> set xs then xs else xs @ [x])"

lemma position_append: "x \<in> set xs \<Longrightarrow> position (xs @ ys) x = position xs x"
  by (simp add: position_def takeWhile_append1)

lemma position_snoc: "x \<notin> set xs \<Longrightarrow> position (xs @ [x]) x = length xs"
  by (induction xs) (auto simp: position_def)

lemma nth_position: "x \<in> set xs \<Longrightarrow> xs ! position xs x = x"
  by (induction xs) (auto simp: position_def)

lemma position_inj: "x \<in> set xs \<Longrightarrow> y \<in> set xs \<Longrightarrow> position xs x = position xs y \<Longrightarrow> x = y"
  by (metis nth_position)

lemma add_last_simps [simp]:
  "set (add_last x xs) = insert x (set xs)" "distinct (add_last x xs) = distinct xs"
  by (auto simp: add_last_def)

lemma position_add_last: "y \<in> set xs \<Longrightarrow> position (add_last x xs) y = position xs y"
  by (simp add: add_last_def position_append)

text \<open>The set of a writer that has given the numbers from 0 on to a list of nodes.\<close>

definition numbered :: "mesh \<Rightarrow> nat list \<Rightarrow> writer_node list" where
  "numbered g xs = map (\<lambda>(i, v). (i, getData g v)) (enumerate 0 xs)"

lemma numbered_Nil [simp]: "numbered g [] = []"
  by (simp add: numbered_def)

lemma numbered_snoc: "numbered g (xs @ [v]) = numbered g xs @ [(length xs, getData g v)]"
  by (simp add: numbered_def enumerate_append_eq)

lemma numbered_fst: "p \<in> set (numbered g xs) \<Longrightarrow> fst p < length xs"
  by (auto simp: numbered_def enumerate_eq_zip dest: set_zip_leftD)

lemma set_emplace_last:
  "(\<And>y. y \<in> set ys \<Longrightarrow> \<not> lt x y \<and> lt y x) \<Longrightarrow> set_emplace lt x ys = ys @ [x]"
  by (induction ys) auto

lemma emplace_numbered:
  "set_emplace writer_node_less (length xs, getData g v) (numbered g xs) = numbered g (xs @ [v])"
  unfolding numbered_snoc by (rule set_emplace_last) (use numbered_fst in \<open>fastforce simp: writer_node_less_def\<close>)

lemma findNode_numbered:
  assumes "\<And>u. u \<in> set xs \<Longrightarrow> node_eq (getData g u) (getData g v) \<longleftrightarrow> u = v"
  shows "findNode (getData g v) (numbered g xs) =
    (if v \<in> set xs then Some (node_id (getData g v) (position xs v)) else None)"
  using assms
proof (induction xs rule: rev_induct)
  case (snoc x xs)
  have f: "findNode nd (ps @ [p]) = (case findNode nd ps of Some i \<Rightarrow> Some i
      | None \<Rightarrow> if node_eq (snd p) nd then Some (node_id nd (fst p)) else None)" for nd ps and p :: writer_node
    by (induction ps) (auto simp: findNode_def)
  show ?case using snoc
    by (auto simp: numbered_snoc f position_append position_snoc)
qed (simp add: findNode_def)

lemma getNodeId_numbered:
  assumes "\<And>u. u \<in> set xs \<Longrightarrow> node_eq (getData g u) (getData g v) \<longleftrightarrow> u = v"
    and "Option.bind ws (findNode (getData g v)) = None"
  shows "getNodeId (numbered g xs) (length xs) (getData g v) ws =
    (numbered g (add_last v xs), length (add_last v xs), node_id (getData g v) (position (add_last v xs) v))"
proof -
  have f: "findNode (getData g v) (numbered g xs) =
      (if v \<in> set xs then Some (node_id (getData g v) (position xs v)) else None)"
    by (rule findNode_numbered) (rule assms(1))
  show ?thesis
    unfolding getNodeId_def f assms(2) emplace_numbered by (simp add: add_last_def position_snoc)
qed

lemma getNodeId_other:
  assumes "\<And>u. u \<in> set vs \<union> set xs \<Longrightarrow> node_eq (getData g u) (getData g v) \<longleftrightarrow> u = v" "v \<in> set vs" "v \<notin> set xs"
  shows "getNodeId (numbered g xs) k (getData g v) (Some (numbered g vs)) =
    (numbered g xs, k, node_id (getData g v) (position vs v))"
  using assms by (simp add: getNodeId_def findNode_numbered)

section \<open>Ordered sets\<close>

text \<open>What \<open>std::set\<close> requires of the comparison of its elements, for elements that are equal when neither
  is less, and what it then promises: \<open>emplace\<close> adds the element and keeps the order.\<close>

locale std_set =
  fixes lt :: "'a \<Rightarrow> 'a \<Rightarrow> bool"
  assumes lt_asym: "lt p q \<Longrightarrow> \<not> lt q p"
    and lt_trans: "lt p q \<Longrightarrow> lt q r \<Longrightarrow> lt p r"
    and lt_total: "\<not> lt p q \<Longrightarrow> \<not> lt q p \<Longrightarrow> p = q"
begin

lemma emplace_set: "set (set_emplace lt x ys) = insert x (set ys)"
  by (induction ys) (auto dest: lt_total)

lemma emplace_mset: "x \<notin> set ys \<Longrightarrow> mset (set_emplace lt x ys) = add_mset x (mset ys)"
  by (induction ys) (auto dest: lt_total)

lemma emplace_sorted: "sorted_wrt lt ys \<Longrightarrow> sorted_wrt lt (set_emplace lt x ys)"
  by (induction ys) (auto simp: emplace_set intro: lt_trans)

end

section \<open>Edges of the writer\<close>

text \<open>An edge of the file without its direction, with the border flag.\<close>

definition edge_ends :: "writer_edge \<Rightarrow> string set" where
  "edge_ends e = {fst e, fst (snd e)}"

definition edge_marks :: "writer_edge list \<Rightarrow> (string set \<times> bool) set" where
  "edge_marks es = (\<lambda>e. (edge_ends e, snd (snd e))) ` set es"

lemma str_less_total: "\<not> str_less s t \<Longrightarrow> \<not> str_less t s \<Longrightarrow> s = t"
proof (induction s t rule: str_less.induct)
  case (1 s)
  then show ?case by (cases s) auto
qed (auto simp: less_le)

lemma str_less_asym: "str_less s t \<Longrightarrow> \<not> str_less t s"
  by (induction s t rule: str_less.induct) auto

lemma str_less_trans: "str_less s t \<Longrightarrow> str_less t u \<Longrightarrow> str_less s u"
proof (induction s t arbitrary: u rule: str_less.induct)
  case (2 d t)
  then show ?case by (cases u) auto
next
  case (3 c s d t)
  then show ?case by (cases u) (auto simp: not_less)
qed simp

interpretation string_set: std_set str_less
  by unfold_locales (fact str_less_asym str_less_trans str_less_total)+

text \<open>The comparison of the tuples \<open>Edge\<close> is lexicographic over the one of strings.\<close>

lemma writer_edge_less_iff:
  "writer_edge_less (a, b, f) (a', b', f') \<longleftrightarrow>
     str_less a a' \<or> a = a' \<and> (str_less b b' \<or> b = b' \<and> \<not> f \<and> f')"
proof -
  have "\<not> str_less c a \<and> \<not> str_less a c \<longleftrightarrow> a = c" for a c
    using str_less_total str_less_asym by blast
  then show ?thesis unfolding writer_edge_less_def prod.case by (metis str_less_asym)
qed

interpretation edge_set: std_set writer_edge_less
proof
  fix p q r :: writer_edge
  obtain a b f a' b' f' c d h where e: "p = (a, b, f)" "q = (a', b', f')" "r = (c, d, h)" by (metis prod.exhaust)
  show "\<not> writer_edge_less q p" if "writer_edge_less p q"
    using that unfolding e writer_edge_less_iff by (blast dest: string_set.lt_asym)
  show "writer_edge_less p r" if "writer_edge_less p q" "writer_edge_less q r"
    using that unfolding e writer_edge_less_iff by (blast intro: string_set.lt_trans)
  show "p = q" if "\<not> writer_edge_less p q" "\<not> writer_edge_less q p"
    using that string_set.lt_total [of a a'] string_set.lt_total [of b b'] unfolding e writer_edge_less_iff by auto
qed

lemma writer_findEdge_None: "writer_findEdge a b es = None \<longleftrightarrow> {a, b} \<notin> edge_ends ` set es"
proof -
  have "(\<lambda>(s, t, f). s = a \<and> t = b \<or> s = b \<and> t = a) = (\<lambda>e :: writer_edge. {a, b} = edge_ends e)"
    by (rule ext) (auto simp: edge_ends_def doubleton_eq_iff)
  then show ?thesis by (simp only: writer_findEdge_def find_None_iff image_iff Bex_def)
qed

lemma writer_addEdge_marks:
  assumes "distinct (map edge_ends es)"
  shows "distinct (map edge_ends (writer_addEdge es a b f))"
    "edge_marks (writer_addEdge es a b f) =
      (if {a, b} \<in> fst ` edge_marks es then edge_marks es else insert ({a, b}, f) (edge_marks es))"
    "sorted_wrt writer_edge_less es \<Longrightarrow> sorted_wrt writer_edge_less (writer_addEdge es a b f)"
proof -
  show "sorted_wrt writer_edge_less (writer_addEdge es a b f)" if "sorted_wrt writer_edge_less es"
    using edge_set.emplace_sorted [OF that] that by (simp add: writer_addEdge_def)
  have i: "fst ` edge_marks es = edge_ends ` set es" by (simp add: edge_marks_def image_image)
  have "mset (writer_addEdge es a b f) = add_mset (a, b, f) (mset es)" if "{a, b} \<notin> edge_ends ` set es"
  proof -
    have "(a, b, f) \<notin> set es" using that by (force simp: edge_ends_def)
    then show ?thesis
      using that writer_findEdge_None [of a b es] edge_set.emplace_mset
      by (simp add: writer_addEdge_def)
  qed
  note new = this
  have old: "writer_addEdge es a b f = es" if "{a, b} \<in> edge_ends ` set es"
    using that writer_findEdge_None [of a b es] by (auto simp: writer_addEdge_def)
  show "distinct (map edge_ends (writer_addEdge es a b f))"
  proof (cases "{a, b} \<in> edge_ends ` set es")
    case False
    have "mset (map edge_ends (writer_addEdge es a b f)) = mset (map edge_ends ((a, b, f) # es))"
      by (simp add: new [OF False])
    moreover have "distinct (map edge_ends ((a, b, f) # es))" using assms False by (simp add: edge_ends_def)
    ultimately show ?thesis using mset_eq_imp_distinct_iff by blast
  qed (simp add: old assms)
  show "edge_marks (writer_addEdge es a b f) =
      (if {a, b} \<in> fst ` edge_marks es then edge_marks es else insert ({a, b}, f) (edge_marks es))"
    using old new [THEN arg_cong [where f = set_mset]] unfolding i by (auto simp: edge_marks_def edge_ends_def)
qed

section \<open>The invariant of the writer\<close>

definition node_name :: "mesh \<Rightarrow> nat list \<Rightarrow> nat list \<Rightarrow> nat \<Rightarrow> string" where
  "node_name g vs hs u = node_id (getData g u) (position (if hyperEdge (getData g u) then hs else vs) u)"

text \<open>The nodes \<open>vs\<close> and \<open>hs\<close> have their numbers and the edges \<open>D\<close> have their lines.\<close>

definition writer_inv :: "mesh \<Rightarrow> nat list \<Rightarrow> nat list \<Rightarrow> (nat \<times> nat) set \<Rightarrow> writer \<Rightarrow> bool" where
  "writer_inv g vs hs D w \<longleftrightarrow>
     distinct vs \<and> set vs \<subseteq> set (mesh_vertices g) \<and> distinct hs \<and> set hs \<subseteq> set (mesh_interiors g) \<and>
     w_vertices w = numbered g vs \<and> w_nodesIter w = length vs \<and>
     w_interiors w = numbered g hs \<and> w_interiorsIter w = length hs \<and>
     (\<forall>(u, v) \<in> D. {u, v} \<subseteq> set vs \<union> set hs \<and> edge_val g u v \<noteq> None) \<and>
     distinct (map edge_ends (w_edges w)) \<and> sorted_wrt writer_edge_less (w_edges w) \<and>
     edge_marks (w_edges w) =
       (\<lambda>(u, v). ({node_name g vs hs u, node_name g vs hs v}, border (the (edge_val g u v)))) ` D"

lemma node_name_inj:
  assumes "set vs \<subseteq> set (mesh_vertices g)" "set hs \<subseteq> set (mesh_interiors g)"
  shows "inj_on (node_name g vs hs) (set vs \<union> set hs)"
proof (rule inj_onI)
  fix u v
  assume uv: "u \<in> set vs \<union> set hs" "v \<in> set vs \<union> set hs" and eq: "node_name g vs hs u = node_name g vs hs v"
  then have "hyperEdge (getData g u) = hyperEdge (getData g v)"
    by (auto simp: node_name_def node_id_def split: if_splits)
  with eq have "position (if hyperEdge (getData g u) then hs else vs) u = position (if hyperEdge (getData g u) then hs else vs) v"
    by (auto simp: node_name_def node_id_def dest: show_int_inj)
  moreover have "u \<in> set (if hyperEdge (getData g u) then hs else vs)" "v \<in> set (if hyperEdge (getData g u) then hs else vs)"
    using uv assms \<open>hyperEdge (getData g u) = hyperEdge (getData g v)\<close>
    by (auto simp: mesh_vertices_def mesh_interiors_def)
  ultimately show "u = v" by (rule position_inj [rotated 2])
qed

lemma node_name_add_vertex:
  assumes "set vs \<subseteq> set (mesh_vertices g)" "set hs \<subseteq> set (mesh_interiors g)" "u \<in> set vs \<union> set hs"
  shows "node_name g (add_last v vs) hs u = node_name g vs hs u"
    "node_name g vs (add_last v hs) u = node_name g vs hs u"
  using assms by (auto simp: node_name_def position_add_last mesh_vertices_def mesh_interiors_def)

lemma writer_inv_add_vertex:
  assumes "writer_inv g vs hs D w" "v \<in> set (mesh_vertices g)"
  shows "writer_inv g (add_last v vs) hs D
    (w\<lparr>w_vertices := numbered g (add_last v vs), w_nodesIter := length (add_last v vs)\<rparr>)"
proof -
  have s: "set vs \<subseteq> set (mesh_vertices g)" "set hs \<subseteq> set (mesh_interiors g)"
    and D: "\<And>u x. (u, x) \<in> D \<Longrightarrow> u \<in> set vs \<union> set hs \<and> x \<in> set vs \<union> set hs"
    using assms(1) unfolding writer_inv_def by auto
  have "(\<lambda>(u, x). ({node_name g (add_last v vs) hs u, node_name g (add_last v vs) hs x}, border (the (edge_val g u x)))) ` D =
      (\<lambda>(u, x). ({node_name g vs hs u, node_name g vs hs x}, border (the (edge_val g u x)))) ` D"
    by (rule image_cong) (auto simp: node_name_add_vertex(1) [OF s] dest: D)
  then show ?thesis using assms unfolding writer_inv_def by auto
qed

lemma writer_inv_add_interior:
  assumes "writer_inv g vs hs D w" "v \<in> set (mesh_interiors g)"
  shows "writer_inv g vs (add_last v hs) D
    (w\<lparr>w_interiors := numbered g (add_last v hs), w_interiorsIter := length (add_last v hs)\<rparr>)"
proof -
  have s: "set vs \<subseteq> set (mesh_vertices g)" "set hs \<subseteq> set (mesh_interiors g)"
    and D: "\<And>u x. (u, x) \<in> D \<Longrightarrow> u \<in> set vs \<union> set hs \<and> x \<in> set vs \<union> set hs"
    using assms(1) unfolding writer_inv_def by auto
  have "(\<lambda>(u, x). ({node_name g vs (add_last v hs) u, node_name g vs (add_last v hs) x}, border (the (edge_val g u x)))) ` D =
      (\<lambda>(u, x). ({node_name g vs hs u, node_name g vs hs x}, border (the (edge_val g u x)))) ` D"
    by (rule image_cong) (auto simp: node_name_add_vertex(2) [OF s] dest: D)
  then show ?thesis using assms unfolding writer_inv_def by auto
qed

text \<open>The edge that is already in the file in the other direction has the same flag.\<close>

lemma writer_inv_add_edge:
  assumes inv: "writer_inv g vs hs D w" and g: "mg_inv g" and uv: "u \<in> set vs \<union> set hs" "v \<in> set vs \<union> set hs"
    and x: "edge_val g u v = Some x"
  shows "writer_inv g vs hs (insert (u, v) D)
    (w\<lparr>w_edges := writer_addEdge (w_edges w) (node_name g vs hs u) (node_name g vs hs v) (border x)\<rparr>)"
proof -
  let ?m = "\<lambda>(u, v). ({node_name g vs hs u, node_name g vs hs v}, border (the (edge_val g u v)))"
  have s: "set vs \<subseteq> set (mesh_vertices g)" "set hs \<subseteq> set (mesh_interiors g)"
    and D: "\<And>p q. (p, q) \<in> D \<Longrightarrow> p \<in> set vs \<union> set hs \<and> q \<in> set vs \<union> set hs"
    and e: "distinct (map edge_ends (w_edges w))" "edge_marks (w_edges w) = ?m ` D"
    using inv unfolding writer_inv_def by auto
  note inj = inj_onD [OF node_name_inj [OF s]]
  have "?m (u, v) \<in> ?m ` D" if "{node_name g vs hs u, node_name g vs hs v} \<in> fst ` ?m ` D"
  proof -
    from that obtain p q where pq: "(p, q) \<in> D"
      "{node_name g vs hs u, node_name g vs hs v} = {node_name g vs hs p, node_name g vs hs q}" by auto
    then have "u = p \<and> v = q \<or> u = q \<and> v = p" using inj uv D [OF pq(1)] by (metis doubleton_eq_iff)
    then show ?thesis using pq edge_val_sym [OF g, of u v] by (force simp: insert_commute)
  qed
  then have "edge_marks (writer_addEdge (w_edges w) (node_name g vs hs u) (node_name g vs hs v) (border x)) =
      insert (?m (u, v)) (?m ` D)"
    unfolding writer_addEdge_marks(2) [OF e(1)] e(2) by (simp only: x prod.case option.sel split: if_split) blast
  then show ?thesis
    using inv uv x writer_addEdge_marks(1,3) [OF e(1)] unfolding writer_inv_def by auto
qed

section \<open>The traversal\<close>

definition writable :: "mesh \<Rightarrow> bool" where
  "writable g \<longleftrightarrow> mesh_ok g \<and> resolved_mesh g \<and>
     (\<forall>n \<in> set (mesh_interiors g). \<forall>v \<in> set (getNeighbours g n). v < n)"

definition out_pairs :: "mesh \<Rightarrow> nat \<Rightarrow> (nat \<times> nat) set" where
  "out_pairs g n = {n} \<times> {v \<in> set (getNeighbours g n). \<not> hyperEdge (getData g v)}"

lemma same_node:
  assumes "resolved_mesh g" "u \<in> set (graph_nodes g)" "v \<in> set (graph_nodes g)"
  shows "node_eq (getData g u) (getData g v) \<longleftrightarrow> u = v"
proof -
  have "isXYequal (coords (getData g u)) (coords (getData g v))" if "node_eq (getData g u) (getData g v)"
    using that by (simp add: node_eq_def coord_eq_def isXYequal_def)
  moreover have "node_eq (getData g u) (getData g u)"
    by (simp add: node_eq_def coord_eq_def equals_eps_def EPS_def)
  ultimately show ?thesis using assms by (auto simp: resolved_mesh_def)
qed

lemma neighbour_edge:
  assumes "mesh_ok g" "live g n" "v \<in> set (getNeighbours g n)"
  obtains x where "edge_val g n v = Some x" "border_between g n v = Inr (border x)" "v \<in> set (graph_nodes g)"
proof -
  have inv: "mg_inv g" using assms(1) by (simp add: mesh_ok_def)
  from border_between_eq [OF inv assms(2,3)] obtain x where
    x: "edge_val g n v = Some x" "border_between g n v = Inr (border x)" .
  then have "live g v" using edge_val_live [of g n v] by auto
  with x show thesis by (intro that) simp_all
qed

lemma foldR_invariant:
  assumes "\<And>ps x qs s. xs = ps @ x # qs \<Longrightarrow> I ps s \<Longrightarrow> \<exists>s'. f x s = Inr s' \<and> I (ps @ [x]) s'" "I [] s"
  shows "\<exists>s'. foldR f xs s = Inr s' \<and> I xs s'"
proof -
  have "\<exists>s'. foldR f qs s = Inr s' \<and> I xs s'" if "xs = ps @ qs" "I ps s" for ps qs s
    using that
  proof (induction qs arbitrary: ps s)
    case (Cons x qs)
    obtain s1 where "f x s = Inr s1" "I (ps @ [x]) s1" using assms(1) [OF Cons.prems] by blast
    then show ?case using Cons.IH [of "ps @ [x]" s1] Cons.prems(1) by simp
  qed simp
  from this [of "[]" xs] assms(2) show ?thesis by simp
qed

lemma writer_invD:
  assumes "writer_inv g vs hs D w"
  shows "set vs \<subseteq> set (mesh_vertices g)" "set hs \<subseteq> set (mesh_interiors g)"
    "w_vertices w = numbered g vs" "w_nodesIter w = length vs"
    "w_interiors w = numbered g hs" "w_interiorsIter w = length hs"
  using assms by (simp_all add: writer_inv_def)

lemma getNodeId_vertex:
  assumes "resolved_mesh g" "writer_inv g vs hs D w" "v \<in> set (mesh_vertices g)"
  shows "getNodeId (w_vertices w) (w_nodesIter w) (getData g v) None =
    (numbered g (add_last v vs), length (add_last v vs), node_name g (add_last v vs) hs v)"
proof -
  note d = writer_invD [OF assms(2)]
  have v: "v \<in> set (graph_nodes g)" "\<not> hyperEdge (getData g v)" using assms(3) by (simp_all add: mesh_vertices_def)
  have "node_eq (getData g u) (getData g v) \<longleftrightarrow> u = v" if "u \<in> set vs" for u
    by (rule same_node [OF assms(1) _ v(1)]) (use that d(1) in \<open>auto simp: mesh_vertices_def\<close>)
  from getNodeId_numbered [OF this, of vs None] show ?thesis
    unfolding d(3,4) node_name_def using v(2) by simp
qed

lemma getNodeId_interior:
  assumes "resolved_mesh g" "writer_inv g vs hs D w" "n \<in> set (mesh_interiors g)"
  shows "getNodeId (w_interiors w) (w_interiorsIter w) (getData g n) (Some (w_vertices w)) =
    (numbered g (add_last n hs), length (add_last n hs), node_name g vs (add_last n hs) n)"
proof -
  note d = writer_invD [OF assms(2)]
  have n: "n \<in> set (graph_nodes g)" "hyperEdge (getData g n)" using assms(3) by (simp_all add: mesh_interiors_def)
  have eq: "node_eq (getData g u) (getData g n) \<longleftrightarrow> u = n" if "u \<in> set vs \<union> set hs" for u
    by (rule same_node [OF assms(1) _ n(1)]) (use that d(1,2) in \<open>auto simp: mesh_vertices_def mesh_interiors_def\<close>)
  have "n \<notin> set vs" using d(1) n(2) by (auto simp: mesh_vertices_def)
  then have "findNode (getData g n) (numbered g vs) = None" using findNode_numbered [of vs g n] eq by simp
  then show ?thesis
    using getNodeId_numbered [of hs g n "Some (numbered g vs)"] eq unfolding d(3,5,6) node_name_def by (simp add: n(2))
qed

lemma getNodeId_neighbour:
  assumes "resolved_mesh g" "writer_inv g vs hs D w" "v \<in> set vs"
  shows "getNodeId (w_interiors w) (w_interiorsIter w) (getData g v) (Some (w_vertices w)) =
    (w_interiors w, w_interiorsIter w, node_name g vs hs v)"
proof -
  note d = writer_invD [OF assms(2)]
  have v: "v \<in> set (graph_nodes g)" "\<not> hyperEdge (getData g v)" using assms(3) d(1) by (auto simp: mesh_vertices_def)
  have eq: "node_eq (getData g u) (getData g v) \<longleftrightarrow> u = v" if "u \<in> set vs \<union> set hs" for u
    by (rule same_node [OF assms(1) _ v(1)]) (use that d(1,2) in \<open>auto simp: mesh_vertices_def mesh_interiors_def\<close>)
  have "v \<notin> set hs" using d(2) v(2) by (auto simp: mesh_interiors_def)
  then show ?thesis
    using getNodeId_other [of vs hs g v] eq assms(3) unfolding d(3,5) node_name_def by (simp add: v(2))
qed

lemma write_vertex_edge_inv:
  assumes g: "mesh_ok g" "resolved_mesh g" and inv: "writer_inv g vs hs D w" and n: "n \<in> set vs"
    and e: "e \<in> set (out_edges g n)"
  shows "\<exists>w' vs'. write_vertex_edge g n (node_name g vs hs n) e w = Inr w' \<and>
    writer_inv g vs' hs (D \<union> {n} \<times> {v \<in> {getEdgeDst g n e}. \<not> hyperEdge (getData g v)}) w' \<and>
    set vs \<subseteq> set vs' \<and> node_name g vs' hs n = node_name g vs hs n"
proof (cases "hyperEdge (getData g (getEdgeDst g n e))")
  case True
  then have none: "{v \<in> {getEdgeDst g n e}. \<not> hyperEdge (getData g v)} = {}" by auto
  show ?thesis unfolding none using inv True by (auto simp: write_vertex_edge_def Let_def)
next
  case False
  let ?d = "getEdgeDst g n e"
  let ?vs = "add_last ?d vs"
  let ?w = "w\<lparr>w_vertices := numbered g ?vs, w_nodesIter := length ?vs\<rparr>"
  note s = writer_invD [OF inv]
  have nm: "n \<in> set (mesh_vertices g)" "live g n" using n s(1) by (auto simp: mesh_vertices_def)
  obtain x where x: "edge_val g n ?d = Some x" "border_between g n ?d = Inr (border x)" "?d \<in> set (graph_nodes g)"
    by (rule neighbour_edge [OF g(1) nm(2) out_edge_neighbour [OF e]])
  have d: "?d \<in> set (mesh_vertices g)" using x(3) False by (simp add: mesh_vertices_def)
  have name: "node_name g ?vs hs n = node_name g vs hs n" using node_name_add_vertex(1) [OF s(1,2)] n by simp
  have "mg_inv g" using g(1) by (simp add: mesh_ok_def)
  from writer_inv_add_edge [OF writer_inv_add_vertex [OF inv d] this _ _ x(1)] n
  have i: "writer_inv g ?vs hs (insert (n, ?d) D)
      (?w\<lparr>w_edges := writer_addEdge (w_edges w) (node_name g ?vs hs n) (node_name g ?vs hs ?d) (border x)\<rparr>)" by simp
  have D: "D \<union> {n} \<times> {v \<in> {?d}. \<not> hyperEdge (getData g v)} = insert (n, ?d) D" using False by auto
  have "write_vertex_edge g n (node_name g vs hs n) e w =
      Inr (?w\<lparr>w_edges := writer_addEdge (w_edges w) (node_name g ?vs hs n) (node_name g ?vs hs ?d) (border x)\<rparr>)"
    using False by (simp add: write_vertex_edge_def Let_def getNodeId_vertex [OF g(2) inv d] x(2) name)
  then show ?thesis unfolding D using i name by (intro exI conjI) (assumption | simp; fail | auto; fail)+
qed

lemma write_vertex_inv:
  assumes g: "mesh_ok g" "resolved_mesh g" and inv: "writer_inv g vs hs D w" and n: "n \<in> set (mesh_vertices g)"
  shows "\<exists>w' vs'. write_node g n w = Inr w' \<and> writer_inv g vs' hs (D \<union> out_pairs g n) w' \<and>
    insert n (set vs) \<subseteq> set vs'"
proof -
  let ?vs = "add_last n vs"
  let ?w = "w\<lparr>w_vertices := numbered g ?vs, w_nodesIter := length ?vs\<rparr>" and ?s = "node_name g (add_last n vs) hs n"
  let ?D = "\<lambda>es. D \<union> {n} \<times> {v \<in> getEdgeDst g n ` set es. \<not> hyperEdge (getData g v)}"
  let ?I = "\<lambda>es w. \<exists>vs'. writer_inv g vs' hs (?D es) w \<and> set ?vs \<subseteq> set vs' \<and> node_name g vs' hs n = ?s"
  have "\<exists>w'. foldR (write_vertex_edge g n ?s) (out_edges g n) ?w = Inr w' \<and> ?I (out_edges g n) w'"
  proof (rule foldR_invariant)
    fix ps e qs s
    assume o: "out_edges g n = ps @ e # qs" and "?I ps s"
    then obtain vs' where i: "writer_inv g vs' hs (?D ps) s" "set ?vs \<subseteq> set vs'" "node_name g vs' hs n = ?s" by blast
    have "n \<in> set vs'" "e \<in> set (out_edges g n)" using i(2) o by auto
    from write_vertex_edge_inv [OF g i(1) this] obtain s' vs'' where
      s: "write_vertex_edge g n ?s e s = Inr s'" "set vs' \<subseteq> set vs''" "node_name g vs'' hs n = ?s"
      "writer_inv g vs'' hs (?D ps \<union> {n} \<times> {v \<in> {getEdgeDst g n e}. \<not> hyperEdge (getData g v)}) s'"
      unfolding i(3) by blast
    have D: "?D (ps @ [e]) = ?D ps \<union> {n} \<times> {v \<in> {getEdgeDst g n e}. \<not> hyperEdge (getData g v)}" by auto
    show "\<exists>s'. write_vertex_edge g n ?s e s = Inr s' \<and> ?I (ps @ [e]) s'"
      unfolding D by (intro exI conjI) (rule s order_trans [OF i(2) s(2)])+
  qed (use writer_inv_add_vertex [OF inv n] in auto)
  moreover have "?D (out_edges g n) = D \<union> out_pairs g n" by (simp add: out_pairs_def getNeighbours_def)
  moreover have "\<not> hyperEdge (getData g n)" using n by (simp add: mesh_vertices_def)
  ultimately show ?thesis
    by (auto simp: write_node_def Let_def getNodeId_vertex [OF g(2) inv n])
qed

lemma write_interior_edge_inv:
  assumes g: "mesh_ok g" "resolved_mesh g" and inv: "writer_inv g vs hs D w" and n: "n \<in> set hs"
    and e: "e \<in> set (out_edges g n)" "getEdgeDst g n e \<in> set vs"
  shows "\<exists>w'. write_interior_edge g n (node_name g vs hs n) e w = Inr w' \<and>
    writer_inv g vs hs (insert (n, getEdgeDst g n e) D) w'"
proof -
  let ?d = "getEdgeDst g n e"
  have "live g n" using n writer_invD(2) [OF inv] by (auto simp: mesh_interiors_def)
  then obtain x where x: "edge_val g n ?d = Some x" "border_between g n ?d = Inr (border x)"
    using neighbour_edge [OF g(1) _ out_edge_neighbour [OF e(1)]] by blast
  have "mg_inv g" using g(1) by (simp add: mesh_ok_def)
  from writer_inv_add_edge [OF inv this _ _ x(1)] n e(2)
  have "writer_inv g vs hs (insert (n, ?d) D)
      (w\<lparr>w_edges := writer_addEdge (w_edges w) (node_name g vs hs n) (node_name g vs hs ?d) (border x)\<rparr>)" by simp
  then show ?thesis
    by (simp add: write_interior_edge_def Let_def getNodeId_neighbour [OF g(2) inv e(2)] x(2))
qed

lemma write_interior_inv:
  assumes g: "mesh_ok g" "resolved_mesh g" and inv: "writer_inv g vs hs D w" and n: "n \<in> set (mesh_interiors g)"
    and old: "set (getNeighbours g n) \<subseteq> set vs"
  shows "\<exists>w'. write_node g n w = Inr w' \<and> writer_inv g vs (add_last n hs) (D \<union> out_pairs g n) w'"
proof -
  let ?hs = "add_last n hs"
  let ?w = "w\<lparr>w_interiors := numbered g ?hs, w_interiorsIter := length ?hs\<rparr>" and ?s = "node_name g vs ?hs n"
  let ?I = "\<lambda>es. writer_inv g vs ?hs (D \<union> {n} \<times> getEdgeDst g n ` set es)"
  have "\<exists>w'. foldR (write_interior_edge g n ?s) (out_edges g n) ?w = Inr w' \<and> ?I (out_edges g n) w'"
  proof (rule foldR_invariant)
    fix ps e qs s
    assume o: "out_edges g n = ps @ e # qs" and i: "?I ps s"
    then have e: "e \<in> set (out_edges g n)" by simp
    then have "getEdgeDst g n e \<in> set vs" using old out_edge_neighbour by blast
    from write_interior_edge_inv [OF g i _ e this] show "\<exists>s'. write_interior_edge g n ?s e s = Inr s' \<and> ?I (ps @ [e]) s'"
      by simp
  qed (use writer_inv_add_interior [OF inv n] in simp)
  moreover have "{n} \<times> getEdgeDst g n ` set (out_edges g n) = out_pairs g n"
    using g(1) n by (auto simp: out_pairs_def getNeighbours_def mesh_ok_def)
  moreover have "hyperEdge (getData g n)" using n by (simp add: mesh_interiors_def)
  ultimately show ?thesis
    by (auto simp: write_node_def Let_def getNodeId_interior [OF g(2) inv n])
qed

text \<open>The nodes before a node in the order of the graph are those with a smaller handle.\<close>

lemma graph_nodes_before:
  assumes "graph_nodes g = ps @ n # qs" "v \<in> set (graph_nodes g)" "v < n"
  shows "v \<in> set ps"
proof -
  have "sorted (ps @ n # qs)" using sorted_wrt_filter [of "(\<le>)" "[0..<length (nodes g)]"] by (simp flip: assms(1) add: graph_nodes_def)
  then show ?thesis using assms by (auto simp: sorted_append)
qed

lemma write_nodes_inv:
  assumes "writable g"
  shows "\<exists>w vs. foldR (write_node g) (graph_nodes g) writer_init = Inr w \<and>
    writer_inv g vs (mesh_interiors g) (\<Union>u \<in> set (graph_nodes g). out_pairs g u) w \<and>
    set (mesh_vertices g) \<subseteq> set vs"
proof -
  have g: "mesh_ok g" "resolved_mesh g" using assms by (simp_all add: writable_def)
  let ?V = "\<lambda>u. \<not> hyperEdge (getData g u)" and ?H = "\<lambda>u. hyperEdge (getData g u)"
  let ?I = "\<lambda>ps w. \<exists>vs. writer_inv g vs (filter ?H ps) (\<Union>u \<in> set ps. out_pairs g u) w \<and> set (filter ?V ps) \<subseteq> set vs"
  have "\<exists>w. foldR (write_node g) (graph_nodes g) writer_init = Inr w \<and> ?I (graph_nodes g) w"
  proof (rule foldR_invariant)
    fix ps n qs s
    assume o: "graph_nodes g = ps @ n # qs" and "?I ps s"
    then obtain vs where i: "writer_inv g vs (filter ?H ps) (\<Union>u \<in> set ps. out_pairs g u) s" "set (filter ?V ps) \<subseteq> set vs"
      by blast
    have n: "n \<in> set (graph_nodes g)" using o by simp
    have "distinct (graph_nodes g)" by (simp add: graph_nodes_def)
    then have new: "n \<notin> set ps" using o by simp
    have U: "(\<Union>u \<in> set (ps @ [n]). out_pairs g u) = (\<Union>u \<in> set ps. out_pairs g u) \<union> out_pairs g n" by auto
    show "\<exists>s'. write_node g n s = Inr s' \<and> ?I (ps @ [n]) s'"
    proof (cases "?H n")
      case True
      then have ni: "n \<in> set (mesh_interiors g)" using n by (simp add: mesh_interiors_def)
      have "set (getNeighbours g n) \<subseteq> set vs"
      proof
        fix v assume v: "v \<in> set (getNeighbours g n)"
        have "v < n" "?V v" using assms ni v by (auto simp: writable_def mesh_ok_def)
        moreover have "v \<in> set (graph_nodes g)" using neighbour_edge [OF g(1) _ v] n by auto
        ultimately show "v \<in> set vs" using graph_nodes_before [OF o] i(2) by auto
      qed
      from write_interior_inv [OF g i(1) ni this] show ?thesis
        unfolding U using i(2) new True by (auto simp: add_last_def)
    next
      case False
      then have "n \<in> set (mesh_vertices g)" using n by (simp add: mesh_vertices_def)
      from write_vertex_inv [OF g i(1) this] show ?thesis unfolding U using i(2) False by auto
    qed
  qed (auto simp: writer_inv_def writer_init_def edge_marks_def)
  then show ?thesis by (auto simp: mesh_interiors_def mesh_vertices_def)
qed

section \<open>The file\<close>

text \<open>Every edge is met from one of its ends.\<close>

lemma out_pairs_cover:
  assumes "mesh_ok g"
  shows "(\<lambda>(u, v). ({N u, N v}, border (the (edge_val g u v)))) ` (\<Union>u \<in> set (graph_nodes g). out_pairs g u) =
    {({N u, N v}, border x) | u v x. edge_val g u v = Some x}" (is "?f ` ?E = ?R")
proof (intro set_eqI iffI)
  have inv: "mg_inv g" using assms by (simp add: mesh_ok_def)
  have E: "(u, v) \<in> ?E \<longleftrightarrow> edge_val g u v \<noteq> None \<and> \<not> hyperEdge (getData g v)" for u v
    using getNeighbours_iff [OF inv, of u v] edge_val_live [of g u v] by (auto simp: out_pairs_def)
  {
    fix p assume "p \<in> ?f ` ?E"
    then obtain q where q: "p = ?f q" "q \<in> ?E" by (rule imageE)
    obtain u v where "q = (u, v)" by (cases q)
    then have uv: "p = ?f (u, v)" "(u, v) \<in> ?E" using q by (simp_all only:)
    then obtain x where "edge_val g u v = Some x" using E by blast
    then show "p \<in> ?R" using uv(1) by (simp only: prod.case option.sel mem_Collect_eq) blast
  next
    fix p assume "p \<in> ?R"
    then obtain u v x where x: "edge_val g u v = Some x" and p: "p = ({N u, N v}, border x)" by blast
    have y: "edge_val g v u = Some x" using x edge_val_sym [OF inv, of u v] by simp
    have p': "p = ?f (u, v)" "p = ?f (v, u)" using p by (simp_all add: x y insert_commute)
    have "(u, v) \<in> ?E \<or> (v, u) \<in> ?E"
    proof (cases "hyperEdge (getData g v)")
      case True
      have "v \<in> set (mesh_interiors g)" "u \<in> set (getNeighbours g v)"
        using True edge_val_live [OF y] getNeighbours_iff [OF inv, of v u] y by (simp_all add: mesh_interiors_def)
      then have "\<not> hyperEdge (getData g u)" using assms by (auto simp: mesh_ok_def)
      then show ?thesis using E y by blast
    qed (use E x in blast)
    then show "p \<in> ?f ` ?E" using p' by blast
  }
qed



end
