(* ===== verification/Ascii_Reader.thy ===== *)
theory Ascii_Reader
  imports Terrain_Map C_Lib
begin

text \<open>
  \<open>readers/AsciiReader.h\<close> and \<open>readers/AsciiReader.cpp\<close>: reading a height map from a text file.
  The buffer of 256 characters is explicit, because the reader steps over the terminating zero of
  a line that has too few numbers and then reads what earlier lines left in the buffer. The file
  is the list of its characters.
\<close>

section \<open>Lines\<close>

definition EXIT_FAILURE :: nat where "EXIT_FAILURE = 1"

definition tambuf :: nat where "tambuf = 256"

text \<open>\<open>fgets\<close> stores its characters and a zero at the start of the buffer.\<close>

definition store_text :: "string \<Rightarrow> char option list \<Rightarrow> char option list" where
  "store_text s buf = map Some s @ Some (CHR 0x00) # drop (Suc (length s)) buf"

text \<open>\<open>readLine\<close>: the status, the buffer, the rest of the file and the line number. The loop skips
  empty lines and lines that begin with a hash sign.\<close>

function readLine ::
  "string \<Rightarrow> char option list \<Rightarrow> nat \<Rightarrow> nat \<times> char option list \<times> string \<times> nat" where
  "readLine f buf line_number =
     (case fgets tambuf f of
        None \<Rightarrow> (2, buf[0 := Some (CHR 0x00)], f, line_number)
      | Some (s, f') \<Rightarrow>
          (let p = find_if (\<lambda>c. c = CHR 0x0A) s; buf1 = store_text s buf
           in if p = length s then (1, buf1, f', Suc line_number)
              else (let buf2 = buf1[p := Some (CHR 0x00)]
                    in if buf2 ! 0 = Some (CHR ''#'') \<or> buf2 ! 0 = Some (CHR 0x00)
                       then readLine f' buf2 (Suc line_number)
                       else (0, buf2, f', Suc line_number))))"
  by pat_completeness auto
termination
proof (relation "measure (\<lambda>(f, buf, k). length f)")
  fix f :: string and s f' and x
  assume "fgets tambuf f = Some x" "(s, f') = x"
  then show "((f', b, k'), (f, buf, k)) \<in> measure (\<lambda>(f, buf, k). length f)" for b buf k' k
    by (auto simp: fgets_def fgets_length_def tambuf_def split: if_splits)
qed simp_all

declare readLine.simps [simp del]

section \<open>Numbers in the buffer\<close>

text \<open>\<open>strtod(buf + pos, &p)\<close>: the value and the position of \<open>p\<close>.\<close>

definition strtod_at :: "char option list \<Rightarrow> nat \<Rightarrow> (real \<times> nat) res" where
  "strtod_at buf pos =
     mapR (\<lambda>s. let (v, r) = strtod s in (v, pos + (length s - length r))) (c_string (drop pos buf))"

text \<open>A header line: the number after the first space. The check for a missing number compares
  the end of the number with the start of the line and not with the start of the number.\<close>

definition header_value :: "char option list \<Rightarrow> real res" where
  "header_value buf =
     bindR (c_string buf) (\<lambda>s.
       let result = find_if (\<lambda>c. c = CHR '' '') s
       in if result = length s then Inl (Exit EXIT_FAILURE)
          else bindR (strtod_at buf result) (\<lambda>(v, p).
                 if p = 0 then Inl (Exit EXIT_FAILURE) else Inr v))"

record reader =
  r_file :: string
  r_buf :: "char option list"
  r_line :: nat

definition next_line :: "reader \<Rightarrow> reader res" where
  "next_line r =
     (case readLine (r_file r) (r_buf r) (r_line r) of
        (status, buf, f, k) \<Rightarrow>
          if status = 0 then Inr \<lparr>r_file = f, r_buf = buf, r_line = k\<rparr> else Inl (Exit EXIT_FAILURE))"

fun read_header :: "nat \<Rightarrow> reader \<Rightarrow> (real list \<times> reader) res" where
  "read_header 0 r = Inr ([], r)"
| "read_header (Suc k) r =
     bindR (next_line r) (\<lambda>r1.
     bindR (header_value (r_buf r1)) (\<lambda>v.
     mapR (\<lambda>(vs, r2). (v # vs, r2)) (read_header k r1)))"

section \<open>The grid\<close>

text \<open>The conversion of a double to \<open>size_t\<close> is undefined outside the range of the type.\<close>

definition to_size_t :: "real \<Rightarrow> nat res" where
  "to_size_t v =
     (if -1 < v \<and> v < 2 ^ 64 then Inr (nat (trunc_to_int v)) else Inl OutOfBounds)"

text \<open>The columns of one row, from the position \<open>pos\<close> of the buffer on: the coordinates written to
  \<open>coords\<close> at \<open>base\<close> and up.\<close>

fun read_columns ::
  "char option list \<Rightarrow> real \<Rightarrow> real \<Rightarrow> real \<Rightarrow> nat list \<Rightarrow> nat \<Rightarrow> nat \<Rightarrow> (real \<times> real \<times> real) option list
     \<Rightarrow> (real \<times> real \<times> real) option list res" where
  "read_columns buf xMin cellSize y [] base pos cs = Inr cs"
| "read_columns buf xMin cellSize y (i # is) base pos cs =
     bindR (strtod_at buf pos) (\<lambda>(z, p).
       if p = pos then Inl (Exit EXIT_FAILURE)
       else if base + i < length cs
       then read_columns buf xMin cellSize y is base (p + 1)
              (cs[base + i := Some (xMin + cellSize * real i, y, z)])
       else Inl OutOfBounds)"

fun read_grid ::
  "real \<Rightarrow> real \<Rightarrow> real \<Rightarrow> nat \<Rightarrow> nat \<Rightarrow> nat list \<Rightarrow> reader \<Rightarrow> (real \<times> real \<times> real) option list
     \<Rightarrow> (real \<times> real \<times> real) option list res" where
  "read_grid xMin yMin cellSize nRows nCols [] r cs = Inr cs"
| "read_grid xMin yMin cellSize nRows nCols (j # js) r cs =
     (let y = yMin + cellSize * real (nRows - (j + 1))
      in bindR (next_line r) (\<lambda>r1.
         bindR (read_columns (r_buf r1) xMin cellSize y [0..<nCols] (nCols * j) 0 cs) (\<lambda>cs1.
         read_grid xMin yMin cellSize nRows nCols js r1 cs1)))"

definition point_z :: "real \<times> real \<times> real \<Rightarrow> real" where
  "point_z p = snd (snd p)"

definition convert :: "(real \<times> real \<times> real) option list \<Rightarrow> nat \<Rightarrow> nat \<Rightarrow> tmap" where
  "convert cs nRows nCols =
     Map_new (map (\<lambda>k. map (\<lambda>i. map_option point_z (cs ! (k * nCols + i))) [0..<nCols])
                [0..<nRows]) nCols nRows 1 1"

definition AsciiReader_read :: "(string \<Rightarrow> string option) \<Rightarrow> string \<Rightarrow> tmap res" where
  "AsciiReader_read files filename =
     (case files filename of
        None \<Rightarrow> Inl (Exit EXIT_FAILURE)
      | Some f \<Rightarrow>
          bindR (read_header 6 \<lparr>r_file = f, r_buf = replicate tambuf None, r_line = 0\<rparr>) (\<lambda>(dtm_data, r).
          bindR (to_size_t (dtm_data ! 0)) (\<lambda>nCols.
          bindR (to_size_t (dtm_data ! 1)) (\<lambda>nRows.
          let numOfPoints = (nCols * nRows) mod 2 ^ 64
          in mapR (\<lambda>cs. convert cs nRows nCols)
               (read_grid (dtm_data ! 2) (dtm_data ! 3) (dtm_data ! 4) nRows nCols [0..<nRows] r
                  (replicate numOfPoints None))))))"

section \<open>Reading back a printed grid\<close>

text \<open>A line the reader accepts, and the text of a file.\<close>

definition good_line :: "string \<Rightarrow> bool" where
  "good_line l \<longleftrightarrow> l \<noteq> [] \<and> hd l \<noteq> CHR ''#'' \<and> CHR 0x0A \<notin> set l \<and> CHR 0x00 \<notin> set l \<and>
     Suc (length l) < tambuf"

definition text_of :: "string list \<Rightarrow> string" where
  "text_of ls = concat (map (\<lambda>l. l @ [CHR 0x0A]) ls)"

lemma readLine_good:
  assumes "good_line l"
  shows "readLine (l @ CHR 0x0A # f) buf k =
    (0, map Some l @ Some (CHR 0x00) # Some (CHR 0x00) # drop (Suc (Suc (length l))) buf, f, Suc k)"
proof -
  have l: "CHR 0x0A \<notin> set l" "Suc (length l) < tambuf" "l \<noteq> []" "CHR 0x00 \<notin> set l"
    using assms by (simp_all add: good_line_def)
  have p: "find_if (\<lambda>c. c = CHR 0x0A) (l @ [CHR 0x0A]) = length l"
    using l(1) by (intro find_if_append_hit) auto
  have h: "hd l \<noteq> CHR 0x00" using l(3,4) hd_in_set by metis
  have b: "(store_text (l @ [CHR 0x0A]) buf)[length l := Some (CHR 0x00)] =
      map Some l @ Some (CHR 0x00) # Some (CHR 0x00) # drop (Suc (Suc (length l))) buf"
    by (simp add: store_text_def list_update_append)
  have "(map Some l @ xs) ! 0 = Some (hd l)" for xs using l(3) by (cases l) auto
  then show ?thesis
    using assms h
    by (subst readLine.simps) (simp add: fgets_line [OF l(1,2)] p b Let_def good_line_def)
qed

lemma next_line_good:
  assumes "good_line l" "r_file r = l @ CHR 0x0A # f"
  shows "\<exists>junk k. next_line r = Inr \<lparr>r_file = f, r_buf = map Some l @ Some (CHR 0x00) # junk, r_line = k\<rparr>"
  using readLine_good [OF assms(1)] by (simp add: next_line_def assms(2))

lemma strtod_at_text:
  assumes "drop pos buf = map Some s @ Some (CHR 0x00) # junk" "CHR 0x00 \<notin> set s" "strtod s = (v, r)"
  shows "strtod_at buf pos = Inr (v, pos + (length s - length r))"
  using c_string_text [OF assms(2), of junk] assms(1,3) by (simp add: strtod_at_def mapR_def)

definition header_line :: "string \<Rightarrow> int \<Rightarrow> string" where
  "header_line kw z = kw @ CHR '' '' # show_int 1 z"

lemma header_value_line:
  assumes "good_line (header_line kw z)" "CHR '' '' \<notin> set kw"
  shows "header_value (map Some (header_line kw z) @ Some (CHR 0x00) # junk) = Inr (of_int z)"
proof -
  let ?l = "header_line kw z" and ?s = "CHR '' '' # show_int 1 z"
  let ?buf = "map Some ?l @ Some (CHR 0x00) # junk"
  have nul: "CHR 0x00 \<notin> set ?l" "CHR 0x00 \<notin> set ?s"
    using assms(1) by (auto simp: good_line_def header_line_def)
  have p: "find_if (\<lambda>c. c = CHR '' '') ?l = length kw"
    using assms(2) by (auto simp: header_line_def intro!: find_if_append_hit)
  have "strtod (show_int 1 z @ []) = (of_int z, [])" by (rule strtod_show_int) (simp add: ends_number_def)
  then have st: "strtod ?s = (of_int z, [])" 
    by (intro strtod_space) (simp_all add: is_space_def not_sym [OF show_int_nonempty])
  have d: "drop (length kw) ?buf = map Some ?s @ Some (CHR 0x00) # junk" by (simp add: header_line_def)
  show ?thesis
    unfolding header_value_def c_string_text [OF nul(1)]
    by (simp add: p strtod_at_text [OF d nul(2) st] Let_def) (simp add: header_line_def)
qed

lemma read_header_lines:
  assumes "\<forall>(kw, z) \<in> set hs. good_line (header_line kw z) \<and> CHR '' '' \<notin> set kw"
    and "r_file r = text_of (map (\<lambda>(kw, z). header_line kw z) hs) @ f"
  shows "\<exists>r'. read_header (length hs) r = Inr (map (\<lambda>(kw, z). of_int z) hs, r') \<and> r_file r' = f"
  using assms
proof (induction hs arbitrary: r)
  case (Cons h hs)
  obtain kw z where h: "h = (kw, z)" by (cases h)
  have g: "good_line (header_line kw z)" "CHR '' '' \<notin> set kw" using Cons.prems(1) by (auto simp: h)
  obtain junk k where n: "next_line r = Inr \<lparr>r_file = text_of (map (\<lambda>(kw, z). header_line kw z) hs) @ f,
      r_buf = map Some (header_line kw z) @ Some (CHR 0x00) # junk, r_line = k\<rparr>"
    using next_line_good [OF g(1), of r] Cons.prems(2) by (auto simp: h text_of_def)
  let ?r1 = "\<lparr>r_file = text_of (map (\<lambda>(kw, z). header_line kw z) hs) @ f,
      r_buf = map Some (header_line kw z) @ Some (CHR 0x00) # junk, r_line = k\<rparr>"
  obtain r' where "read_header (length hs) ?r1 = Inr (map (\<lambda>(kw, z). of_int z) hs, r')" "r_file r' = f"
    using Cons.IH [of ?r1] Cons.prems(1) by auto
  then show ?case
    by (simp add: h n header_value_line [OF g] mapR_def)
qed (simp add: text_of_def)

fun row_text :: "int list \<Rightarrow> string" where
  "row_text [] = []"
| "row_text [z] = show_int 1 z"
| "row_text (z # z' # zs) = show_int 1 z @ CHR '' '' # row_text (z' # zs)"

lemma row_text_Cons:
  "row_text (z # zs) = show_int 1 z @ (if zs = [] then [] else CHR '' '' # row_text zs)"
  by (cases zs) simp_all

lemma row_text_chars: "c \<in> set (row_text zs) \<Longrightarrow> is_digit c \<or> c = CHR ''-'' \<or> c = CHR '' ''"
  by (induction zs rule: row_text.induct) (auto dest: show_int_chars)

lemma row_text_good:
  assumes "zs \<noteq> []" "Suc (length (row_text zs)) < tambuf"
  shows "good_line (row_text zs)"
proof -
  have ne: "row_text zs \<noteq> []" using assms(1) by (cases zs) (simp_all add: row_text_Cons)
  have "\<forall>c \<in> set (row_text zs). c \<noteq> CHR 0x0A \<and> c \<noteq> CHR 0x00 \<and> c \<noteq> CHR ''#''"
    using row_text_chars [of _ zs] is_digitD(7-9) by fastforce
  then show ?thesis using ne assms(2) hd_in_set [OF ne] by (auto simp: good_line_def)
qed

text \<open>One row: the cells from \<open>base + i\<close> on get the numbers of the text at \<open>pos\<close>.\<close>

lemma read_columns_row:
  assumes "zs \<noteq> [] \<Longrightarrow> \<exists>junk. drop pos buf = map Some (row_text zs) @ Some (CHR 0x00) # junk"
    and "base + i + length zs \<le> length cs"
  shows "\<exists>cs'. read_columns buf xMin cellSize y [i..<i + length zs] base pos cs = Inr cs' \<and>
    length cs' = length cs \<and>
    (\<forall>k < length cs. map_option point_z (cs' ! k) =
       (if base + i \<le> k \<and> k < base + i + length zs then Some (of_int (zs ! (k - (base + i))))
        else map_option point_z (cs ! k)))"
  using assms
proof (induction zs arbitrary: i pos cs)
  case (Cons z zs)
  let ?rest = "if zs = [] then [] else CHR '' '' # row_text zs"
  obtain junk where d: "drop pos buf = map Some (row_text (z # zs)) @ Some (CHR 0x00) # junk"
    using Cons.prems(1) by auto
  have nul: "CHR 0x00 \<notin> set (row_text (z # zs))"
    using row_text_chars is_digitD(8) by fastforce
  have st: "strtod (row_text (z # zs)) = (of_int z, ?rest)"
    unfolding row_text_Cons by (rule strtod_show_int) (simp add: ends_number_def is_digit_def)
  let ?p = "pos + length (show_int 1 z)"
  have at: "strtod_at buf pos = Inr (of_int z, ?p)"
    using strtod_at_text [OF d nul st] by (simp add: row_text_Cons)
  have "drop (?p + 1) buf = drop (length (show_int 1 z) + 1) (drop pos buf)" by (simp add: add.commute)
  then have d': "\<exists>junk. drop (?p + 1) buf = map Some (row_text zs) @ Some (CHR 0x00) # junk" if "zs \<noteq> []"
    using that d by (simp add: row_text_Cons)
  let ?cs = "cs[base + i := Some (xMin + cellSize * real i, y, of_int z)]"
  have le: "base + Suc i + length zs \<le> length ?cs" using Cons.prems(2) by simp
  obtain cs' where IH: "read_columns buf xMin cellSize y [Suc i..<Suc i + length zs] base (?p + 1) ?cs = Inr cs'"
    "length cs' = length cs"
    "\<forall>k < length cs. map_option point_z (cs' ! k) =
       (if base + Suc i \<le> k \<and> k < base + Suc i + length zs then Some (of_int (zs ! (k - (base + Suc i))))
        else map_option point_z (?cs ! k))"
    using Cons.IH [OF d' le] by (simp only: length_list_update) blast
  have "[i..<i + length (z # zs)] = i # [Suc i..<Suc i + length zs]" by (simp add: upt_rec)
  moreover have "?p \<noteq> pos" by simp
  ultimately have run: "read_columns buf xMin cellSize y [i..<i + length (z # zs)] base pos cs = Inr cs'"
    using at IH(1) Cons.prems(2) by simp
  have "map_option point_z (cs' ! k) =
      (if base + i \<le> k \<and> k < base + i + length (z # zs) then Some (of_int ((z # zs) ! (k - (base + i))))
       else map_option point_z (cs ! k))" if "k < length cs" for k
  proof (cases "k = base + i")
    case False
    then have "(z # zs) ! (k - (base + i)) = zs ! (k - (base + Suc i))" if "base + i \<le> k"
      using that by (simp add: nth_Cons' Suc_diff_le)
    then show ?thesis using IH(3) that False by auto
  qed (use IH(3) that in \<open>simp add: point_z_def\<close>)
  then show ?case using run IH(2) by blast
qed auto

lemma row_index:
  fixes i j k n :: nat
  assumes "i < n"
  shows "n * j \<le> k * n + i \<and> k * n + i < n * j + n \<longleftrightarrow> k = j"
proof
  assume b: "n * j \<le> k * n + i \<and> k * n + i < n * j + n"
  have "(k * n + i) div n = k" using assms by simp
  moreover have "(k * n + i) div n = j"
    using b assms by (intro div_nat_eqI) (simp_all add: mult.commute)
  ultimately show "k = j" by simp
qed (use assms in \<open>simp add: mult.commute\<close>)

lemma row_index_bound: "k < m \<Longrightarrow> i < n \<Longrightarrow> k * n + i < n * (m :: nat)"
  using mult_le_mono1 [of "Suc k" m n] by (simp add: mult.commute)

lemma read_grid_rows:
  assumes "\<forall>zs \<in> set rows. length zs = nCols \<and> good_line (row_text zs)"
    and "r_file r = text_of (map row_text rows) @ f" "length cs = nCols * (j + length rows)"
  shows "\<exists>cs'. read_grid xMin yMin cellSize nRows nCols [j..<j + length rows] r cs = Inr cs' \<and>
    (\<forall>k < j + length rows. \<forall>i < nCols. map_option point_z (cs' ! (k * nCols + i)) =
       (if j \<le> k then Some (of_int (rows ! (k - j) ! i)) else map_option point_z (cs ! (k * nCols + i))))"
  using assms
proof (induction rows arbitrary: j r cs)
  case (Cons zs rows)
  have zs: "length zs = nCols" "good_line (row_text zs)" using Cons.prems(1) by simp_all
  obtain junk k where n: "next_line r = Inr \<lparr>r_file = text_of (map row_text rows) @ f,
      r_buf = map Some (row_text zs) @ Some (CHR 0x00) # junk, r_line = k\<rparr>"
    using next_line_good [OF zs(2), of r] Cons.prems(2) by (auto simp: text_of_def)
  let ?r1 = "\<lparr>r_file = text_of (map row_text rows) @ f,
      r_buf = map Some (row_text zs) @ Some (CHR 0x00) # junk, r_line = k\<rparr>"
  let ?y = "yMin + cellSize * real (nRows - (j + 1))"
  obtain cs1 where c1: "read_columns (r_buf ?r1) xMin cellSize ?y [0..<nCols] (nCols * j) 0 cs = Inr cs1"
    "length cs1 = length cs" and v1: "\<forall>k < length cs. map_option point_z (cs1 ! k) =
       (if nCols * j \<le> k \<and> k < nCols * j + nCols then Some (of_int (zs ! (k - nCols * j)))
        else map_option point_z (cs ! k))"
    using read_columns_row [of zs 0 "r_buf ?r1" "nCols * j" 0 cs xMin cellSize ?y] zs(1) Cons.prems(3)
    by auto
  have len1: "length cs1 = nCols * (Suc j + length rows)" using c1(2) Cons.prems(3) by simp
  obtain cs' where c': "read_grid xMin yMin cellSize nRows nCols [Suc j..<Suc j + length rows] ?r1 cs1 = Inr cs'"
    and v': "\<forall>k < Suc j + length rows. \<forall>i < nCols. map_option point_z (cs' ! (k * nCols + i)) =
       (if Suc j \<le> k then Some (of_int (rows ! (k - Suc j) ! i)) else map_option point_z (cs1 ! (k * nCols + i)))"
    using Cons.IH [OF _ _ len1, of ?r1] Cons.prems(1) by auto
  have "[j..<j + length (zs # rows)] = j # [Suc j..<Suc j + length rows]" by (simp add: upt_rec)
  then have "read_grid xMin yMin cellSize nRows nCols [j..<j + length (zs # rows)] r cs = Inr cs'"
    using n c1(1) c' by simp
  moreover have "map_option point_z (cs' ! (k * nCols + i)) = (if j \<le> k then Some (of_int ((zs # rows) ! (k - j) ! i))
      else map_option point_z (cs ! (k * nCols + i)))" if "k < j + length (zs # rows)" "i < nCols" for k i
  proof -
    have lt: "k * nCols + i < length cs"
      using row_index_bound [OF that] Cons.prems(3) by simp
    have idx: "k * nCols + i - nCols * j = i" if "k = j" using that by (simp add: mult.commute)
    show ?thesis
      using v' v1 lt that row_index [OF that(2), of j k] idx
      by (cases "j < k") (auto simp: Suc_diff_Suc not_less_eq_eq)
  qed
  ultimately show ?case by blast
qed auto

lemma text_of_append: "text_of (ls @ ms) = text_of ls @ text_of ms"
  by (simp add: text_of_def)

lemma to_size_t_nat: "n < 2 ^ 64 \<Longrightarrow> to_size_t (of_int (int n)) = Inr n"
proof -
  assume "n < 2 ^ 64"
  then have "real n < 2 ^ 64" using of_nat_less_iff [of n "2 ^ 64", where 'a = real] by simp
  then show ?thesis by (simp add: to_size_t_def)
qed

text \<open>C17: a file with six header lines and rows of printed integers, each line short enough for the
  buffer, is read back exactly: the map has the rows of the file as its cells, in the order of the
  file.\<close>

theorem AsciiReader_roundtrip:
  assumes "\<forall>(kw, z) \<in> set hs. good_line (header_line kw z) \<and> CHR '' '' \<notin> set kw"
    and "map snd hs = [int nCols, int (length rows), x, y, c, nd]"
    and "\<forall>zs \<in> set rows. length zs = nCols \<and> good_line (row_text zs)"
    and "nCols < 2 ^ 64" "length rows < 2 ^ 64" "nCols * length rows < 2 ^ 64"
    and "files name = Some (text_of (map (\<lambda>(kw, z). header_line kw z) hs @ map row_text rows))"
  shows "AsciiReader_read files name =
    Inr (Map_new (map (map (\<lambda>z. Some (real_of_int z))) rows) nCols (length rows) 1 1)"
proof -
  let ?r0 = "\<lparr>r_file = text_of (map (\<lambda>(kw, z). header_line kw z) hs) @ text_of (map row_text rows),
    r_buf = replicate tambuf None, r_line = 0\<rparr>"
  have "length hs = 6" using arg_cong [OF assms(2), of length] by simp
  moreover have "map (\<lambda>(kw, z). real_of_int z) hs = map real_of_int (map snd hs)" by auto
  ultimately obtain r1 where h: "read_header 6 ?r0 =
      Inr ([of_int (int nCols), of_int (int (length rows)), of_int x, of_int y, of_int c, of_int nd], r1)"
    and f1: "r_file r1 = text_of (map row_text rows)"
    using read_header_lines [OF assms(1), of ?r0] unfolding assms(2) by auto
  let ?cs = "replicate (nCols * length rows) None"
  obtain cs where g: "read_grid (of_int x) (of_int y) (of_int c) (length rows) nCols [0..<length rows] r1 ?cs = Inr cs"
    and v: "\<forall>k < length rows. \<forall>i < nCols. map_option point_z (cs ! (k * nCols + i)) =
      Some (of_int (rows ! k ! i))"
    using read_grid_rows [OF assms(3), of r1 "[]" ?cs 0 "of_int x" "of_int y" "of_int c" "length rows"] f1
    by auto
  have "map (\<lambda>k. map (\<lambda>i. map_option point_z (cs ! (k * nCols + i))) [0..<nCols]) [0..<length rows] =
      map (map (\<lambda>z. Some (real_of_int z))) rows"
    using v assms(3) by (auto intro!: nth_equalityI)
  then have c: "mapR (\<lambda>cs. convert cs (length rows) nCols) (Inr cs) =
      Inr (Map_new (map (map (\<lambda>z. Some (real_of_int z))) rows) nCols (length rows) 1 1)"
    by (simp add: convert_def mapR_def)
  have m: "(nCols * length rows) mod 2 ^ 64 = nCols * length rows" using assms(6) by (rule mod_less)
  have nth: "[a, b, d, e, q, w] ! 0 = a" "[a, b, d, e, q, w] ! 1 = b" "[a, b, d, e, q, w] ! 2 = d"
    "[a, b, d, e, q, w] ! 3 = e" "[a, b, d, e, q, w] ! 4 = q" for a b d e q w :: real
    by simp_all
  show ?thesis
    unfolding AsciiReader_read_def assms(7) option.case text_of_append h bindR_simps prod.case nth
      to_size_t_nat [OF assms(4)] to_size_t_nat [OF assms(5)] Let_def m g
    by (rule c)
qed

theorem AsciiReader_roundtrip_witness:
  "AsciiReader_read
     (\<lambda>name. Some (text_of [''ncols 2'', ''nrows 2'', ''x 0'', ''y 0'', ''cell 90'', ''nodata -9999'',
                             ''12 340'', ''-7 5'']))
     ''map.asc'' = Inr (Map_new [[Some 12, Some 340], [Some (-7), Some 5]] 2 2 1 1)"
proof -
  have s: "show_int 1 2 = ''2''" "show_int 1 0 = ''0''" "show_int 1 90 = ''90''"
    "show_int 1 (-9999) = ''-9999''" "show_int 1 12 = ''12''" "show_int 1 340 = ''340''"
    "show_int 1 (-7) = ''-7''" "show_int 1 5 = ''5''"
    by (simp_all add: show_int_eval)
  let ?hs = "[(''ncols'', 2), (''nrows'', 2), (''x'', 0), (''y'', 0), (''cell'', 90), (''nodata'', -9999)]"
    and ?rows = "[[12, 340], [-7, 5]] :: int list list"
  have ls: "map (\<lambda>(kw, z). header_line kw z) ?hs @ map row_text ?rows =
      [''ncols 2'', ''nrows 2'', ''x 0'', ''y 0'', ''cell 90'', ''nodata -9999'', ''12 340'', ''-7 5'']"
    by (simp only: list.map prod.case header_line_def row_text.simps s append.simps)
  have "AsciiReader_read (\<lambda>name. Some (text_of (map (\<lambda>(kw, z). header_line kw z) ?hs @ map row_text ?rows)))
      ''map.asc'' = Inr (Map_new (map (map (\<lambda>z. Some (real_of_int z))) ?rows) 2 (length ?rows) 1 1)"
    by (rule AsciiReader_roundtrip [of ?hs 2 ?rows 0 0 90 "-9999"])
      (simp_all add: good_line_def header_line_def tambuf_def s [simplified])
  then show ?thesis unfolding ls by (simp add: numeral_2_eq_2)
qed

end
