(* ===== verification/Graph_Refinement.thy ===== *)
theory Graph_Refinement
  imports Morph_Graph
begin

text \<open>
  What a client may assume of the graph of \<open>galois/graphs/MorphGraph.h\<close>: a finite simple undirected
  graph with data on its nodes and edges. The record \<open>ugraph\<close> is that contract; the operations of
  the storage (adjacency vectors with holes, shared edge data) refine the operations on it and keep
  the invariant of the storage.
\<close>

section \<open>The contract\<close>

record ('n, 'e) ugraph =
  ug_node :: "nat \<Rightarrow> 'n option"
  ug_edge :: "nat \<Rightarrow> nat \<Rightarrow> 'e option"

definition same_pair :: "nat \<Rightarrow> nat \<Rightarrow> nat \<Rightarrow> nat \<Rightarrow> bool" where
  "same_pair a b u v \<longleftrightarrow> u = a \<and> v = b \<or> u = b \<and> v = a"

definition ug_add_node :: "nat \<Rightarrow> 'n \<Rightarrow> ('n, 'e) ugraph \<Rightarrow> ('n, 'e) ugraph" where
  "ug_add_node n x G = G\<lparr>ug_node := (ug_node G)(n \<mapsto> x)\<rparr>"

text \<open>An edge that is there already keeps its data.\<close>

definition ug_add_edge :: "'e \<Rightarrow> nat \<Rightarrow> nat \<Rightarrow> ('n, 'e) ugraph \<Rightarrow> ('n, 'e) ugraph" where
  "ug_add_edge d a b G =
     G\<lparr>ug_edge := \<lambda>u v. if same_pair a b u v \<and> ug_edge G a b = None then Some d else ug_edge G u v\<rparr>"

definition ug_remove_edge :: "nat \<Rightarrow> nat \<Rightarrow> ('n, 'e) ugraph \<Rightarrow> ('n, 'e) ugraph" where
  "ug_remove_edge a b G =
     G\<lparr>ug_edge := \<lambda>u v. if same_pair a b u v then None else ug_edge G u v\<rparr>"

definition ug_remove_node :: "nat \<Rightarrow> ('n, 'e) ugraph \<Rightarrow> ('n, 'e) ugraph" where
  "ug_remove_node n G =
     G\<lparr>ug_node := (ug_node G)(n := None),
       ug_edge := \<lambda>u v. if u = n \<or> v = n then None else ug_edge G u v\<rparr>"

definition ug_upd_edge :: "nat \<Rightarrow> nat \<Rightarrow> ('e \<Rightarrow> 'e) \<Rightarrow> ('n, 'e) ugraph \<Rightarrow> ('n, 'e) ugraph" where
  "ug_upd_edge a b h G =
     G\<lparr>ug_edge := \<lambda>u v. if same_pair a b u v then map_option h (ug_edge G u v) else ug_edge G u v\<rparr>"

section \<open>The abstraction\<close>

definition ug_of :: "('n, 'e) morph_graph \<Rightarrow> ('n, 'e) ugraph" where
  "ug_of g = \<lparr>ug_node = \<lambda>n. if live g n then Some (data (node g n)) else None,
              ug_edge = edge_val g\<rparr>"

definition ug_wf :: "('n, 'e) ugraph \<Rightarrow> bool" where
  "ug_wf G \<longleftrightarrow>
     finite (dom (ug_node G)) \<and>
     (\<forall>u v. ug_edge G u v = ug_edge G v u) \<and> (\<forall>u. ug_edge G u u = None) \<and>
     (\<forall>u v. ug_edge G u v \<noteq> None \<longrightarrow> u \<in> dom (ug_node G) \<and> v \<in> dom (ug_node G))"

lemma ug_eqI:
  assumes "ug_node G = ug_node H" "ug_edge G = ug_edge H"
  shows "(G :: ('n, 'e) ugraph) = H"
  using assms by (cases G; cases H) simp

lemma ug_of_sel [simp]:
  "ug_node (ug_of g) n = (if live g n then Some (data (node g n)) else None)"
  "ug_edge (ug_of g) = edge_val g"
  by (simp_all add: ug_of_def)

lemma ug_of_eqD:
  assumes "ug_of g = G"
  shows "live g n \<longleftrightarrow> ug_node G n \<noteq> None" and "edge_val g = ug_edge G"
  using assms by (auto split: if_splits)

lemma getEdgeData_edge_val: "edge_val g u v = Some x \<Longrightarrow> getEdgeData g u (findEdge g u v) = x"
  by (simp add: edge_val_def split: if_splits)

lemma ug_wf_ug_of:
  assumes "mg_inv g"
  shows "ug_wf (ug_of g)"
proof -
  have "dom (ug_node (ug_of g)) \<subseteq> {..<length (nodes g)}"
    by (auto simp: live_def split: if_splits)
  then have "finite (dom (ug_node (ug_of g)))" by (rule finite_subset) simp
  moreover have "ug_node (ug_of g) n \<noteq> None" if "live g n" for n using that by simp
  ultimately show ?thesis
    using edge_val_sym [OF assms] edge_val_irrefl [OF assms] edge_val_live [of g]
    by (fastforce simp: ug_wf_def dom_def)
qed

lemma ug_of_new_node:
  assumes "mg_inv g"
  shows "ug_of (new_node g x) = ug_add_node (length (nodes g)) x (ug_of g)"
proof (intro ug_eqI ext)
  fix m
  have "live g m \<Longrightarrow> m < length (nodes g)" by (simp add: live_def)
  then show "ug_node (ug_of (new_node g x)) m = ug_node (ug_add_node (length (nodes g)) x (ug_of g)) m"
    by (auto simp: ug_add_node_def live_new_node node_new_node)
qed (simp add: ug_add_node_def edge_val_new_node [OF assms])

text \<open>A graph of two nodes, and the same with an edge.\<close>

definition two_nodes :: "(nat, nat) morph_graph" where
  "two_nodes = new_node (new_node empty_graph 10) 20"

lemma two_nodes_laws:
  "mg_inv two_nodes" "live two_nodes 0" "live two_nodes 1" "ug_node (ug_of two_nodes) 0 = Some 10"
  "ug_edge (ug_of two_nodes) u v = None"
proof -
  note inv = mg_inv_new_node [OF mg_inv_empty, of 10]
  show "mg_inv two_nodes" unfolding two_nodes_def by (rule mg_inv_new_node [OF inv])
  show "live two_nodes 0" "live two_nodes 1"
    by (simp_all add: two_nodes_def live_new_node empty_graph_def)
  show "ug_node (ug_of two_nodes) 0 = Some 10"
    unfolding two_nodes_def ug_of_new_node [OF inv] ug_of_new_node [OF mg_inv_empty]
    by (simp add: ug_add_node_def empty_graph_def)
  show "ug_edge (ug_of two_nodes) u v = None"
    unfolding two_nodes_def ug_of_new_node [OF inv] ug_of_new_node [OF mg_inv_empty]
    by (simp add: ug_add_node_def edge_val_def empty_graph_def live_def)
qed

definition one_edge :: "(nat, nat) morph_graph" where
  "one_edge = fst (addEdge 5 two_nodes 0 1)"

lemma one_edge_laws:
  "mg_inv one_edge" "edge_val one_edge 0 1 = Some 5" "live one_edge 0"
  unfolding one_edge_def using two_nodes_laws
  by (simp_all add: mg_inv_addEdge edge_val_addEdge)

section \<open>The operations refine the contract\<close>



lemma removeEdge_abs:
  assumes "mg_inv g" "edge_val g src dst \<noteq> None"
  shows "\<exists>h. removeEdge g src (findEdge g src dst) = Inr h \<and> mg_inv h \<and>
    ug_of h = ug_remove_edge src dst (ug_of g)"
proof -
  have l: "live g src" "live g dst" using assms(2) by (auto dest: edge_val_live)
  have neq: "src \<noteq> dst" using assms edge_val_irrefl by metis
  obtain a where "linked g src dst a" using assms(2) edge_val_None [OF assms(1)] by auto
  from removeEdge_unlink [OF assms(1) l this] obtain h where
    h: "removeEdge g src (findEdge g src dst) = Inr h" "unlink g src dst h" by blast
  have "ug_of h = ug_remove_edge src dst (ug_of g)"
    using unlink_live [OF h(2)] h(2) edge_val_unlink [OF assms(1) l neq h(2)]
    by (intro ug_eqI ext) (simp_all add: ug_remove_edge_def same_pair_def unlink_def)
  with h mg_inv_unlink [OF assms(1) l neq h(2)] show ?thesis by blast
qed

text \<open>C20: \<open>removeEdge\<close> at the position \<open>findEdge\<close> gives for an edge of the graph removes exactly this edge,
  for both of its ends.\<close>

theorem removeEdge_refines:
  assumes "mg_inv g" "edge_val g src dst \<noteq> None"
  shows "\<exists>h. removeEdge g src (findEdge g src dst) = Inr h \<and> mg_inv h \<and>
    ug_of h = ug_remove_edge src dst (ug_of g)"
  by (rule removeEdge_abs [OF assms])

theorem removeEdge_refines_witness:
  "\<exists>h. removeEdge one_edge 0 (findEdge one_edge 0 1) = Inr h \<and> mg_inv h \<and> edge_val h 1 0 = None"
proof -
  obtain h where h: "removeEdge one_edge 0 (findEdge one_edge 0 1) = Inr h" "mg_inv h"
    "ug_of h = ug_remove_edge 0 1 (ug_of one_edge)"
    using removeEdge_refines [OF one_edge_laws(1), of 0 1] one_edge_laws(2) by auto
  have "ug_edge (ug_of h) 1 0 = None" unfolding h(3) by (simp add: ug_remove_edge_def same_pair_def)
  with h(1,2) show ?thesis by auto
qed

text \<open>C21: \<open>removeNode\<close> removes the node with all its edges, although the adjacency vectors of the
  neighbours keep their entries: no operation sees these any more.\<close>

theorem removeNode_refines:
  assumes "mg_inv g" "live g n"
  shows "mg_inv (removeNode g n) \<and> ug_of (removeNode g n) = ug_remove_node n (ug_of g)"
proof
  show "ug_of (removeNode g n) = ug_remove_node n (ug_of g)"
    using assms
    by (intro ug_eqI ext)
      (simp_all add: ug_remove_node_def live_removeNode node_removeNode edge_val_removeNode)
qed (rule mg_inv_removeNode [OF assms])

theorem removeNode_refines_witness:
  "mg_inv (removeNode one_edge 0) \<and> \<not> live (removeNode one_edge 0) 0 \<and>
   edge_val (removeNode one_edge 0) 1 0 = None"
proof -
  note r = removeNode_refines [OF one_edge_laws(1,3)]
  show ?thesis
    unfolding ug_of_eqD [OF r [THEN conjunct2]] using r by (simp add: ug_remove_node_def)
qed

text \<open>C22: data written through an edge iterator is seen from both ends of the edge and by no other
  edge, and reading it back through the iterator gives what was written.\<close>

theorem updEdgeData_refines:
  fixes h :: "'e \<Rightarrow> 'e"
  assumes "mg_inv g" "edge_val g src dst \<noteq> None"
  defines "g' \<equiv> updEdgeData g src (findEdge g src dst) h"
  shows "mg_inv g' \<and> ug_of g' = ug_upd_edge src dst h (ug_of g) \<and>
    getEdgeData g' src (findEdge g' src dst) = h (getEdgeData g src (findEdge g src dst))"
proof -
  have l: "live g src" "live g dst" "findEdge g src dst < length (edges (node g src))"
    using assms(2) by (auto simp: edge_val_def split: if_splits)
  note ev = edge_val_updEdgeData [OF assms(1) l, of h, folded g'_def]
  have "ug_of g' = ug_upd_edge src dst h (ug_of g)"
    by (intro ug_eqI ext) (simp_all add: ug_upd_edge_def same_pair_def ev, simp_all add: g'_def)
  moreover have "edge_val g' src dst = map_option h (edge_val g src dst)" by (simp add: ev)
  then have "getEdgeData g' src (findEdge g' src dst) = h (getEdgeData g src (findEdge g src dst))"
    using assms(2) by (auto simp: edge_val_def split: if_splits)
  moreover have "mg_inv g'" unfolding g'_def by (rule mg_inv_updEdgeData [OF assms(1)])
  ultimately show ?thesis by blast
qed

theorem updEdgeData_refines_witness:
  "let g' = updEdgeData one_edge 0 (findEdge one_edge 0 1) Suc
   in mg_inv g' \<and> edge_val g' 1 0 = Some 6"
proof -
  let ?g = "updEdgeData one_edge 0 (findEdge one_edge 0 1) Suc"
  have u: "mg_inv ?g" "ug_of ?g = ug_upd_edge 0 1 Suc (ug_of one_edge)"
    using updEdgeData_refines [OF one_edge_laws(1), of 0 1 Suc] one_edge_laws(2) by simp_all
  have "edge_val one_edge 1 0 = Some 5"
    using edge_val_sym [OF one_edge_laws(1), of 0 1] one_edge_laws(2) by simp
  then have "edge_val ?g 1 0 = Some 6"
    unfolding ug_of_eqD(2) [OF u(2)] by (simp add: ug_upd_edge_def same_pair_def)
  with u(1) show ?thesis by (simp add: Let_def)
qed

section \<open>Graphs a client can build\<close>

text \<open>The calls of a client: nodes are created and added, edges are added between different nodes of the
  graph, removed and written through the iterator \<open>findEdge\<close> gives, and nodes are written and removed.\<close>

inductive graph_step :: "('n, 'e) morph_graph \<Rightarrow> ('n, 'e) morph_graph \<Rightarrow> bool" where
  step_createNode: "graph_step g (addNode (fst (createNode g x)) (snd (createNode g x)))"
| step_updData: "live g n \<Longrightarrow> graph_step g (updData g n h)"
| step_removeNode: "live g n \<Longrightarrow> graph_step g (removeNode g n)"
| step_addEdge: "live g src \<Longrightarrow> live g dst \<Longrightarrow> src \<noteq> dst \<Longrightarrow> graph_step g (fst (addEdge d g src dst))"
| step_removeEdge: "edge_val g src dst \<noteq> None \<Longrightarrow> removeEdge g src (findEdge g src dst) = Inr g' \<Longrightarrow> graph_step g g'"
| step_updEdgeData: "edge_val g src dst \<noteq> None \<Longrightarrow> graph_step g (updEdgeData g src (findEdge g src dst) f)"

lemma graph_step_inv:
  assumes "graph_step g g'" "mg_inv g"
  shows "mg_inv g'"
  using assms
proof cases
  case (step_createNode x)
  have "snd (createNode g x) = length (nodes g)" by (simp add: createNode_def)
  then show ?thesis using mg_inv_new_node [OF assms(2), of x] by (simp add: step_createNode new_node_def)
next
  case (step_updData n h)
  then show ?thesis using mg_inv_updData [OF assms(2)] by (simp add: live_def)
next
  case (step_removeEdge src dst)
  then show ?thesis using removeEdge_abs [OF assms(2) step_removeEdge(1)] by auto
qed (simp_all add: assms(2) mg_inv_removeNode mg_inv_addEdge mg_inv_updEdgeData)



end
