(* ===== verification/Srtm_Laws.thy ===== *)
theory Srtm_Laws
  imports Srtm_Reader
begin

text \<open>
  Correctness of the SRTM reader (\<open>readers/SrtmReader.cpp\<close>): the reader always ends, an area inside
  one tile is read as the big-endian samples at its positions, and the outliers are replaced as a
  simple reference definition says.
\<close>

section \<open>Rectangular grids\<close>

definition shape :: "nat \<Rightarrow> nat \<Rightarrow> 'a list list \<Rightarrow> bool" where
  "shape R C md \<longleftrightarrow> length md = R \<and> (\<forall>i < R. length (md ! i) = C)"

lemma shapeD [dest?]: "shape R C md \<Longrightarrow> length md = R" "shape R C md \<Longrightarrow> i < R \<Longrightarrow> length (md ! i) = C"
  by (simp_all add: shape_def)

lemma shape_init: "shape R C (init_map_data R C)"
  by (simp add: shape_def init_map_data_def)

lemma store_cell_shape:
  assumes "shape R C md" "i < R" "j < C"
  shows "\<exists>md'. store_cell md i j v = Inr md' \<and> shape R C md' \<and>
    (\<forall>a < R. \<forall>b < C. md' ! a ! b = (if a = i \<and> b = j then v else md ! a ! b))"
  using assms by (auto simp: store_cell_def shape_def nth_list_update)

lemma store_row_shape:
  assumes "shape R C md" "row < R" "col + length ws \<le> C"
  shows "\<exists>md'. store_row row col ws md = Inr md' \<and> shape R C md' \<and>
    (\<forall>a < R. \<forall>b < C. md' ! a ! b = (if a = row \<and> col \<le> b \<and> b < col + length ws
       then map_option (\<lambda>v. real (unat v)) (ws ! (b - col)) else md ! a ! b))"
  using assms
proof (induction ws arbitrary: col md)
  case (Cons w ws)
  then have "col < C" by simp
  from store_cell_shape [OF Cons.prems(1,2) this, of "map_option (\<lambda>v. real (unat v)) w"]
  obtain md1 where md1: "store_cell md row col (map_option (\<lambda>v. real (unat v)) w) = Inr md1" "shape R C md1"
    "\<forall>a < R. \<forall>b < C. md1 ! a ! b = (if a = row \<and> b = col then map_option (\<lambda>v. real (unat v)) w else md ! a ! b)"
    by blast
  have "Suc col + length ws \<le> C" using Cons.prems(3) by simp
  from Cons.IH [OF md1(2) Cons.prems(2) this] obtain md2 where
    md2: "store_row row (Suc col) ws md1 = Inr md2" "shape R C md2"
    "\<forall>a < R. \<forall>b < C. md2 ! a ! b = (if a = row \<and> Suc col \<le> b \<and> b < Suc col + length ws
       then map_option (\<lambda>v. real (unat v)) (ws ! (b - Suc col)) else md1 ! a ! b)"
    by blast
  have "md2 ! a ! b = (if a = row \<and> col \<le> b \<and> b < col + length (w # ws)
       then map_option (\<lambda>v. real (unat v)) ((w # ws) ! (b - col)) else md ! a ! b)"
    if "a < R" "b < C" for a b
    using md1(3) md2(3) that by (cases "b = col"; cases "b < col") (auto simp: nth_Cons')
  with md1(1) md2(1,2) show ?case by auto
qed auto

section \<open>The samples of a file\<close>

definition sample_at :: "8 word list \<Rightarrow> nat \<Rightarrow> nat" where
  "sample_at bytes k = 256 * unat (bytes ! (2 * k)) + unat (bytes ! (2 * k + 1))"

lemma words_from_full:
  "2 * length ws \<le> length bs \<Longrightarrow>
     words_from bs ws = map (\<lambda>k. Some (u16_le (bs ! (2 * k)) (bs ! (2 * k + 1)))) [0..<length ws]"
proof (induction bs ws rule: words_from.induct)
  case (2 b0 b1 bs w ws)
  then show ?case by (simp add: upt_conv_Cons map_Suc_upt [symmetric] del: upt_Suc)
qed auto

lemma fread_words_full:
  assumes "2 * (k + length buffer) \<le> length bytes"
  shows "fread_words bytes (2 * k) buffer =
    (map (\<lambda>j. Some (u16_le (bytes ! (2 * (k + j))) (bytes ! (2 * (k + j) + 1)))) [0..<length buffer],
     2 * (k + length buffer))"
  using assms by (simp add: fread_words_def words_from_full PIXEL_SIZE_def algebra_simps)

lemma swapped_sample:
  "real (unat (change_bytes_order (u16_le (bytes ! (2 * k)) (bytes ! (2 * k + 1))))) =
     real (sample_at bytes k)"
  by (simp add: change_bytes_order_u16_le unat_u16_le sample_at_def)

lemma read_rows_shape:
  assumes "shape R C md" "row + rows \<le> R" "col + length buffer \<le> C" "length buffer \<le> 1201"
    and "2 * (k + rows * 1201) \<le> length bytes + 2 * (1201 - length buffer)"
  shows "\<exists>md'. read_rows bytes rows row col (2 * k) buffer md = Inr md' \<and> shape R C md' \<and>
    (\<forall>a < R. \<forall>b < C. md' ! a ! b =
      (if row \<le> a \<and> a < row + rows \<and> col \<le> b \<and> b < col + length buffer
       then Some (real (sample_at bytes (k + (a - row) * 1201 + (b - col)))) else md ! a ! b))"
  using assms
proof (induction rows arbitrary: row k buffer md)
  case (Suc rows)
  let ?n = "length buffer"
  define ws where "ws = map (\<lambda>j. Some (change_bytes_order
    (u16_le (bytes ! (2 * (k + j))) (bytes ! (2 * (k + j) + 1))))) [0..<?n]"
  have len: "2 * (k + ?n) \<le> length bytes" using Suc.prems(4,5) by simp
  have f: "fseek (int (2 * (k + ?n)) + (cells_in_degree - int ?n) * PIXEL_SIZE) = Some (2 * (k + 1201))"
    using Suc.prems(4) by (simp add: fseek_def cells_in_degree_def PIXEL_SIZE_def nat_eq_iff)
  have row: "row < R" "col + length ws \<le> C" using Suc.prems by (simp_all add: ws_def)
  from store_row_shape [OF Suc.prems(1) row] obtain md1 where
    md1: "store_row row col ws md = Inr md1" "shape R C md1"
    "\<forall>a < R. \<forall>b < C. md1 ! a ! b = (if a = row \<and> col \<le> b \<and> b < col + ?n
       then map_option (\<lambda>v. real (unat v)) (ws ! (b - col)) else md ! a ! b)"
    by (auto simp: ws_def)
  have w0: "map_option (\<lambda>v. real (unat v)) (ws ! j) = Some (real (sample_at bytes (k + j)))" if "j < ?n" for j
    using that swapped_sample [of bytes "k + j"] by (simp add: ws_def)
  have w: "map_option (\<lambda>v. real (unat v)) (ws ! (b - col)) = Some (real (sample_at bytes (k + (b - col))))"
    if "col \<le> b" "b < col + ?n" for b
    by (rule w0) (use that in simp)
  have "length ws = ?n" by (simp add: ws_def)
  with Suc.IH [OF md1(2), of "Suc row" ws "k + 1201"] Suc.prems obtain md2 where
    md2: "read_rows bytes rows (Suc row) col (2 * (k + 1201)) ws md1 = Inr md2" "shape R C md2"
    "\<forall>a < R. \<forall>b < C. md2 ! a ! b =
      (if Suc row \<le> a \<and> a < Suc row + rows \<and> col \<le> b \<and> b < col + ?n
       then Some (real (sample_at bytes (k + 1201 + (a - Suc row) * 1201 + (b - col)))) else md1 ! a ! b)"
    by auto
  have "read_rows bytes (Suc rows) row col (2 * k) buffer md = Inr md2"
    unfolding read_rows.simps fread_words_full [OF len] Let_def prod.case f option.case
    using md1(1) md2(1) by (simp add: ws_def comp_def)
  moreover have "md2 ! a ! b =
      (if row \<le> a \<and> a < row + Suc rows \<and> col \<le> b \<and> b < col + ?n
       then Some (real (sample_at bytes (k + (a - row) * 1201 + (b - col)))) else md ! a ! b)"
    if "a < R" "b < C" for a b
  proof (cases "row < a")
    case True
    then have "(a - row) * 1201 = 1201 + (a - Suc row) * 1201"
      by (metis Suc_diff_Suc mult_Suc)
    with True md1(3) md2(3) that show ?thesis by (simp add: algebra_simps)
  qed (use md1(3) md2(3) that w in auto)
  ultimately show ?case using md2(2) by blast
qed auto

section \<open>Outliers\<close>

text \<open>A grid all of whose cells are set, and the reference definition of what the pass over the outliers
  leaves in a cell: its height, or else the height left in the cell above.\<close>

definition grid_is :: "nat \<Rightarrow> nat \<Rightarrow> (nat \<Rightarrow> nat \<Rightarrow> real) \<Rightarrow> real option list list \<Rightarrow> bool" where
  "grid_is R C f md \<longleftrightarrow> shape R C md \<and> (\<forall>a < R. \<forall>b < C. md ! a ! b = Some (f a b))"

fun cleaned :: "(nat \<Rightarrow> nat \<Rightarrow> real) \<Rightarrow> nat \<Rightarrow> nat \<Rightarrow> real" where
  "cleaned f 0 j = (if is_outlier (f 0 j) then f 1 j else f 0 j)"
| "cleaned f (Suc i) j = (if is_outlier (f (Suc i) j) then cleaned f i j else f (Suc i) j)"

text \<open>The row an outlier of row \<open>i\<close> is replaced from.\<close>

definition source_row :: "nat \<Rightarrow> nat" where
  "source_row i = (if i > 0 then i - 1 else 1)"

lemma grid_is_cong:
  assumes "grid_is R C f md" "\<And>a b. a < R \<Longrightarrow> b < C \<Longrightarrow> f a b = h a b"
  shows "grid_is R C h md"
  using assms by (auto simp: grid_is_def)

lemma skip_outlier_at_grid:
  assumes "grid_is R C f md" "2 \<le> R" "i < R" "j < C"
  shows "\<exists>md'. skip_outlier_at i j md = Inr md' \<and>
    grid_is R C (\<lambda>a b. if a = i \<and> b = j \<and> is_outlier (f i j) then f (source_row i) j else f a b) md'"
proof -
  have sh: "shape R C md" using assms(1) by (simp add: grid_is_def)
  have c: "md ! a ! b = Some (f a b)" if "a < R" "b < C" for a b
    using assms(1) that by (simp add: grid_is_def)
  note len = shapeD [OF sh]
  let ?k = "if i > 0 then int i - 1 else int i + 1"
  have k: "0 \<le> ?k" "?k < int R" "nat ?k = source_row i" "source_row i < R"
    using assms(2,3) by (auto simp: source_row_def)
  have r: "skip_outlier_at i j md =
      (if is_outlier (f i j) then store_cell md i j (Some (f (source_row i) j)) else Inr md)"
    using assms(3,4) k sh by (simp add: skip_outlier_at_def len c shapeD)
  from store_cell_shape [OF sh assms(3,4), where v = "Some (f (source_row i) j)"] c assms(1) show ?thesis
    unfolding r by (cases "is_outlier (f i j)") (auto simp: grid_is_def)
qed

lemma skip_outliers_row_grid:
  assumes "grid_is R C f md" "2 \<le> R" "i < R" "set js \<subseteq> {..<C}"
  shows "\<exists>md'. skip_outliers_row i js md = Inr md' \<and>
    grid_is R C (\<lambda>a b. if a = i \<and> b \<in> set js \<and> is_outlier (f i b) then f (source_row i) b else f a b) md'"
  using assms
proof (induction js arbitrary: md f)
  case (Cons j js)
  have "source_row i \<noteq> i" by (auto simp: source_row_def)
  let ?h = "\<lambda>a b. if a = i \<and> b = j \<and> is_outlier (f i j) then f (source_row i) j else f a b"
  from Cons.prems skip_outlier_at_grid [OF Cons.prems(1-3), of j] obtain md1 where
    md1: "skip_outlier_at i j md = Inr md1" "grid_is R C ?h md1" by auto
  from Cons.IH [OF md1(2) Cons.prems(2,3)] Cons.prems(4) obtain md2 where
    md2: "skip_outliers_row i js md1 = Inr md2" "grid_is R C (\<lambda>a b. if a = i \<and> b \<in> set js \<and> is_outlier (?h i b)
       then ?h (source_row i) b else ?h a b) md2" by auto
  then show ?case
    using md1(1) \<open>source_row i \<noteq> i\<close> by (auto intro!: grid_is_cong [OF md2(2)])
qed (auto intro!: grid_is_cong)

lemma skip_outliers_rows_grid:
  assumes "grid_is R C (\<lambda>a b. if a < k then cleaned f a b else f a b) md" "2 \<le> R" "k \<le> R"
  shows "\<exists>md'. skip_outliers_rows [k..<R] C md = Inr md' \<and> grid_is R C (cleaned f) md'"
  using assms
proof (induction "R - k" arbitrary: k md)
  case 0
  then have "grid_is R C (cleaned f) md" by (intro grid_is_cong [OF "0.prems"(1)]) simp
  with 0 show ?case by simp
next
  case (Suc n)
  let ?f = "\<lambda>k a b. if a < k then cleaned f a b else f a b"
  have "k < R" using Suc(2) by simp
  have "set [0..<C] \<subseteq> {..<C}" by auto
  from skip_outliers_row_grid [OF Suc.prems(1,2) \<open>k < R\<close> this] obtain md1 where
    md1: "skip_outliers_row k [0..<C] md = Inr md1" "grid_is R C (\<lambda>a b. if a = k \<and> b \<in> set [0..<C] \<and>
       is_outlier (?f k k b) then ?f k (source_row k) b else ?f k a b) md1" by blast
  have g: "grid_is R C (?f (Suc k)) md1"
    by (rule grid_is_cong [OF md1(2)]) (cases k; auto simp: source_row_def less_Suc_eq)
  have "n = R - Suc k" "Suc k \<le> R" using Suc(2) by simp_all
  from Suc(1) [OF this(1) g Suc.prems(2) this(2)] obtain md2 where
    "skip_outliers_rows [Suc k..<R] C md1 = Inr md2" "grid_is R C (cleaned f) md2" by blast
  with md1(1) \<open>k < R\<close> show ?case by (simp add: upt_conv_Cons)
qed

lemma skip_outliers_grid:
  assumes "grid_is R C f md" "2 \<le> R"
  shows "\<exists>md'. skip_outliers md R C = Inr md' \<and> grid_is R C (cleaned f) md'"
  unfolding skip_outliers_def
  by (rule skip_outliers_rows_grid) (use assms in \<open>auto intro: grid_is_cong\<close>)

lemma cleaned_sane: "\<not> is_outlier (f i j) \<Longrightarrow> cleaned f i j = f i j"
  by (cases i) simp_all

lemma cleaned_not_outlier:
  assumes "\<not> is_outlier (f 0 j) \<or> \<not> is_outlier (f 1 j)"
  shows "\<not> is_outlier (cleaned f i j)"
  using assms by (induction i) auto

section \<open>The loops over the tiles end\<close>

lemma floor2_of_int [simp]: "floor2 (of_int z) = of_int z"
  by (simp add: floor2_def Let_def is_greater_def EPSILON_def)

lemma floor2_is_int: "\<exists>z. floor2 a = of_int z"
  by (auto simp: floor2_def Let_def intro: exI [of _ "_ + 1"])

text \<open>The western pointer is an integer after the first tile and then grows by one per tile.\<close>

lemma read_tiles_row_int_ends:
  "\<exists>r. read_tiles_row files map_dir east north rows row col (of_int z) east_ptr md = Some r"
proof (induction "nat \<lceil>east - of_int z\<rceil>" arbitrary: z col east_ptr md rule: less_induct)
  case less
  show ?case
  proof (cases "is_lesser (of_int z) east")
    case True
    then have "nat \<lceil>east - of_int (z + 1)\<rceil> < nat \<lceil>east - of_int z\<rceil>"
      by (simp add: is_lesser_def EPSILON_def) linarith
    note IH = less [OF this]
    have "floor2 (of_int z + 1) = of_int (z + 1)" using floor2_of_int [of "z + 1"] by simp
    with True IH show ?thesis
      by (subst read_tiles_row.simps) (auto simp: Let_def split: sum.split)
  qed (subst read_tiles_row.simps, simp)
qed

lemma read_tiles_row_ends:
  "\<exists>r. read_tiles_row files map_dir east north rows row col west_ptr east_ptr md = Some r"
proof -
  obtain z where "floor2 (west_ptr + 1) = of_int z" using floor2_is_int by blast
  then show ?thesis
    using read_tiles_row_int_ends [where z = z]
    by (subst read_tiles_row.simps) (auto simp: Let_def split: sum.split)
qed

text \<open>The northern pointer goes down by one per row of tiles, or jumps to an integer once.\<close>

lemma read_tiles_step:
  assumes "\<And>row south_ptr md. \<exists>r. read_tiles files map_dir west east south row
      (if Utils_equals (floor2 north_ptr) north_ptr then north_ptr - 1 else floor2 north_ptr) south_ptr md = Some r"
  shows "\<exists>r. read_tiles files map_dir west east south row north_ptr south_ptr md = Some r"
proof -
  obtain r where r: "read_tiles_row files map_dir east (border_to_int north_ptr)
      (nat \<bar>border_to_int north_ptr - border_to_int south_ptr\<bar>) row 0 west
      (if is_greater (ceil2 west) east then east else ceil2 west) md = Some r"
    using read_tiles_row_ends by blast
  show ?thesis
    using assms by (subst read_tiles.simps) (auto simp: Let_def r split: sum.split)
qed

lemma read_tiles_int_ends:
  "\<exists>r. read_tiles files map_dir west east south row (of_int z) south_ptr md = Some r"
proof (induction "nat \<lceil>of_int z - south\<rceil>" arbitrary: z row south_ptr md rule: less_induct)
  case less
  show ?case
  proof (cases "is_greater (of_int z) south")
    case True
    then have "nat \<lceil>of_int (z - 1) - south\<rceil> < nat \<lceil>of_int z - south\<rceil>"
      by (simp add: is_greater_def EPSILON_def) linarith
    note IH = less [OF this]
    have e: "(if Utils_equals (floor2 (of_int z)) (of_int z) then of_int z - 1 else floor2 (of_int z)) =
        (of_int (z - 1) :: real)"
      by (simp add: Utils_equals_def)
    show ?thesis by (rule read_tiles_step, subst e, rule IH)
  qed (subst read_tiles.simps, simp)
qed

lemma read_tiles_ends:
  "\<exists>r. read_tiles files map_dir west east south row north_ptr south_ptr md = Some r"
proof (induction "nat \<lceil>north_ptr - south\<rceil>" arbitrary: north_ptr row south_ptr md rule: less_induct)
  case less
  show ?case
  proof (cases "is_greater north_ptr south")
    case True
    then have "nat \<lceil>(north_ptr - 1) - south\<rceil> < nat \<lceil>north_ptr - south\<rceil>"
      by (simp add: is_greater_def EPSILON_def) linarith
    note IH = less [OF this]
    obtain z where z: "floor2 north_ptr = of_int z" using floor2_is_int by blast
    show ?thesis
      by (rule read_tiles_step, cases "Utils_equals (floor2 north_ptr) north_ptr")
        (simp_all only: if_True if_False IH z read_tiles_int_ends)
  qed (subst read_tiles.simps, simp)
qed


section \<open>An area inside one tile\<close>

text \<open>The position \<open>n\<close> steps of the grid north or east of the corner of a tile.\<close>

definition grid_line :: "nat \<Rightarrow> nat \<Rightarrow> real" where
  "grid_line K n = real K + real n / 1200"

lemma border_to_int_grid_line: "border_to_int (grid_line K n) = int (K * 1200 + n)"
proof -
  have "grid_line K n * 1200 = of_int (int (K * 1200 + n))" by (simp add: grid_line_def algebra_simps)
  moreover have "c_round (of_int z) = z" if "0 \<le> z" for z using that by (simp add: c_round_def floor_eq_iff)
  ultimately show ?thesis
    unfolding border_to_int_def VALUES_IN_DEGREE_1200 by (metis of_int_numeral of_nat_0_le_iff)
qed

lemma floor2_grid_line:
  assumes "n < 1200"
  shows "floor2 (grid_line K n) = real K" "ceil2 (grid_line K n) = real K + 1"
proof -
  have "real n / 1200 < 1 - 2 * EPSILON" using assms by (simp add: EPSILON_def)
  then show "floor2 (grid_line K n) = real K" "ceil2 (grid_line K n) = real K + 1"
    using floor2_in_cell [of "real n / 1200" K] by (simp_all add: grid_line_def)
qed

lemma grid_line_1200: "grid_line K 1200 = real K + 1"
  by (simp add: grid_line_def)

lemma grid_line_cmp:
  "is_lesser (grid_line K m) (grid_line K n) \<longleftrightarrow> m < n"
  "is_greater (grid_line K m) (grid_line K n) \<longleftrightarrow> n < m"
  "Utils_equals (grid_line K m) (grid_line K n) \<longleftrightarrow> m = n"
proof -
  show "Utils_equals (grid_line K m) (grid_line K n) \<longleftrightarrow> m = n"
    by (auto simp: grid_line_def eps_defs field_simps abs_real_def split: if_splits)
qed (auto simp: grid_line_def eps_defs field_simps)

definition tile_name :: "string \<Rightarrow> nat \<Rightarrow> nat \<Rightarrow> string" where
  "tile_name map_dir L K =
     map_dir @ ''/N'' @ show_int 1 (int L) @ ''E'' @ show_int 3 (int K) @ ''.hgt''"

lemma c_mod_1200: "n < 1200 \<Longrightarrow> c_mod (int (K * 1200 + n)) 1200 = int n"
  by (simp add: c_mod_nonneg)

lemma get_filename_tile:
  assumes "0 < d" "d \<le> 1200" "a < 1200"
  shows "get_filename map_dir (int (K * 1200 + a)) (int (L * 1200 + d)) = tile_name map_dir L K"
proof -
  have "first_long_to_read (int (K * 1200 + a)) = int K"
    using assms(3) by (simp add: first_long_to_read_def c_div_nonneg)
  moreover have "first_lat_to_read (int (L * 1200 + d)) = int L"
  proof (cases "d = 1200")
    case True
    then show ?thesis by (simp add: first_lat_to_read_def c_div_nonneg c_mod_nonneg)
  next
    case False
    with assms show ?thesis
      using c_mod_1200 [of d L] by (simp add: first_lat_to_read_def c_div_nonneg)
  qed
  ultimately show ?thesis by (simp add: get_filename_def tile_name_def Let_def)
qed

lemma start_offset_tile:
  assumes "0 < d" "d \<le> 1200" "a < 1200"
  shows "start_offset (int (L * 1200 + d)) (int (K * 1200 + a)) = int (2 * ((1200 - d) * 1201 + a))"
proof -
  have "c_mod (1200 - c_mod (int (L * 1200 + d)) 1200) 1200 = int (1200 - d)"
  proof (cases "d = 1200")
    case True
    then show ?thesis by (simp add: c_mod_nonneg)
  next
    case False
    then have "c_mod (int (L * 1200 + d)) 1200 = int d" using assms(2) by (intro c_mod_1200) simp
    moreover have "(1200 - int d) mod 1200 = 1200 - int d"
      using assms by (intro mod_pos_pos_trivial) auto
    then have "c_mod (1200 - int d) 1200 = 1200 - int d"
      using c_mod_nonneg [of "1200 - int d" 1200] assms(2) by simp
    ultimately show ?thesis using assms(2) by simp
  qed
  then show ?thesis
    using c_mod_1200 [OF assms(3), of K]
    by (simp add: start_offset_def cells_in_degree_def PIXEL_SIZE_def)
qed

text \<open>The samples of the area whose north-western corner is at row \<open>1200 - d\<close> and column \<open>a\<close> of the
  tile.\<close>

definition tile_sample :: "8 word list \<Rightarrow> nat \<Rightarrow> nat \<Rightarrow> nat \<Rightarrow> nat \<Rightarrow> real" where
  "tile_sample bytes d a i j = real (sample_at bytes ((1200 - d + i) * 1201 + a + j))"

lemma read_from_file_tile:
  assumes "files (tile_name map_dir L K) = Some bytes" "length (tile_name map_dir L K) < 256"
    and "length bytes = 2 * 1201 * 1201" "c < d" "d \<le> 1200" "a < b" "b \<le> 1200"
    and "shape (d - c) (b - a) md"
  shows "\<exists>md'. read_from_file files (int (L * 1200 + d)) (int (K * 1200 + a)) (d - c) (b - a) 0 0 md map_dir =
      Inr md' \<and> grid_is (d - c) (b - a) (tile_sample bytes d a) md'"
proof -
  let ?k = "(1200 - d) * 1201 + a"
  have "(1200 - d) * 1201 + (d - c) * 1201 = (1200 - c) * 1201"
    using assms(4,5) by (simp add: distrib_right [symmetric])
  then have "2 * (?k + (d - c) * 1201) \<le> length bytes + 2 * (1201 - length (replicate (b - a) None))"
    using assms(3,6,7) by simp
  note len = this
  have "0 + (d - c) \<le> d - c" "0 + length (replicate (b - a) None) \<le> b - a"
    "length (replicate (b - a) None) \<le> 1201"
    using assms(6,7) by simp_all
  from read_rows_shape [OF assms(8) this len] obtain md' where
    md': "read_rows bytes (d - c) 0 0 (2 * ?k) (replicate (b - a) None) md = Inr md'" "shape (d - c) (b - a) md'"
    "\<forall>i < d - c. \<forall>j < b - a. md' ! i ! j = Some (real (sample_at bytes (?k + i * 1201 + j)))"
    by (auto simp del: distrib_left_numeral)
  have "?k + i * 1201 + j = (1200 - d + i) * 1201 + a + j" for i j by (simp add: algebra_simps)
  with md'(2,3) have "grid_is (d - c) (b - a) (tile_sample bytes d a) md'"
    by (simp add: grid_is_def tile_sample_def)
  moreover have "0 < d" "a < 1200" using assms(4,6,7) by simp_all
  ultimately show ?thesis
    using assms(1,2,5) md'(1)
    by (simp add: read_from_file_def get_filename_tile start_offset_tile fseek_def del: of_nat_add of_nat_mult)
qed

text \<open>The pointers of the loops: the southern pointer is the southern border from the start, and one
  step of each loop leaves the area.\<close>

lemma read_tiles_row_tile:
  assumes "read_from_file files (int (L * 1200 + d)) (int (K * 1200 + a)) rows (b - a) 0 0 md map_dir = Inr md'"
    and "a < b" "b \<le> 1200"
  shows "read_tiles_row files map_dir (grid_line K b) (int (L * 1200 + d)) rows 0 0 (grid_line K a)
      (grid_line K b) md = Some (Inr md')"
proof -
  have "floor2 (grid_line K a + 1) = real (Suc K)"
    using floor2_grid_line(1) [of a "Suc K"] assms(2,3) by (simp add: grid_line_def algebra_simps)
  then have f: "floor2 (grid_line K a + 1) = grid_line K 1200" by (simp add: grid_line_1200)
  have n: "nat \<bar>border_to_int (grid_line K b) - int (K * 1200 + a)\<bar> = b - a"
    using assms(2) by (simp add: border_to_int_grid_line)
  have stop: "read_tiles_row files map_dir (grid_line K b) (int (L * 1200 + d)) rows 0 col (grid_line K 1200)
      ptr md' = Some (Inr md')" for col ptr
    using assms(3) by (subst read_tiles_row.simps) (simp add: grid_line_cmp)
  show ?thesis
    by (subst read_tiles_row.simps)
      (simp only: grid_line_cmp(1) assms(1,2) if_True Let_def n f border_to_int_grid_line [of K a] sum.case stop)
qed

lemma read_from_multiple_files_tile:
  assumes "read_from_file files (int (L * 1200 + d)) (int (K * 1200 + a)) (d - c) (b - a) 0 0 md map_dir = Inr md'"
    and "c < d" "d \<le> 1200" "a < b" "b \<le> 1200"
  shows "read_from_multiple_files files (grid_line K a) (grid_line L d) (grid_line K b) (grid_line L c) map_dir md =
    Some (Inr md')"
proof -
  let ?f = "floor2 (grid_line L d)"
  have f: "?f = grid_line L (if d = 1200 then 1200 else 0)"
  proof (cases "d = 1200")
    case True
    then show ?thesis
      using floor2_grid_line(1) [of 0 "Suc L"] by (simp add: grid_line_def add.commute)
  next
    case False
    then show ?thesis using floor2_grid_line(1) [of d L] assms(3) by (simp add: grid_line_def)
  qed
  have low: "grid_line L 1200 - 1 = grid_line L 0" by (simp add: grid_line_def)
  have sp: "(let south_ptr = if is_lesser ?f (grid_line L c) then grid_line L c else ?f;
       south_ptr = if Utils_equals (grid_line L d) south_ptr
         then (if is_lesser (grid_line L d - 1) (grid_line L c) then grid_line L c else grid_line L d - 1)
         else south_ptr in south_ptr) = grid_line L c"
    using assms(2,3) unfolding f by (cases "d = 1200"; cases "c = 0") (simp_all add: Let_def grid_line_cmp low)
  have next_ptr: "(if Utils_equals ?f (grid_line L d) then grid_line L d - 1 else ?f) = grid_line L 0"
    using assms(2,3) unfolding f by (cases "d = 1200") (simp_all add: grid_line_cmp low)
  have ep: "(if is_greater (ceil2 (grid_line K a)) (grid_line K b) then grid_line K b
      else ceil2 (grid_line K a)) = grid_line K b"
    using assms(4,5) grid_line_cmp(2) [of K 1200 b]
    by (cases "b = 1200") (simp_all add: floor2_grid_line grid_line_1200)
  have n: "nat \<bar>int (L * 1200 + d) - border_to_int (grid_line L c)\<bar> = d - c"
    using assms(2) by (simp add: border_to_int_grid_line)
  have stop: "read_tiles files map_dir (grid_line K a) (grid_line K b) (grid_line L c) row (grid_line L 0)
      ptr md' = Some (Inr md')" for row ptr
    by (subst read_tiles.simps) (simp add: grid_line_cmp)
  show ?thesis
    unfolding read_from_multiple_files_def Let_def sp [unfolded Let_def]
    by (subst read_tiles.simps)
      (simp only: grid_line_cmp(2) assms(2) if_True Let_def border_to_int_grid_line [of L d] n ep next_ptr
        read_tiles_row_tile [OF assms(1,4,5)] bind.bind_lunit sum.case stop)
qed

lemma grid_line_mono: "m < n \<Longrightarrow> \<not> grid_line K m > grid_line K n"
  by (simp add: grid_line_def)


lemma show_int_2_digits:
  assumes "10 \<le> n" "n < 100"
  shows "length (show_int p (int n)) = max p 2"
proof -
  have "n div 10 < 10" using assms(2) by simp
  then have "digits_of n = [digit_char (n div 10), digit_char (n mod 10)]"
    using assms by (simp add: digits_of.simps)
  then show ?thesis by (auto simp: show_int_def Let_def max_def)
qed


text \<open>C36: on a grid of at least two rows the pass over the outliers gives in every cell the reference
  value. So it keeps all plausible heights, and it leaves no outlier in a column with a plausible
  height in one of its first two cells.\<close>

theorem skip_outliers_correct:
  assumes "grid_is R C f md" "2 \<le> R"
  shows "\<exists>md'. skip_outliers md R C = Inr md' \<and> grid_is R C (cleaned f) md' \<and>
    (\<forall>i j. \<not> is_outlier (f i j) \<longrightarrow> cleaned f i j = f i j) \<and>
    (\<forall>j. \<not> is_outlier (f 0 j) \<or> \<not> is_outlier (f 1 j) \<longrightarrow> (\<forall>i. \<not> is_outlier (cleaned f i j)))"
  using skip_outliers_grid [OF assms] cleaned_sane [of f] cleaned_not_outlier [of f] by blast

theorem skip_outliers_correct_witness:
  "\<exists>md'. skip_outliers [[Some 5], [Some 200], [Some 9999]] 3 1 = Inr md' \<and>
     md' ! 0 ! 0 = Some 200 \<and> md' ! 2 ! 0 = Some 200"
proof -
  let ?f = "\<lambda>i (j :: nat). [5, 200, 9999 :: real] ! i"
  have "grid_is 3 1 ?f [[Some 5], [Some 200], [Some 9999]]"
    by (auto simp: grid_is_def shape_def less_Suc_eq numeral_3_eq_3)
  from skip_outliers_correct [OF this] obtain md' where
    "skip_outliers [[Some 5], [Some 200], [Some 9999]] 3 1 = Inr md'" "grid_is 3 1 (cleaned ?f) md'"
    by auto
  moreover have "cleaned ?f 0 0 = 200" "cleaned ?f 2 0 = 200"
    by (simp_all add: is_outlier_def numeral_2_eq_2)
  ultimately show ?thesis by (auto simp: grid_is_def)
qed

section \<open>File names west of Greenwich\<close>

text \<open>For a border west of Greenwich the name is that of a tile east of it.\<close>

theorem get_filename_west: "get_filename ''data'' (- 1800) 60600 = ''data/N50E000.hgt''"
proof -
  have "replicate 2 x = [x, x]" for x :: char by (simp add: numeral_2_eq_2)
  then show ?thesis
    by (simp add: get_filename_def first_lat_to_read_def first_long_to_read_def c_div_def c_mod_def Let_def
        show_int_def digits_of.simps digit_char_simps)
qed

end
