(* ===== verification/Polar_Stereographic.thy ===== *)
theory Polar_Stereographic
  imports Tran_Merc
begin

text \<open>
  \<open>libmgrs/polarst.c\<close>: the polar stereographic projection. The record \<open>polar\<close> holds the static
  variables of the file. The functions return an error code, and write their outputs only when it is
  zero: an output that was not written is \<open>None\<close>. \<open>pow(x, y)\<close> is \<open>x powr y\<close>, which agrees with C for
  the positive bases that occur for an eccentricity below 1.
\<close>

unbundle bit_operations_syntax

section \<open>Error codes\<close>

definition POLAR_NO_ERROR :: int where "POLAR_NO_ERROR = 0x0000"
definition POLAR_LAT_ERROR :: int where "POLAR_LAT_ERROR = 0x0001"
definition POLAR_LON_ERROR :: int where "POLAR_LON_ERROR = 0x0002"
definition POLAR_ORIGIN_LAT_ERROR :: int where "POLAR_ORIGIN_LAT_ERROR = 0x0004"
definition POLAR_ORIGIN_LON_ERROR :: int where "POLAR_ORIGIN_LON_ERROR = 0x0008"
definition POLAR_EASTING_ERROR :: int where "POLAR_EASTING_ERROR = 0x0010"
definition POLAR_NORTHING_ERROR :: int where "POLAR_NORTHING_ERROR = 0x0020"
definition POLAR_A_ERROR :: int where "POLAR_A_ERROR = 0x0040"
definition POLAR_INV_F_ERROR :: int where "POLAR_INV_F_ERROR = 0x0080"
definition POLAR_RADIUS_ERROR :: int where "POLAR_RADIUS_ERROR = 0x0100"

lemmas polar_codes =
  POLAR_NO_ERROR_def POLAR_LAT_ERROR_def POLAR_LON_ERROR_def POLAR_ORIGIN_LAT_ERROR_def
  POLAR_ORIGIN_LON_ERROR_def POLAR_EASTING_ERROR_def POLAR_NORTHING_ERROR_def POLAR_A_ERROR_def
  POLAR_INV_F_ERROR_def POLAR_RADIUS_ERROR_def

section \<open>State\<close>

definition TWO_PI :: real where "TWO_PI = 2 * PI_C"
definition PI_Over_4 :: real where "PI_Over_4 = PI_C / 4"

record polar =
  Polar_a :: real
  Polar_f :: real
  Polar_es :: real
  Polar_es_OVER_2 :: real
  Southern_Hemisphere :: real
  Polar_tc :: real
  Polar_e4 :: real
  Polar_a_mc :: real
  two_Polar_a :: real
  Polar_Origin_Lat :: real
  Polar_Origin_Long :: real
  Polar_False_Easting :: real
  Polar_False_Northing :: real
  Polar_Delta_Easting :: real
  Polar_Delta_Northing :: real

definition polar_init :: polar where
  "polar_init =
    \<lparr>Polar_a = 6378137, Polar_f = 1 / (298257223563 / 10 ^ 9),
     Polar_es = 8181919084262188000 / 10 ^ 20, Polar_es_OVER_2 = 40909595421311 / 10 ^ 15,
     Southern_Hemisphere = 0, Polar_tc = 1, Polar_e4 = 10033565552493 / 10 ^ 13,
     Polar_a_mc = 6378137, two_Polar_a = 12756274,
     Polar_Origin_Lat = (PI_C * 90) / 180, Polar_Origin_Long = 0,
     Polar_False_Easting = 0, Polar_False_Northing = 0,
     Polar_Delta_Easting = 12713601, Polar_Delta_Northing = 12713601\<rparr>"

definition POLAR_POW :: "polar \<Rightarrow> real \<Rightarrow> real" where
  "POLAR_POW s EsSin = ((1 - EsSin) / (1 + EsSin)) powr Polar_es_OVER_2 s"

section \<open>From geodetic to polar stereographic\<close>

text \<open>The difference of longitude, brought into the range from \<open>- PI\<close> to \<open>PI\<close>.\<close>

definition polar_dlam :: "polar \<Rightarrow> real \<Rightarrow> real" where
  "polar_dlam s Longitude =
     (let dlam = Longitude - Polar_Origin_Long s;
          dlam = (if dlam > PI_C then dlam - TWO_PI else dlam)
      in if dlam < - PI_C then dlam + TWO_PI else dlam)"

text \<open>The distance of a position from the pole on the map.\<close>

definition polar_rho :: "polar \<Rightarrow> real \<Rightarrow> real" where
  "polar_rho s Latitude =
     (let slat = sin Latitude;
          essin = Polar_es s * slat;
          pow_es = POLAR_POW s essin;
          t = tan (PI_Over_4 - Latitude / 2) / pow_es
      in if \<bar>\<bar>Polar_Origin_Lat s\<bar> - PI_OVER_2\<bar> > 1 / 10 ^ 10
         then Polar_a_mc s * t / Polar_tc s
         else two_Polar_a s * t / Polar_e4 s)"

definition Convert_Geodetic_To_Polar_Stereographic ::
  "polar \<Rightarrow> real \<Rightarrow> real \<Rightarrow> int \<times> (real \<times> real) option" where
  "Convert_Geodetic_To_Polar_Stereographic s Latitude Longitude =
     (let err = POLAR_NO_ERROR;
          err = (if Latitude < - PI_OVER_2 \<or> Latitude > PI_OVER_2 then err OR POLAR_LAT_ERROR else err);
          err = (if Latitude < 0 \<and> Southern_Hemisphere s = 0 then err OR POLAR_LAT_ERROR else err);
          err = (if Latitude > 0 \<and> Southern_Hemisphere s = 1 then err OR POLAR_LAT_ERROR else err);
          err = (if Longitude < - PI_C \<or> Longitude > TWO_PI then err OR POLAR_LON_ERROR else err)
      in if err = 0 then
           (if \<bar>\<bar>Latitude\<bar> - PI_OVER_2\<bar> < 1 / 10 ^ 10
            then (err, Some (Polar_False_Easting s, Polar_False_Northing s))
            else
              (let (Longitude, Latitude) =
                     (if Southern_Hemisphere s \<noteq> 0 then (Longitude * - 1, Latitude * - 1)
                      else (Longitude, Latitude));
                   dlam = polar_dlam s Longitude;
                   rho = polar_rho s Latitude
               in if Southern_Hemisphere s \<noteq> 0
                  then (err, Some (- (rho * sin dlam - Polar_False_Easting s),
                                   rho * cos dlam + Polar_False_Northing s))
                  else (err, Some (rho * sin dlam + Polar_False_Easting s,
                                   - rho * cos dlam + Polar_False_Northing s))))
         else (err, None))"

section \<open>Setting the parameters\<close>

text \<open>The assignments that depend on the hemisphere of the latitude of true scale.\<close>

definition polar_set_origin :: "polar \<Rightarrow> real \<Rightarrow> real \<Rightarrow> polar" where
  "polar_set_origin s Latitude_of_True_Scale Longitude_Down_from_Pole =
     (if Latitude_of_True_Scale < 0
      then s\<lparr>Southern_Hemisphere := 1, Polar_Origin_Lat := - Latitude_of_True_Scale,
             Polar_Origin_Long := - Longitude_Down_from_Pole\<rparr>
      else s\<lparr>Southern_Hemisphere := 0, Polar_Origin_Lat := Latitude_of_True_Scale,
             Polar_Origin_Long := Longitude_Down_from_Pole\<rparr>)"

text \<open>The constants of the ellipsoid and the scale at the origin.\<close>

definition polar_set_constants :: "polar \<Rightarrow> polar" where
  "polar_set_constants s =
     (let es2 = 2 * Polar_f s - Polar_f s * Polar_f s;
          s = s\<lparr>Polar_es := sqrt es2, Polar_es_OVER_2 := sqrt es2 / 2\<rparr>
      in if \<bar>\<bar>Polar_Origin_Lat s\<bar> - PI_OVER_2\<bar> > 1 / 10 ^ 10 then
           (let slat = sin (Polar_Origin_Lat s);
                essin = Polar_es s * slat;
                pow_es = POLAR_POW s essin;
                clat = cos (Polar_Origin_Lat s);
                mc = clat / sqrt (1 - essin * essin)
            in s\<lparr>Polar_a_mc := Polar_a s * mc,
                 Polar_tc := tan (PI_Over_4 - Polar_Origin_Lat s / 2) / pow_es\<rparr>)
         else
           (let one_PLUS_es = 1 + Polar_es s; one_MINUS_es = 1 - Polar_es s
            in s\<lparr>Polar_e4 := sqrt (one_PLUS_es powr one_PLUS_es * one_MINUS_es powr one_MINUS_es)\<rparr>))"

text \<open>The extent of the projection, from the position of a point of the equator. The variable
  \<open>temp_northing\<close> is not initialised, so the function must write it.\<close>

definition polar_set_deltas :: "polar \<Rightarrow> real \<Rightarrow> polar res" where
  "polar_set_deltas s Longitude_Down_from_Pole =
     bindR (get_init (snd (Convert_Geodetic_To_Polar_Stereographic s 0 Longitude_Down_from_Pole)))
       (\<lambda>(temp, temp_northing).
          let delta = temp_northing;
              delta = (if Polar_False_Northing s \<noteq> 0 then delta - Polar_False_Northing s else delta);
              delta = (if delta < 0 then - delta else delta);
              delta = delta * (101 / 100)
          in Inr (s\<lparr>Polar_Delta_Northing := delta, Polar_Delta_Easting := delta\<rparr>))"

definition Set_Polar_Stereographic_Parameters ::
  "polar \<Rightarrow> real \<Rightarrow> real \<Rightarrow> real \<Rightarrow> real \<Rightarrow> real \<Rightarrow> real \<Rightarrow> (polar \<times> int) res" where
  "Set_Polar_Stereographic_Parameters s a f Latitude_of_True_Scale Longitude_Down_from_Pole False_Easting
       False_Northing =
     (let inv_f = 1 / f;
          err = POLAR_NO_ERROR;
          err = (if a \<le> 0 then err OR POLAR_A_ERROR else err);
          err = (if inv_f < 250 \<or> inv_f > 350 then err OR POLAR_INV_F_ERROR else err);
          err = (if Latitude_of_True_Scale < - PI_OVER_2 \<or> Latitude_of_True_Scale > PI_OVER_2
                 then err OR POLAR_ORIGIN_LAT_ERROR else err);
          err = (if Longitude_Down_from_Pole < - PI_C \<or> Longitude_Down_from_Pole > TWO_PI
                 then err OR POLAR_ORIGIN_LON_ERROR else err)
      in if err = 0 then
           (let s = s\<lparr>Polar_a := a, two_Polar_a := 2 * a, Polar_f := f\<rparr>;
                Longitude_Down_from_Pole = (if Longitude_Down_from_Pole > PI_C
                  then Longitude_Down_from_Pole - TWO_PI else Longitude_Down_from_Pole);
                s = polar_set_origin s Latitude_of_True_Scale Longitude_Down_from_Pole;
                s = s\<lparr>Polar_False_Easting := False_Easting, Polar_False_Northing := False_Northing\<rparr>
            in mapR (\<lambda>s. (s, err)) (polar_set_deltas (polar_set_constants s) Longitude_Down_from_Pole))
         else Inr (s, err))"

definition Get_Polar_Stereographic_Parameters ::
  "polar \<Rightarrow> real \<times> real \<times> real \<times> real \<times> real \<times> real" where
  "Get_Polar_Stereographic_Parameters s =
     (Polar_a s, Polar_f s, Polar_Origin_Lat s, Polar_Origin_Long s, Polar_False_Easting s,
      Polar_False_Northing s)"

section \<open>From polar stereographic to geodetic\<close>

text \<open>The C function \<open>atan2\<close>, for arguments that are not both zero.\<close>

definition c_atan2 :: "real \<Rightarrow> real \<Rightarrow> real" where
  "c_atan2 y x =
     (if x > 0 then arctan (y / x)
      else if x < 0 then (if y \<ge> 0 then arctan (y / x) + pi else arctan (y / x) - pi)
      else if y > 0 then pi / 2 else - pi / 2)"

text \<open>The loop that refines the latitude; not ending is \<open>None\<close>.\<close>

partial_function (option) polar_latitude :: "polar \<Rightarrow> real \<Rightarrow> real \<Rightarrow> real \<Rightarrow> real option" where
  "polar_latitude s t PHI tempPHI =
     (if \<bar>PHI - tempPHI\<bar> > 1 / 10 ^ 10 then
        (let tempPHI = PHI;
             sin_PHI = sin PHI;
             essin = Polar_es s * sin_PHI;
             pow_es = POLAR_POW s essin
         in polar_latitude s t (PI_OVER_2 - 2 * arctan (t * pow_es)) tempPHI)
      else Some PHI)"

text \<open>The corrections of the result: one turn of the longitude, then both forced into their range.\<close>

definition polar_wrap :: "real \<Rightarrow> real" where
  "polar_wrap Longitude =
     (if Longitude > PI_C then Longitude - TWO_PI
      else if Longitude < - PI_C then Longitude + TWO_PI else Longitude)"

definition polar_force :: "real \<Rightarrow> real \<Rightarrow> real" where
  "polar_force limit v = (if v > limit then limit else if v < - limit then - limit else v)"

definition Convert_Polar_Stereographic_To_Geodetic ::
  "polar \<Rightarrow> real \<Rightarrow> real \<Rightarrow> (int \<times> (real \<times> real) option) option" where
  "Convert_Polar_Stereographic_To_Geodetic s Easting Northing =
     (let min_easting = Polar_False_Easting s - Polar_Delta_Easting s;
          max_easting = Polar_False_Easting s + Polar_Delta_Easting s;
          min_northing = Polar_False_Northing s - Polar_Delta_Northing s;
          max_northing = Polar_False_Northing s + Polar_Delta_Northing s;
          err = POLAR_NO_ERROR;
          err = (if Easting > max_easting \<or> Easting < min_easting then err OR POLAR_EASTING_ERROR else err);
          err = (if Northing > max_northing \<or> Northing < min_northing then err OR POLAR_NORTHING_ERROR
                 else err)
      in if err = 0 then
           (let dy = Northing - Polar_False_Northing s; dx = Easting - Polar_False_Easting s;
                rho = sqrt (dx * dx + dy * dy);
                delta_radius = sqrt (Polar_Delta_Easting s * Polar_Delta_Easting s
                                     + Polar_Delta_Northing s * Polar_Delta_Northing s);
                err = (if rho > delta_radius then err OR POLAR_RADIUS_ERROR else err)
            in if err = 0 then
                 map_option
                   (\<lambda>(Latitude, Longitude).
                      (err, Some (if Southern_Hemisphere s \<noteq> 0 then (Latitude * - 1, Longitude * - 1)
                                  else (Latitude, Longitude))))
                   (if dy = 0 \<and> dx = 0 then Some (PI_OVER_2, Polar_Origin_Long s)
                    else
                      (let (dy, dx) = (if Southern_Hemisphere s \<noteq> 0 then (dy * - 1, dx * - 1) else (dy, dx));
                           t = (if \<bar>\<bar>Polar_Origin_Lat s\<bar> - PI_OVER_2\<bar> > 1 / 10 ^ 10
                                then rho * Polar_tc s / Polar_a_mc s
                                else rho * Polar_e4 s / two_Polar_a s)
                       in map_option
                            (\<lambda>PHI. (polar_force PI_OVER_2 PHI,
                                    polar_force PI_C (polar_wrap (Polar_Origin_Long s + c_atan2 dx (- dy)))))
                            (polar_latitude s t (PI_OVER_2 - 2 * arctan t) 0)))
               else Some (err, None))
         else Some (err, None))"

end
