(* ===== verification/Ups.thy ===== *)
theory Ups
  imports Polar_Stereographic
begin

text \<open>
  \<open>libmgrs/ups.c\<close>: Universal Polar Stereographic coordinates. The record \<open>ups\<close> holds the static
  variables of the file together with those of \<open>polarst.c\<close>. The function to geodetic coordinates
  contains the loop of the projection, so it is \<open>None\<close> when that loop does not end.
\<close>

unbundle bit_operations_syntax

section \<open>Error codes and limits\<close>

definition UPS_NO_ERROR :: int where "UPS_NO_ERROR = 0x0000"
definition UPS_LAT_ERROR :: int where "UPS_LAT_ERROR = 0x0001"
definition UPS_LON_ERROR :: int where "UPS_LON_ERROR = 0x0002"
definition UPS_HEMISPHERE_ERROR :: int where "UPS_HEMISPHERE_ERROR = 0x0004"
definition UPS_EASTING_ERROR :: int where "UPS_EASTING_ERROR = 0x0008"
definition UPS_NORTHING_ERROR :: int where "UPS_NORTHING_ERROR = 0x0010"
definition UPS_A_ERROR :: int where "UPS_A_ERROR = 0x0020"
definition UPS_INV_F_ERROR :: int where "UPS_INV_F_ERROR = 0x0040"

lemmas ups_codes =
  UPS_NO_ERROR_def UPS_LAT_ERROR_def UPS_LON_ERROR_def UPS_HEMISPHERE_ERROR_def UPS_EASTING_ERROR_def
  UPS_NORTHING_ERROR_def UPS_A_ERROR_def UPS_INV_F_ERROR_def

definition UPS_MAX_LAT :: real where "UPS_MAX_LAT = (PI_C * 90) / 180"
definition MAX_ORIGIN_LAT :: real where "MAX_ORIGIN_LAT = ((81114528 / 10 ^ 6) * PI_C) / 180"
definition MIN_NORTH_LAT :: real where "MIN_NORTH_LAT = (835 / 10) * PI_C / 180"
definition MIN_SOUTH_LAT :: real where "MIN_SOUTH_LAT = (- (795 / 10)) * PI_C / 180"
definition MIN_EAST_NORTH :: real where "MIN_EAST_NORTH = 0"
definition MAX_EAST_NORTH :: real where "MAX_EAST_NORTH = 4000000"

lemmas ups_limits =
  UPS_MAX_LAT_def MAX_ORIGIN_LAT_def MIN_NORTH_LAT_def MIN_SOUTH_LAT_def MIN_EAST_NORTH_def
  MAX_EAST_NORTH_def

section \<open>State and parameters\<close>

record ups =
  UPS_a :: real
  UPS_f :: real
  UPS_Origin_Latitude :: real
  UPS_Origin_Longitude :: real
  UPS_polar :: polar

definition UPS_False_Easting :: real where "UPS_False_Easting = 2000000"
definition UPS_False_Northing :: real where "UPS_False_Northing = 2000000"

definition ups_init :: ups where
  "ups_init = \<lparr>UPS_a = 6378137, UPS_f = 1 / (298257223563 / 10 ^ 9),
     UPS_Origin_Latitude = MAX_ORIGIN_LAT, UPS_Origin_Longitude = 0, UPS_polar = polar_init\<rparr>"

definition Set_UPS_Parameters :: "ups \<Rightarrow> real \<Rightarrow> real \<Rightarrow> ups \<times> int" where
  "Set_UPS_Parameters st a f =
     (let inv_f = 1 / f;
          err = UPS_NO_ERROR;
          err = (if a \<le> 0 then err OR UPS_A_ERROR else err);
          err = (if inv_f < 250 \<or> inv_f > 350 then err OR UPS_INV_F_ERROR else err)
      in if err = 0 then (st\<lparr>UPS_a := a, UPS_f := f\<rparr>, err) else (st, err))"

definition Get_UPS_Parameters :: "ups \<Rightarrow> real \<times> real" where
  "Get_UPS_Parameters st = (UPS_a st, UPS_f st)"

text \<open>The call both conversions make first.\<close>

definition ups_set_projection :: "ups \<Rightarrow> ups res" where
  "ups_set_projection st =
     mapR (\<lambda>(s, _). st\<lparr>UPS_polar := s\<rparr>)
       (Set_Polar_Stereographic_Parameters (UPS_polar st) (UPS_a st) (UPS_f st) (UPS_Origin_Latitude st)
          (UPS_Origin_Longitude st) UPS_False_Easting UPS_False_Northing)"

section \<open>The conversions\<close>

text \<open>The outputs are the hemisphere, the easting and the northing. \<open>tempEasting\<close> and \<open>tempNorthing\<close>
  are not initialised: when the projection does not write them, reading them is a fault.\<close>

definition Convert_Geodetic_To_UPS ::
  "ups \<Rightarrow> real \<Rightarrow> real \<Rightarrow> (ups \<times> int \<times> (char \<times> real \<times> real) option) res" where
  "Convert_Geodetic_To_UPS st Latitude Longitude =
     (let err = UPS_NO_ERROR;
          err = (if Latitude < - UPS_MAX_LAT \<or> Latitude > UPS_MAX_LAT then err OR UPS_LAT_ERROR else err);
          err = (if Latitude < 0 \<and> Latitude > MIN_SOUTH_LAT then err OR UPS_LAT_ERROR else err);
          err = (if Latitude \<ge> 0 \<and> Latitude < MIN_NORTH_LAT then err OR UPS_LAT_ERROR else err);
          err = (if Longitude < - PI_C \<or> Longitude > 2 * PI_C then err OR UPS_LON_ERROR else err)
      in if err = 0 then
           (let (st, Hemisphere) =
                  (if Latitude < 0 then (st\<lparr>UPS_Origin_Latitude := - MAX_ORIGIN_LAT\<rparr>, CHR ''S'')
                   else (st\<lparr>UPS_Origin_Latitude := MAX_ORIGIN_LAT\<rparr>, CHR ''N''))
            in bindR (ups_set_projection st) (\<lambda>st.
               bindR (get_init (snd (Convert_Geodetic_To_Polar_Stereographic (UPS_polar st) Latitude Longitude)))
                 (\<lambda>(tempEasting, tempNorthing).
                    Inr (st, err, Some (Hemisphere, tempEasting, tempNorthing)))))
         else Inr (st, err, None))"

definition Convert_UPS_To_Geodetic ::
  "ups \<Rightarrow> char \<Rightarrow> real \<Rightarrow> real \<Rightarrow> (ups \<times> int \<times> (real \<times> real) option) res option" where
  "Convert_UPS_To_Geodetic st Hemisphere Easting Northing =
     (let err = UPS_NO_ERROR;
          err = (if Hemisphere \<noteq> CHR ''N'' \<and> Hemisphere \<noteq> CHR ''S'' then err OR UPS_HEMISPHERE_ERROR
                 else err);
          err = (if Easting < MIN_EAST_NORTH \<or> Easting > MAX_EAST_NORTH then err OR UPS_EASTING_ERROR
                 else err);
          err = (if Northing < MIN_EAST_NORTH \<or> Northing > MAX_EAST_NORTH then err OR UPS_NORTHING_ERROR
                 else err);
          st = (if Hemisphere = CHR ''N'' then st\<lparr>UPS_Origin_Latitude := MAX_ORIGIN_LAT\<rparr> else st);
          st = (if Hemisphere = CHR ''S'' then st\<lparr>UPS_Origin_Latitude := - MAX_ORIGIN_LAT\<rparr> else st)
      in if err = 0 then
           (case ups_set_projection st of
              Inl e \<Rightarrow> Some (Inl e)
            | Inr st \<Rightarrow>
                map_option
                  (\<lambda>(_, written). bindR (get_init written) (\<lambda>(Latitude, Longitude).
                     let err = (if Latitude < 0 \<and> Latitude > MIN_SOUTH_LAT then err OR UPS_LAT_ERROR else err);
                         err = (if Latitude \<ge> 0 \<and> Latitude < MIN_NORTH_LAT then err OR UPS_LAT_ERROR else err)
                     in Inr (st, err, Some (Latitude, Longitude))))
                  (Convert_Polar_Stereographic_To_Geodetic (UPS_polar st) Easting Northing))
         else Some (Inr (st, err, None)))"

section \<open>The projection is always set\<close>

lemma polar_set_deltas_Inr:
  assumes "\<bar>l\<bar> \<le> PI_C"
  shows "\<exists>d. polar_set_deltas s l = Inr (s\<lparr>Polar_Delta_Northing := d, Polar_Delta_Easting := d\<rparr>) \<and> 0 \<le> d"
proof -
  have "- PI_C \<le> l" "l \<le> PI_C" using assms by linarith+
  then have "\<exists>e n. snd (Convert_Geodetic_To_Polar_Stereographic s 0 l) = Some (e, n)"
    by (simp add: Convert_Geodetic_To_Polar_Stereographic_def polar_codes Let_def PI_OVER_2_def TWO_PI_def
        case_prod_beta PI_C_def)
  then obtain e n where c: "snd (Convert_Geodetic_To_Polar_Stereographic s 0 l) = Some (e, n)" by blast
  show ?thesis by (intro exI conjI, simp add: polar_set_deltas_def c Let_def) (simp add: Let_def)
qed

end
