(* ===== verification/Mgrs.thy ===== *)
theory Mgrs
  imports Utm Ups C_Lib
begin

text \<open>
  \<open>libmgrs/mgrs.c\<close>: Military Grid Reference System strings. The record \<open>mgrs\<close> holds the global
  variables of the file together with the static variables of \<open>utm.c\<close> and \<open>ups.c\<close>. A C string is a
  HOL string without its terminator; an output string is the text written before the terminator, in a
  buffer that is large enough. An access outside one of the constant tables is the fault
  \<open>OutOfBounds\<close>, a read of an output nobody has written the fault \<open>Uninitialised\<close>.
\<close>

unbundle bit_operations_syntax

section \<open>Error codes and constants\<close>

definition MGRS_NO_ERROR :: int where "MGRS_NO_ERROR = 0x0000"
definition MGRS_LAT_ERROR :: int where "MGRS_LAT_ERROR = 0x0001"
definition MGRS_LON_ERROR :: int where "MGRS_LON_ERROR = 0x0002"
definition MGRS_STRING_ERROR :: int where "MGRS_STRING_ERROR = 0x0004"
definition MGRS_PRECISION_ERROR :: int where "MGRS_PRECISION_ERROR = 0x0008"
definition MGRS_A_ERROR :: int where "MGRS_A_ERROR = 0x0010"
definition MGRS_INV_F_ERROR :: int where "MGRS_INV_F_ERROR = 0x0020"
definition MGRS_EASTING_ERROR :: int where "MGRS_EASTING_ERROR = 0x0040"
definition MGRS_NORTHING_ERROR :: int where "MGRS_NORTHING_ERROR = 0x0080"
definition MGRS_ZONE_ERROR :: int where "MGRS_ZONE_ERROR = 0x0100"
definition MGRS_HEMISPHERE_ERROR :: int where "MGRS_HEMISPHERE_ERROR = 0x0200"
definition MGRS_LAT_WARNING :: int where "MGRS_LAT_WARNING = 0x0400"

lemmas mgrs_codes =
  MGRS_NO_ERROR_def MGRS_LAT_ERROR_def MGRS_LON_ERROR_def MGRS_STRING_ERROR_def MGRS_PRECISION_ERROR_def
  MGRS_A_ERROR_def MGRS_INV_F_ERROR_def MGRS_EASTING_ERROR_def MGRS_NORTHING_ERROR_def MGRS_ZONE_ERROR_def
  MGRS_HEMISPHERE_ERROR_def MGRS_LAT_WARNING_def

definition DEG_TO_RAD :: real where "DEG_TO_RAD = 17453292519943295 / 10 ^ 18"
definition RAD_TO_DEG :: real where "RAD_TO_DEG = 5729577951308232087 / 10 ^ 17"
definition ONEHT :: real where "ONEHT = 100000"
definition TWOMIL :: real where "TWOMIL = 2000000"
definition MAX_PRECISION :: int where "MAX_PRECISION = 5"
definition MIN_UTM_LAT :: real where "MIN_UTM_LAT = (- 80 * PI_C) / 180"
definition MAX_UTM_LAT :: real where "MAX_UTM_LAT = (84 * PI_C) / 180"

text \<open>The array index of a letter.\<close>

definition LETTER :: "char \<Rightarrow> int" where
  "LETTER c = of_char c - 65"

section \<open>State and tables\<close>

record mgrs =
  MGRS_a :: real
  MGRS_f :: real
  MGRS_Ellipsoid_Code :: string
  MGRS_utm :: utm
  MGRS_ups :: ups

definition mgrs_init :: mgrs where
  "mgrs_init = \<lparr>MGRS_a = 6378137, MGRS_f = 1 / (298257223563 / 10 ^ 9), MGRS_Ellipsoid_Code = ''WE'',
     MGRS_utm = utm_init, MGRS_ups = ups_init\<rparr>"

record Latitude_Band =
  lb_letter :: int
  lb_min_northing :: real
  lb_north :: real
  lb_south :: real
  lb_northing_offset :: real

definition Latitude_Band_Table :: "Latitude_Band list" where
  "Latitude_Band_Table =
    [\<lparr>lb_letter = LETTER CHR ''C'', lb_min_northing = 1100000, lb_north = - 72, lb_south = - (805 / 10), lb_northing_offset = 0\<rparr>,
     \<lparr>lb_letter = LETTER CHR ''D'', lb_min_northing = 2000000, lb_north = - 64, lb_south = - 72, lb_northing_offset = 2000000\<rparr>,
     \<lparr>lb_letter = LETTER CHR ''E'', lb_min_northing = 2800000, lb_north = - 56, lb_south = - 64, lb_northing_offset = 2000000\<rparr>,
     \<lparr>lb_letter = LETTER CHR ''F'', lb_min_northing = 3700000, lb_north = - 48, lb_south = - 56, lb_northing_offset = 2000000\<rparr>,
     \<lparr>lb_letter = LETTER CHR ''G'', lb_min_northing = 4600000, lb_north = - 40, lb_south = - 48, lb_northing_offset = 4000000\<rparr>,
     \<lparr>lb_letter = LETTER CHR ''H'', lb_min_northing = 5500000, lb_north = - 32, lb_south = - 40, lb_northing_offset = 4000000\<rparr>,
     \<lparr>lb_letter = LETTER CHR ''J'', lb_min_northing = 6400000, lb_north = - 24, lb_south = - 32, lb_northing_offset = 6000000\<rparr>,
     \<lparr>lb_letter = LETTER CHR ''K'', lb_min_northing = 7300000, lb_north = - 16, lb_south = - 24, lb_northing_offset = 6000000\<rparr>,
     \<lparr>lb_letter = LETTER CHR ''L'', lb_min_northing = 8200000, lb_north = - 8, lb_south = - 16, lb_northing_offset = 8000000\<rparr>,
     \<lparr>lb_letter = LETTER CHR ''M'', lb_min_northing = 9100000, lb_north = 0, lb_south = - 8, lb_northing_offset = 8000000\<rparr>,
     \<lparr>lb_letter = LETTER CHR ''N'', lb_min_northing = 0, lb_north = 8, lb_south = 0, lb_northing_offset = 0\<rparr>,
     \<lparr>lb_letter = LETTER CHR ''P'', lb_min_northing = 800000, lb_north = 16, lb_south = 8, lb_northing_offset = 0\<rparr>,
     \<lparr>lb_letter = LETTER CHR ''Q'', lb_min_northing = 1700000, lb_north = 24, lb_south = 16, lb_northing_offset = 0\<rparr>,
     \<lparr>lb_letter = LETTER CHR ''R'', lb_min_northing = 2600000, lb_north = 32, lb_south = 24, lb_northing_offset = 2000000\<rparr>,
     \<lparr>lb_letter = LETTER CHR ''S'', lb_min_northing = 3500000, lb_north = 40, lb_south = 32, lb_northing_offset = 2000000\<rparr>,
     \<lparr>lb_letter = LETTER CHR ''T'', lb_min_northing = 4400000, lb_north = 48, lb_south = 40, lb_northing_offset = 4000000\<rparr>,
     \<lparr>lb_letter = LETTER CHR ''U'', lb_min_northing = 5300000, lb_north = 56, lb_south = 48, lb_northing_offset = 4000000\<rparr>,
     \<lparr>lb_letter = LETTER CHR ''V'', lb_min_northing = 6200000, lb_north = 64, lb_south = 56, lb_northing_offset = 6000000\<rparr>,
     \<lparr>lb_letter = LETTER CHR ''W'', lb_min_northing = 7000000, lb_north = 72, lb_south = 64, lb_northing_offset = 6000000\<rparr>,
     \<lparr>lb_letter = LETTER CHR ''X'', lb_min_northing = 7900000, lb_north = 845 / 10, lb_south = 72, lb_northing_offset = 6000000\<rparr>]"

record UPS_Constant =
  uc_letter :: int
  uc_ltr2_low_value :: int
  uc_ltr2_high_value :: int
  uc_ltr3_high_value :: int
  uc_false_easting :: real
  uc_false_northing :: real

definition UPS_Constant_Table :: "UPS_Constant list" where
  "UPS_Constant_Table =
    [\<lparr>uc_letter = LETTER CHR ''A'', uc_ltr2_low_value = LETTER CHR ''J'', uc_ltr2_high_value = LETTER CHR ''Z'',
      uc_ltr3_high_value = LETTER CHR ''Z'', uc_false_easting = 800000, uc_false_northing = 800000\<rparr>,
     \<lparr>uc_letter = LETTER CHR ''B'', uc_ltr2_low_value = LETTER CHR ''A'', uc_ltr2_high_value = LETTER CHR ''R'',
      uc_ltr3_high_value = LETTER CHR ''Z'', uc_false_easting = 2000000, uc_false_northing = 800000\<rparr>,
     \<lparr>uc_letter = LETTER CHR ''Y'', uc_ltr2_low_value = LETTER CHR ''J'', uc_ltr2_high_value = LETTER CHR ''Z'',
      uc_ltr3_high_value = LETTER CHR ''P'', uc_false_easting = 800000, uc_false_northing = 1300000\<rparr>,
     \<lparr>uc_letter = LETTER CHR ''Z'', uc_ltr2_low_value = LETTER CHR ''A'', uc_ltr2_high_value = LETTER CHR ''J'',
      uc_ltr3_high_value = LETTER CHR ''P'', uc_false_easting = 2000000, uc_false_northing = 1300000\<rparr>]"

section \<open>Latitude bands\<close>

text \<open>The index of a letter in the table, which has no entries for I and O.\<close>

definition band_index :: "int \<Rightarrow> nat option" where
  "band_index letter =
     (if letter \<ge> LETTER CHR ''C'' \<and> letter \<le> LETTER CHR ''H'' then Some (nat (letter - 2))
      else if letter \<ge> LETTER CHR ''J'' \<and> letter \<le> LETTER CHR ''N'' then Some (nat (letter - 3))
      else if letter \<ge> LETTER CHR ''P'' \<and> letter \<le> LETTER CHR ''X'' then Some (nat (letter - 4))
      else None)"

definition Get_Latitude_Band_Min_Northing :: "int \<Rightarrow> int \<times> (real \<times> real) option" where
  "Get_Latitude_Band_Min_Northing letter =
     (case band_index letter of
        Some i \<Rightarrow> (MGRS_NO_ERROR, Some (lb_min_northing (Latitude_Band_Table ! i),
                                       lb_northing_offset (Latitude_Band_Table ! i)))
      | None \<Rightarrow> (MGRS_NO_ERROR OR MGRS_STRING_ERROR, None))"

definition Get_Latitude_Range :: "int \<Rightarrow> int \<times> (real \<times> real) option" where
  "Get_Latitude_Range letter =
     (case band_index letter of
        Some i \<Rightarrow> (MGRS_NO_ERROR, Some (lb_north (Latitude_Band_Table ! i) * DEG_TO_RAD,
                                       lb_south (Latitude_Band_Table ! i) * DEG_TO_RAD))
      | None \<Rightarrow> (MGRS_NO_ERROR OR MGRS_STRING_ERROR, None))"

definition Get_Latitude_Letter :: "real \<Rightarrow> int \<times> int option" where
  "Get_Latitude_Letter latitude =
     (let lat_deg = latitude * RAD_TO_DEG
      in if lat_deg \<ge> 72 \<and> lat_deg < 845 / 10 then (MGRS_NO_ERROR, Some (LETTER CHR ''X''))
         else if lat_deg > - (805 / 10) \<and> lat_deg < 72 then
           (let temp = (latitude + 80 * DEG_TO_RAD) / (8 * DEG_TO_RAD) + 1 / 10 ^ 12
            in (MGRS_NO_ERROR, Some (lb_letter (Latitude_Band_Table ! nat (trunc_to_int temp)))))
         else (MGRS_NO_ERROR OR MGRS_LAT_ERROR, None))"

section \<open>Strings\<close>

text \<open>The result is the error code and, when it is written, \<open>zone_exists\<close>.\<close>

definition Check_Zone :: "string \<Rightarrow> int \<times> bool option" where
  "Check_Zone MGRS =
     (let num_digits = length (takeWhile is_digit (dropWhile (\<lambda>c. c = CHR '' '') MGRS))
      in if num_digits \<le> 2 then (MGRS_NO_ERROR, Some (num_digits > 0))
         else (MGRS_NO_ERROR OR MGRS_STRING_ERROR, None))"

text \<open>\<open>fmod\<close>, and the conversion \<open>%*.*ld\<close> of \<open>sprintf\<close> with the width equal to the precision, which
  writes nothing for a zero with precision zero.\<close>

definition c_fmod :: "real \<Rightarrow> real \<Rightarrow> real" where
  "c_fmod x y = x - y * of_int (trunc_to_int (x / y))"

definition show_ld :: "nat \<Rightarrow> int \<Rightarrow> string" where
  "show_ld precision z = (if precision = 0 \<and> z = 0 then '''' else show_int precision z)"

text \<open>The array \<open>alphabet\<close> includes the terminator of its literal.\<close>

definition alphabet_at :: "int \<Rightarrow> char res" where
  "alphabet_at i = get_at (''ABCDEFGHIJKLMNOPQRSTUVWXYZ'' @ [CHR 0x00]) i"

text \<open>One of the two numbers of the string.\<close>

definition make_digits :: "int \<Rightarrow> real \<Rightarrow> string" where
  "make_digits Precision v =
     (let divisor = 10 powi (5 - Precision);
          v = c_fmod v 100000;
          v = (if v \<ge> 999995 / 10 then 99999 else v)
      in show_ld (nat Precision) (trunc_to_int (v / divisor)))"

definition Make_MGRS_String :: "int \<Rightarrow> int list \<Rightarrow> real \<Rightarrow> real \<Rightarrow> int \<Rightarrow> string res" where
  "Make_MGRS_String Zone Letters Easting Northing Precision =
     bindR (alphabet_at (Letters ! 0)) (\<lambda>a.
     bindR (alphabet_at (Letters ! 1)) (\<lambda>b.
     bindR (alphabet_at (Letters ! 2)) (\<lambda>c.
       Inr ((if Zone \<noteq> 0 then show_int 2 Zone else '''') @ [a, b, c]
            @ make_digits Precision Easting @ make_digits Precision Northing))))"

definition is_alpha :: "char \<Rightarrow> bool" where
  "is_alpha c \<longleftrightarrow> (65 \<le> (of_char c :: nat) \<and> (of_char c :: nat) \<le> 90) \<or>
     (97 \<le> (of_char c :: nat) \<and> (of_char c :: nat) \<le> 122)"

text \<open>\<open>toupper(c) - 'A'\<close> for a letter.\<close>

definition letter_index :: "char \<Rightarrow> int" where
  "letter_index c = (if 97 \<le> (of_char c :: nat) then of_char c - 97 else of_char c - 65)"

definition break_zone :: "string \<Rightarrow> int \<times> int option" where
  "break_zone digits =
     (if length digits \<le> 2 then
        (if length digits > 0 then
           (let Zone = int (nat_of_digits digits)
            in (if Zone < 1 \<or> Zone > 60 then MGRS_STRING_ERROR else MGRS_NO_ERROR, Some Zone))
         else (MGRS_NO_ERROR, Some 0))
      else (MGRS_STRING_ERROR, None))"

definition break_letters :: "string \<Rightarrow> int \<times> int list option" where
  "break_letters letters =
     (if length letters = 3 then
        (let Letters = map letter_index letters
         in (if \<exists>l \<in> set Letters. l = LETTER CHR ''I'' \<or> l = LETTER CHR ''O'' then MGRS_STRING_ERROR
             else MGRS_NO_ERROR, Some Letters))
      else (MGRS_STRING_ERROR, None))"

text \<open>The easting, the northing and the precision.\<close>

definition break_digits :: "string \<Rightarrow> int \<times> (real \<times> real \<times> int) option" where
  "break_digits digits =
     (if length digits \<le> 10 \<and> length digits mod 2 = 0 then
        (let n = length digits div 2
         in if n > 0 then
              (let multiplier = 10 powi (5 - int n)
               in (MGRS_NO_ERROR, Some (real (nat_of_digits (take n digits)) * multiplier,
                                        real (nat_of_digits (take n (drop n digits))) * multiplier, int n)))
            else (MGRS_NO_ERROR, Some (0, 0, int n)))
      else (MGRS_STRING_ERROR, None))"

definition Break_MGRS_String ::
  "string \<Rightarrow> int \<times> int option \<times> int list option \<times> (real \<times> real \<times> int) option" where
  "Break_MGRS_String MGRS =
     (let s = dropWhile (\<lambda>c. c = CHR '' '') MGRS;
          (err1, Zone) = break_zone (takeWhile is_digit s);
          s = dropWhile is_digit s;
          (err2, Letters) = break_letters (takeWhile is_alpha s);
          s = dropWhile is_alpha s;
          (err3, numbers) = break_digits (takeWhile is_digit s)
      in (MGRS_NO_ERROR OR err1 OR err2 OR err3, Zone, Letters, numbers))"

section \<open>Parameters\<close>

definition Set_MGRS_Parameters :: "mgrs \<Rightarrow> real \<Rightarrow> real \<Rightarrow> string \<Rightarrow> (mgrs \<times> int) res" where
  "Set_MGRS_Parameters st a f Ellipsoid_Code =
     (let inv_f = 1 / f;
          err = MGRS_NO_ERROR;
          err = (if a \<le> 0 then err OR MGRS_A_ERROR else err);
          err = (if inv_f < 250 \<or> inv_f > 350 then err OR MGRS_INV_F_ERROR else err)
      in if err = 0 then
           (if length Ellipsoid_Code \<ge> 3 then Inl OutOfBounds
            else Inr (st\<lparr>MGRS_a := a, MGRS_f := f, MGRS_Ellipsoid_Code := Ellipsoid_Code\<rparr>, err))
         else Inr (st, err))"

definition Get_MGRS_Parameters :: "mgrs \<Rightarrow> real \<times> real \<times> string" where
  "Get_MGRS_Parameters st = (MGRS_a st, MGRS_f st, MGRS_Ellipsoid_Code st)"

text \<open>The range of the second letter, which is not written for a negative zone, and the pattern
  offset.\<close>

definition Get_Grid_Values :: "mgrs \<Rightarrow> int \<Rightarrow> (int \<times> int) option \<times> real" where
  "Get_Grid_Values st zone =
     (let set_number = c_mod zone 6;
          set_number = (if set_number = 0 then 6 else set_number);
          aa_pattern = (MGRS_Ellipsoid_Code st \<notin> {''CC'', ''CD'', ''BR'', ''BN''});
          ltr2 = (if set_number = 1 \<or> set_number = 4 then Some (LETTER CHR ''A'', LETTER CHR ''H'')
                  else if set_number = 2 \<or> set_number = 5 then Some (LETTER CHR ''J'', LETTER CHR ''R'')
                  else if set_number = 3 \<or> set_number = 6 then Some (LETTER CHR ''S'', LETTER CHR ''Z'')
                  else None)
      in (ltr2, if aa_pattern then (if c_mod set_number 2 = 0 then 500000 else 0)
                else (if c_mod set_number 2 = 0 then 1500000 else 1000000)))"

text \<open>Both conversions from UTM set the parameters of \<open>utm.c\<close> first.\<close>

definition mgrs_set_utm :: "mgrs \<Rightarrow> int \<Rightarrow> mgrs \<times> int" where
  "mgrs_set_utm st override =
     (let (u, err) = Set_UTM_Parameters (MGRS_utm st) (MGRS_a st) (MGRS_f st) override
      in (st\<lparr>MGRS_utm := u\<rparr>, err))"

definition mgrs_set_ups :: "mgrs \<Rightarrow> mgrs \<times> int" where
  "mgrs_set_ups st =
     (let (u, err) = Set_UPS_Parameters (MGRS_ups st) (MGRS_a st) (MGRS_f st)
      in (st\<lparr>MGRS_ups := u\<rparr>, err))"

section \<open>Translation of error codes\<close>

definition if_bit :: "int \<Rightarrow> int \<Rightarrow> int \<Rightarrow> int" where
  "if_bit code bits flag = (if code AND bits \<noteq> 0 then flag else 0)"

definition from_geodetic_to_utm_error :: "int \<Rightarrow> int" where
  "from_geodetic_to_utm_error temp =
     if_bit temp UTM_LAT_ERROR MGRS_LAT_ERROR OR if_bit temp UTM_LON_ERROR MGRS_LON_ERROR OR
     if_bit temp UTM_ZONE_OVERRIDE_ERROR MGRS_ZONE_ERROR OR
     if_bit temp UTM_EASTING_ERROR MGRS_EASTING_ERROR OR
     if_bit temp UTM_NORTHING_ERROR MGRS_NORTHING_ERROR"

definition from_utm_to_geodetic_error :: "int \<Rightarrow> int" where
  "from_utm_to_geodetic_error temp =
     (if temp AND UTM_ZONE_ERROR \<noteq> 0 \<or> temp AND UTM_HEMISPHERE_ERROR \<noteq> 0 then MGRS_STRING_ERROR else 0) OR
     if_bit temp UTM_EASTING_ERROR MGRS_EASTING_ERROR OR
     if_bit temp UTM_NORTHING_ERROR MGRS_NORTHING_ERROR"

definition from_set_utm_error :: "int \<Rightarrow> int" where
  "from_set_utm_error temp =
     if_bit temp UTM_A_ERROR MGRS_A_ERROR OR if_bit temp UTM_INV_F_ERROR MGRS_INV_F_ERROR OR
     if_bit temp UTM_ZONE_OVERRIDE_ERROR MGRS_ZONE_ERROR"

definition from_set_ups_error :: "int \<Rightarrow> int" where
  "from_set_ups_error temp =
     if_bit temp UPS_A_ERROR MGRS_A_ERROR OR if_bit temp UPS_INV_F_ERROR MGRS_INV_F_ERROR"

section \<open>From UTM to MGRS\<close>

text \<open>The loop that takes away whole cycles of two million metres.\<close>

function reduce_northing :: "real \<Rightarrow> real" where
  "reduce_northing grid_northing =
     (if grid_northing \<ge> TWOMIL then reduce_northing (grid_northing - TWOMIL) else grid_northing)"
  by pat_completeness auto
termination
  by (relation "measure (\<lambda>x. nat \<lceil>x\<rceil>)") (simp_all add: TWOMIL_def nat_less_iff)

declare reduce_northing.simps [simp del]

definition row_letter :: "real \<Rightarrow> real \<Rightarrow> int" where
  "row_letter Northing pattern_offset =
     (let grid_northing = reduce_northing Northing;
          grid_northing = grid_northing + pattern_offset;
          grid_northing = (if grid_northing \<ge> TWOMIL then grid_northing - TWOMIL else grid_northing);
          l = trunc_to_int (grid_northing / ONEHT);
          l = (if l > LETTER CHR ''H'' then l + 1 else l)
      in if l > LETTER CHR ''N'' then l + 1 else l)"

definition column_letter :: "int \<Rightarrow> real \<Rightarrow> int" where
  "column_letter ltr2_low_value grid_easting =
     (let l = ltr2_low_value + (trunc_to_int (grid_easting / ONEHT) - 1)
      in if ltr2_low_value = LETTER CHR ''J'' \<and> l > LETTER CHR ''N'' then l + 1 else l)"

text \<open>The part after the special case of zone 31V.\<close>

definition utm_to_mgrs_string :: "mgrs \<Rightarrow> int \<Rightarrow> real \<Rightarrow> real \<Rightarrow> real \<Rightarrow> int \<Rightarrow> (int \<times> string option) res" where
  "utm_to_mgrs_string st Zone Latitude Easting Northing Precision =
     (let (Latitude, Northing) =
            (if Latitude \<le> 0 \<and> Northing = 10000000 then (0, 0) else (Latitude, Northing));
          (ltr2, pattern_offset) = Get_Grid_Values st Zone;
          (err, letter) = Get_Latitude_Letter Latitude
      in if err = 0 then
           bindR (get_init letter) (\<lambda>l0.
           bindR (get_init ltr2) (\<lambda>(ltr2_low_value, ltr2_high_value).
             let l2 = row_letter Northing pattern_offset;
                 grid_easting = (if l0 = LETTER CHR ''V'' \<and> Zone = 31 \<and> Easting = 500000 then Easting - 1
                                 else Easting);
                 l1 = column_letter ltr2_low_value grid_easting
             in mapR (\<lambda>s. (err, Some s))
                  (Make_MGRS_String Zone [l0, l1, l2] grid_easting Northing Precision)))
         else Inr (err, None))"

definition UTM_To_MGRS ::
  "mgrs \<Rightarrow> int \<Rightarrow> char \<Rightarrow> real \<Rightarrow> real \<Rightarrow> real \<Rightarrow> real \<Rightarrow> int \<Rightarrow> (mgrs \<times> int \<times> string option) res" where
  "UTM_To_MGRS st Zone Hemisphere Longitude Latitude Easting Northing Precision =
     (if Zone = 31 \<and> Latitude \<ge> 56 * DEG_TO_RAD \<and> Latitude < 64 * DEG_TO_RAD \<and>
         (Longitude \<ge> 3 * DEG_TO_RAD \<or> Easting \<ge> 500000) then
        (let st = fst (mgrs_set_utm st 32)
         in bindR (Convert_Geodetic_To_UTM (MGRS_utm st) Latitude Longitude) (\<lambda>(u, temp, written).
              let st = st\<lparr>MGRS_utm := u\<rparr>
              in if temp \<noteq> 0 then Inr (st, from_geodetic_to_utm_error temp, None)
                 else bindR (get_init written) (\<lambda>p.
                        mapR (Pair st) (utm_to_mgrs_string st (utm_Zone p) Latitude (utm_Easting p)
                                          (utm_Northing p) Precision))))
      else mapR (Pair st) (utm_to_mgrs_string st Zone Latitude Easting Northing Precision))"

definition Convert_UTM_To_MGRS ::
  "mgrs \<Rightarrow> int \<Rightarrow> char \<Rightarrow> real \<Rightarrow> real \<Rightarrow> int \<Rightarrow> (mgrs \<times> int \<times> string option) res" where
  "Convert_UTM_To_MGRS st Zone Hemisphere Easting Northing Precision =
     (let err = MGRS_NO_ERROR;
          err = (if Zone < 1 \<or> Zone > 60 then err OR MGRS_ZONE_ERROR else err);
          err = (if Hemisphere \<noteq> CHR ''S'' \<and> Hemisphere \<noteq> CHR ''N'' then err OR MGRS_HEMISPHERE_ERROR
                 else err);
          err = (if Easting < MIN_EASTING \<or> Easting > MAX_EASTING then err OR MGRS_EASTING_ERROR else err);
          err = (if Northing < MIN_NORTHING \<or> Northing > MAX_NORTHING then err OR MGRS_NORTHING_ERROR
                 else err);
          err = (if Precision < 0 \<or> Precision > MAX_PRECISION then err OR MGRS_PRECISION_ERROR else err)
      in if err = 0 then
           (let st = fst (mgrs_set_utm st 0)
            in bindR (Convert_UTM_To_Geodetic (MGRS_utm st) Zone Hemisphere Easting Northing)
                 (\<lambda>(u, utm_error_code, written).
                    bindR (get_init written) (\<lambda>(latitude, longitude).
                      UTM_To_MGRS (st\<lparr>MGRS_utm := u\<rparr>) Zone Hemisphere longitude latitude Easting Northing
                        Precision)))
         else Inr (st, err, None))"

section \<open>From MGRS to UTM\<close>

text \<open>The south-western corner of the square of 100 km that the letters name.\<close>

definition grid_corner_easting :: "int \<Rightarrow> int \<Rightarrow> real" where
  "grid_corner_easting ltr2_low_value l1 =
     (let grid_easting = of_int (l1 - ltr2_low_value + 1) * ONEHT
      in if ltr2_low_value = LETTER CHR ''J'' \<and> l1 > LETTER CHR ''O'' then grid_easting - ONEHT
         else grid_easting)"

definition row_letter_northing :: "int \<Rightarrow> real" where
  "row_letter_northing l2 =
     (let r = of_int l2 * ONEHT;
          r = (if l2 > LETTER CHR ''O'' then r - ONEHT else r);
          r = (if l2 > LETTER CHR ''I'' then r - ONEHT else r)
      in if r \<ge> TWOMIL then r - TWOMIL else r)"

definition grid_corner_northing :: "int \<Rightarrow> real \<Rightarrow> real \<Rightarrow> real \<Rightarrow> real" where
  "grid_corner_northing l2 pattern_offset min_northing northing_offset =
     (let grid_northing = row_letter_northing l2 - pattern_offset;
          grid_northing = (if grid_northing < 0 then grid_northing + TWOMIL else grid_northing);
          grid_northing = grid_northing + northing_offset
      in if grid_northing < min_northing then grid_northing + TWOMIL else grid_northing)"

text \<open>The check that the point is within the bounds of its band. \<open>latitude\<close> and \<open>longitude\<close> start
  with the value 0.\<close>

definition check_band :: "mgrs \<Rightarrow> int \<Rightarrow> int \<Rightarrow> char \<Rightarrow> real \<Rightarrow> real \<Rightarrow> int \<Rightarrow> (mgrs \<times> int) res" where
  "check_band st l0 Zone Hemisphere Easting Northing in_precision =
     (let (st, utm_error_code) = mgrs_set_utm st 0
      in if utm_error_code = 0 then
           bindR (Convert_UTM_To_Geodetic_out (Some (0, 0)) (MGRS_utm st) Zone Hemisphere Easting Northing)
             (\<lambda>(u, utm_error_code, written).
                let st = st\<lparr>MGRS_utm := u\<rparr>
                in if utm_error_code = 0 then
                     (let (latitude, longitude) = (case written of None \<Rightarrow> (0, 0) | Some p \<Rightarrow> p);
                          divisor = 10 powi in_precision;
                          (err, limits) = Get_Latitude_Range l0
                      in if err = 0 then
                           bindR (get_init limits) (\<lambda>(upper_lat_limit, lower_lat_limit).
                             Inr (st, if \<not> (lower_lat_limit - DEG_TO_RAD / divisor \<le> latitude \<and>
                                            latitude \<le> upper_lat_limit + DEG_TO_RAD / divisor)
                                      then err OR MGRS_LAT_WARNING else err))
                         else Inr (st, err))
                   else Inr (st, from_utm_to_geodetic_error utm_error_code))
         else Inr (st, from_set_utm_error utm_error_code))"

text \<open>The part of \<open>Convert_MGRS_To_UTM\<close> for a string that could be broken into its components. The
  outputs are zone, hemisphere, easting and northing once all of them are written.\<close>

definition mgrs_letters_to_utm ::
  "mgrs \<Rightarrow> int \<Rightarrow> int list \<Rightarrow> real \<Rightarrow> real \<Rightarrow> int \<Rightarrow> (mgrs \<times> int \<times> (int \<times> char \<times> real \<times> real) option) res" where
  "mgrs_letters_to_utm st Zone letters Easting Northing in_precision =
     (let l0 = letters ! 0; l1 = letters ! 1; l2 = letters ! 2
      in if l0 = LETTER CHR ''X'' \<and> (Zone = 32 \<or> Zone = 34 \<or> Zone = 36)
         then Inr (st, MGRS_STRING_ERROR, None)
         else
           (let Hemisphere = (if l0 < LETTER CHR ''N'' then CHR ''S'' else CHR ''N'');
                (ltr2, pattern_offset) = Get_Grid_Values st Zone
            in bindR (get_init ltr2) (\<lambda>(ltr2_low_value, ltr2_high_value).
               if l1 < ltr2_low_value \<or> l1 > ltr2_high_value \<or> l2 > LETTER CHR ''V''
               then Inr (st, MGRS_STRING_ERROR, None)
               else
                 (let (err, band) = Get_Latitude_Band_Min_Northing l0
                  in if err = 0 then
                       bindR (get_init band) (\<lambda>(min_northing, northing_offset).
                         let Easting = grid_corner_easting ltr2_low_value l1 + Easting;
                             Northing = grid_corner_northing l2 pattern_offset min_northing northing_offset
                                        + Northing
                         in mapR (\<lambda>(st, err). (st, err, Some (Zone, Hemisphere, Easting, Northing)))
                              (check_band st l0 Zone Hemisphere Easting Northing in_precision))
                     else Inr (st, err, None)))))"

text \<open>The variables of the caller count as not initialised.\<close>

definition Convert_MGRS_To_UTM ::
  "mgrs \<Rightarrow> string \<Rightarrow> (mgrs \<times> int \<times> (int \<times> char \<times> real \<times> real) option) res" where
  "Convert_MGRS_To_UTM st MGRS =
     (let (err, Zone, letters, numbers) = Break_MGRS_String MGRS
      in bindR (get_init Zone) (\<lambda>Zone.
         if Zone = 0 then Inr (st, err OR MGRS_STRING_ERROR, None)
         else if err = 0 then
           bindR (get_init letters) (\<lambda>letters.
           bindR (get_init numbers) (\<lambda>(Easting, Northing, in_precision).
             mgrs_letters_to_utm st Zone letters Easting Northing in_precision))
         else Inr (st, err, None)))"

section \<open>UPS and MGRS\<close>

definition ups_row_letter :: "real \<Rightarrow> int" where
  "ups_row_letter grid_northing =
     (let l = trunc_to_int (grid_northing / ONEHT);
          l = (if l > LETTER CHR ''H'' then l + 1 else l)
      in if l > LETTER CHR ''N'' then l + 1 else l)"

definition ups_column_letter :: "int \<Rightarrow> real \<Rightarrow> real \<Rightarrow> int" where
  "ups_column_letter ltr2_low_value Easting grid_easting =
     (let l = ltr2_low_value + trunc_to_int (grid_easting / ONEHT)
      in if Easting < TWOMIL then
           (let l = (if l > LETTER CHR ''L'' then l + 3 else l)
            in if l > LETTER CHR ''U'' then l + 2 else l)
         else
           (let l = (if l > LETTER CHR ''C'' then l + 2 else l);
                l = (if l > LETTER CHR ''H'' then l + 1 else l)
            in if l > LETTER CHR ''L'' then l + 3 else l))"

definition Convert_UPS_To_MGRS :: "char \<Rightarrow> real \<Rightarrow> real \<Rightarrow> int \<Rightarrow> (int \<times> string option) res" where
  "Convert_UPS_To_MGRS Hemisphere Easting Northing Precision =
     (let err = MGRS_NO_ERROR;
          err = (if Hemisphere \<noteq> CHR ''N'' \<and> Hemisphere \<noteq> CHR ''S'' then err OR MGRS_HEMISPHERE_ERROR
                 else err);
          err = (if Easting < MIN_EAST_NORTH \<or> Easting > MAX_EAST_NORTH then err OR MGRS_EASTING_ERROR
                 else err);
          err = (if Northing < MIN_EAST_NORTH \<or> Northing > MAX_EAST_NORTH then err OR MGRS_NORTHING_ERROR
                 else err);
          err = (if Precision < 0 \<or> Precision > MAX_PRECISION then err OR MGRS_PRECISION_ERROR else err)
      in if err = 0 then
           (let l0 = (if Hemisphere = CHR ''N''
                      then (if Easting \<ge> TWOMIL then LETTER CHR ''Z'' else LETTER CHR ''Y'')
                      else (if Easting \<ge> TWOMIL then LETTER CHR ''B'' else LETTER CHR ''A''));
                index = (if Hemisphere = CHR ''N'' then l0 - 22 else l0)
            in bindR (get_at UPS_Constant_Table index) (\<lambda>c.
               let l2 = ups_row_letter (Northing - uc_false_northing c);
                   l1 = ups_column_letter (uc_ltr2_low_value c) Easting (Easting - uc_false_easting c)
               in mapR (\<lambda>s. (err, Some s)) (Make_MGRS_String 0 [l0, l1, l2] Easting Northing Precision)))
         else Inr (err, None))"

text \<open>The south-western corner of the square the letters name.\<close>

definition ups_corner_northing :: "int \<Rightarrow> real \<Rightarrow> real" where
  "ups_corner_northing l2 false_northing =
     (let grid_northing = of_int l2 * ONEHT + false_northing;
          grid_northing = (if l2 > LETTER CHR ''I'' then grid_northing - ONEHT else grid_northing)
      in if l2 > LETTER CHR ''O'' then grid_northing - ONEHT else grid_northing)"

definition ups_corner_easting :: "int \<Rightarrow> int \<Rightarrow> real \<Rightarrow> real" where
  "ups_corner_easting ltr2_low_value l1 false_easting =
     (let grid_easting = of_int (l1 - ltr2_low_value) * ONEHT + false_easting
      in if ltr2_low_value \<noteq> LETTER CHR ''A'' then
           (let grid_easting = (if l1 > LETTER CHR ''L'' then grid_easting - 300000 else grid_easting)
            in if l1 > LETTER CHR ''U'' then grid_easting - 200000 else grid_easting)
         else
           (let grid_easting = (if l1 > LETTER CHR ''C'' then grid_easting - 200000 else grid_easting);
                grid_easting = (if l1 > LETTER CHR ''I'' then grid_easting - ONEHT else grid_easting)
            in if l1 > LETTER CHR ''L'' then grid_easting - 300000 else grid_easting))"

text \<open>The outputs are hemisphere, easting and northing. The local variable \<open>zone\<close> is not
  initialised.\<close>

definition Convert_MGRS_To_UPS :: "string \<Rightarrow> (int \<times> (char \<times> real \<times> real) option) res" where
  "Convert_MGRS_To_UPS MGRS =
     (let (err, zone, letters, numbers) = Break_MGRS_String MGRS
      in bindR (get_init zone) (\<lambda>zone.
         if zone \<noteq> 0 then Inr (err OR MGRS_STRING_ERROR, None)
         else if err = 0 then
           bindR (get_init letters) (\<lambda>letters.
           bindR (get_init numbers) (\<lambda>(Easting, Northing, in_precision).
             let l0 = letters ! 0; l1 = letters ! 1; l2 = letters ! 2;
                 Hemisphere = (if l0 \<ge> LETTER CHR ''Y'' then CHR ''N'' else CHR ''S'');
                 index = (if l0 \<ge> LETTER CHR ''Y'' then l0 - 22 else l0)
             in bindR (get_at UPS_Constant_Table index) (\<lambda>c.
                if l1 < uc_ltr2_low_value c \<or> l1 > uc_ltr2_high_value c \<or>
                   l1 \<in> {LETTER CHR ''D'', LETTER CHR ''E'', LETTER CHR ''M'', LETTER CHR ''N'',
                         LETTER CHR ''V'', LETTER CHR ''W''} \<or>
                   l2 > uc_ltr3_high_value c
                then Inr (MGRS_STRING_ERROR, None)
                else Inr (err, Some (Hemisphere,
                       ups_corner_easting (uc_ltr2_low_value c) l1 (uc_false_easting c) + Easting,
                       ups_corner_northing l2 (uc_false_northing c) + Northing)))))
         else Inr (err, None)))"

section \<open>Geodetic coordinates and MGRS\<close>

definition Convert_Geodetic_To_MGRS ::
  "mgrs \<Rightarrow> real \<Rightarrow> real \<Rightarrow> int \<Rightarrow> (mgrs \<times> int \<times> string option) res" where
  "Convert_Geodetic_To_MGRS st Latitude Longitude Precision =
     (let err = MGRS_NO_ERROR;
          err = (if Latitude < - PI_OVER_2 \<or> Latitude > PI_OVER_2 then err OR MGRS_LAT_ERROR else err);
          err = (if Longitude < - PI_C \<or> Longitude > 2 * PI_C then err OR MGRS_LON_ERROR else err);
          err = (if Precision < 0 \<or> Precision > MAX_PRECISION then err OR MGRS_PRECISION_ERROR else err)
      in if err = 0 then
           (if Latitude < MIN_UTM_LAT \<or> Latitude > MAX_UTM_LAT then
              (let (st, temp) = mgrs_set_ups st
               in if temp = 0 then
                    bindR (Convert_Geodetic_To_UPS (MGRS_ups st) Latitude Longitude) (\<lambda>(u, temp, written).
                      let st = st\<lparr>MGRS_ups := u\<rparr>
                      in if temp = 0 then
                           bindR (get_init written) (\<lambda>(hemisphere, easting, northing).
                             mapR (Pair st) (Convert_UPS_To_MGRS hemisphere easting northing Precision))
                         else Inr (st, if_bit temp UPS_LAT_ERROR MGRS_LAT_ERROR OR
                                       if_bit temp UPS_LON_ERROR MGRS_LON_ERROR, None))
                  else Inr (st, from_set_ups_error temp, None))
            else
              (let (st, temp) = mgrs_set_utm st 0
               in if temp = 0 then
                    bindR (Convert_Geodetic_To_UTM (MGRS_utm st) Latitude Longitude) (\<lambda>(u, temp, written).
                      let st = st\<lparr>MGRS_utm := u\<rparr>
                      in if temp = 0 then
                           bindR (get_init written) (\<lambda>p.
                             UTM_To_MGRS st (utm_Zone p) (utm_Hemisphere p) Longitude Latitude
                               (utm_Easting p) (utm_Northing p) Precision)
                         else Inr (st, from_geodetic_to_utm_error temp, None))
                  else Inr (st, from_set_utm_error temp, None)))
         else Inr (st, err, None))"

text \<open>The two branches of \<open>Convert_MGRS_To_Geodetic\<close>. The second contains the loop of the polar
  projection, so the whole is \<open>None\<close> when that loop does not end.\<close>

definition mgrs_utm_to_geodetic :: "mgrs \<Rightarrow> string \<Rightarrow> (mgrs \<times> int \<times> (real \<times> real) option) res" where
  "mgrs_utm_to_geodetic st MGRS =
     bindR (Convert_MGRS_To_UTM st MGRS) (\<lambda>(st, err, written).
       if err = 0 \<or> err AND MGRS_LAT_WARNING \<noteq> 0 then
         (let (st, temp) = mgrs_set_utm st 0
          in if temp = 0 then
               bindR (get_init written) (\<lambda>(zone, hemisphere, easting, northing).
               bindR (Convert_UTM_To_Geodetic (MGRS_utm st) zone hemisphere easting northing)
                 (\<lambda>(u, temp, out).
                    Inr (st\<lparr>MGRS_utm := u\<rparr>, err OR (if temp \<noteq> 0 then from_utm_to_geodetic_error temp else 0), out)))
             else Inr (st, err OR from_set_utm_error temp, None))
       else Inr (st, err, None))"

definition mgrs_ups_to_geodetic :: "mgrs \<Rightarrow> string \<Rightarrow> (mgrs \<times> int \<times> (real \<times> real) option) res option" where
  "mgrs_ups_to_geodetic st MGRS =
     (case Convert_MGRS_To_UPS MGRS of
        Inl e \<Rightarrow> Some (Inl e)
      | Inr (err, written) \<Rightarrow>
          if err = 0 then
            (let (st, temp) = mgrs_set_ups st
             in if temp = 0 then
                  (case written of
                     None \<Rightarrow> Some (Inl Uninitialised)
                   | Some (hemisphere, easting, northing) \<Rightarrow>
                       map_option (mapR (\<lambda>(u, temp, out).
                         (st\<lparr>MGRS_ups := u\<rparr>,
                          err OR if_bit temp UPS_HEMISPHERE_ERROR MGRS_STRING_ERROR OR
                            if_bit temp UPS_EASTING_ERROR MGRS_EASTING_ERROR OR
                            if_bit temp UPS_LAT_ERROR MGRS_NORTHING_ERROR, out)))
                         (Convert_UPS_To_Geodetic (MGRS_ups st) hemisphere easting northing))
                else Some (Inr (st, err OR from_set_ups_error temp, None)))
          else Some (Inr (st, err, None)))"

definition Convert_MGRS_To_Geodetic ::
  "mgrs \<Rightarrow> string \<Rightarrow> (mgrs \<times> int \<times> (real \<times> real) option) res option" where
  "Convert_MGRS_To_Geodetic st MGRS =
     (case Check_Zone MGRS of
        (err, zone_exists) \<Rightarrow>
          if err = 0 then
            (case zone_exists of
               None \<Rightarrow> Some (Inl Uninitialised)
             | Some True \<Rightarrow> Some (mgrs_utm_to_geodetic st MGRS)
             | Some False \<Rightarrow> mgrs_ups_to_geodetic st MGRS)
          else Some (Inr (st, err, None)))"

end
