(* ===== verification/Mgrs_Laws.thy ===== *)
theory Mgrs_Laws
  imports Mgrs
begin

text \<open>
  What the functions of \<open>libmgrs/mgrs.c\<close> promise: a string that \<open>Make_MGRS_String\<close> writes is broken
  into the same components, the letters of a position name the square of 100 km it is in, and the
  letter of a latitude band is that of a band the latitude is in. The last section shows inputs for
  which the functions leave their tables.
\<close>

section \<open>Printed numbers\<close>

lemma length_digits_of_le: "0 < p \<Longrightarrow> n < 10 ^ p \<Longrightarrow> length (digits_of n) \<le> p"
proof (induction p arbitrary: n)
  case (Suc p)
  show ?case
  proof (cases "n < 10")
    case True
    then show ?thesis by (simp add: digits_of.simps)
  next
    case False
    with Suc.prems have "0 < p" "n div 10 < 10 ^ p" by (cases p; auto)+
    with False Suc.IH [of "n div 10"] show ?thesis by (simp add: digits_of.simps [of n])
  qed
qed simp

lemma show_ld_digits:
  assumes "n < 10 ^ p"
  shows "length (show_ld p (int n)) = p" "\<forall>c \<in> set (show_ld p (int n)). is_digit c"
    "nat_of_digits (show_ld p (int n)) = n"
proof -
  have "length (show_ld p (int n)) = p \<and> (\<forall>c \<in> set (show_ld p (int n)). is_digit c) \<and>
    nat_of_digits (show_ld p (int n)) = n"
  proof (cases "p = 0")
    case True
    then show ?thesis using assms by (simp add: show_ld_def nat_of_digits_def)
  next
    case False
    then have "length (digits_of n) \<le> p" using assms length_digits_of_le by blast
    with False show ?thesis
      using digits_of_digit by (auto simp: show_ld_def show_int_def Let_def is_digit_def)
  qed
  then show "length (show_ld p (int n)) = p" "\<forall>c \<in> set (show_ld p (int n)). is_digit c"
    "nat_of_digits (show_ld p (int n)) = n" by blast+
qed

section \<open>Letters\<close>

lemma alphabet_eq: "''ABCDEFGHIJKLMNOPQRSTUVWXYZ'' = map (\<lambda>k. char_of (65 + k)) [0..<26::nat]"
  by code_simp

lemma alphabet_at_letter:
  assumes "0 \<le> l" "l < 26"
  shows "alphabet_at l = Inr (char_of (65 + nat l))"
proof -
  have "nat l < 26" using assms by simp
  then show ?thesis
    using assms unfolding alphabet_at_def alphabet_eq by (simp add: nth_append)
qed

lemma letter_char:
  assumes "0 \<le> l" "l < 26"
  shows "is_alpha (char_of (65 + nat l))" "letter_index (char_of (65 + nat l)) = l"
    "\<not> is_digit (char_of (65 + nat l))" "char_of (65 + nat l) \<noteq> CHR '' ''"
proof -
  have c: "(of_char (char_of (65 + nat l) :: char) :: nat) = 65 + nat l" using assms by simp
  then have i: "(of_char (char_of (65 + nat l) :: char) :: int) = 65 + l"
    using assms by (metis of_nat_of_char of_nat_add of_nat_numeral int_nat_eq)
  have n: "nat l < 26" using assms by simp
  show "is_alpha (char_of (65 + nat l))" "letter_index (char_of (65 + nat l)) = l"
    "\<not> is_digit (char_of (65 + nat l))"
    using n by (auto simp: is_alpha_def letter_index_def is_digit_def c i)
  show "char_of (65 + nat l) \<noteq> CHR '' ''"
  proof
    assume "char_of (65 + nat l) = CHR '' ''"
    with c have "65 + nat l = of_char (CHR '' '')" by metis
    then show False by simp
  qed
qed

lemma digit_not_alpha: "is_digit c \<Longrightarrow> \<not> is_alpha c"
  by (simp add: is_digit_def is_alpha_def)

section \<open>Strings are broken into what they are made of\<close>

text \<open>The number that stands for an easting or northing: its metres within the square, cut to the
  precision.\<close>

definition in_square :: "real \<Rightarrow> real" where
  "in_square v = (let m = v - 100000 * of_int \<lfloor>v / 100000\<rfloor> in if m \<ge> 999995 / 10 then 99999 else m)"

definition cut_to :: "nat \<Rightarrow> real \<Rightarrow> nat" where
  "cut_to p v = nat \<lfloor>in_square v / 10 ^ (5 - p)\<rfloor>"

lemma in_square_range:
  assumes "0 \<le> v"
  shows "0 \<le> in_square v" "in_square v < 100000"
proof -
  have "of_int \<lfloor>v / 100000\<rfloor> \<le> v / 100000" "v / 100000 < of_int \<lfloor>v / 100000\<rfloor> + 1" by linarith+
  then show "0 \<le> in_square v" "in_square v < 100000" by (simp_all add: in_square_def Let_def)
qed

lemma cut_to_less:
  assumes "0 \<le> v" "p \<le> 5"
  shows "cut_to p v < 10 ^ p"
proof -
  have "(10 :: real) ^ p * 10 ^ (5 - p) = 10 ^ 5" using assms(2) by (simp flip: power_add)
  then have "in_square v < 10 ^ p * 10 ^ (5 - p)" using in_square_range(2) [OF assms(1)] by simp
  then have "in_square v / 10 ^ (5 - p) < 10 ^ p" by (simp add: divide_less_eq)
  then have "\<lfloor>in_square v / 10 ^ (5 - p)\<rfloor> < 10 ^ p"
    by (metis floor_less_iff of_int_numeral of_int_power)
  then show ?thesis
    using in_square_range(1) [OF assms(1)] by (simp add: cut_to_def nat_less_iff)
qed

lemma make_digits_eq:
  assumes "0 \<le> v" "p \<le> 5"
  shows "make_digits (int p) v = show_ld p (int (cut_to p v))"
proof -
  have d: "10 powi (5 - int p) = (10 :: real) ^ (5 - p)"
    using assms(2) by (simp add: power_int_def nat_diff_distrib)
  have m: "(let w = c_fmod v 100000 in if w \<ge> 999995 / 10 then 99999 else w) = in_square v"
    using assms(1) by (simp add: c_fmod_def in_square_def Let_def trunc_to_int_nonneg)
  have "0 \<le> in_square v / 10 ^ (5 - p)" using in_square_range(1) [OF assms(1)] by simp
  then show ?thesis
    using m by (simp add: make_digits_def Let_def d cut_to_def trunc_to_int_nonneg)
qed

lemma span_alpha:
  assumes "\<forall>c \<in> set ls. is_alpha c" "\<forall>c \<in> set ds. is_digit c"
  shows "takeWhile is_alpha (ls @ ds) = ls" "dropWhile is_alpha (ls @ ds) = ds"
  using assms digit_not_alpha by (cases ds; auto simp: takeWhile_append dropWhile_append)+

lemma break_digits_pair:
  assumes "length xs = p" "length ys = p" "p \<le> 5"
  shows "break_digits (xs @ ys) = (0, Some (real (nat_of_digits xs) * 10 ^ (5 - p),
     real (nat_of_digits ys) * 10 ^ (5 - p), int p))"
proof -
  have "10 powi (5 - int p) = (10 :: real) ^ (5 - p)"
    using assms(3) by (simp add: power_int_def nat_diff_distrib)
  then show ?thesis
    using assms by (cases "p = 0") (auto simp: break_digits_def Let_def mgrs_codes nat_of_digits_def)
qed
definition valid_letter :: "int \<Rightarrow> bool" where
  "valid_letter l \<longleftrightarrow> 0 \<le> l \<and> l < 26 \<and> l \<noteq> LETTER CHR ''I'' \<and> l \<noteq> LETTER CHR ''O''"

text \<open>The text of a zone: two digits, or nothing for the polar areas.\<close>

definition zone_text :: "nat \<Rightarrow> string" where
  "zone_text z = (if z \<noteq> 0 then show_int 2 (int z) else '''')"

lemma zone_text_digits:
  assumes "z \<le> 60"
  shows "\<forall>c \<in> set (zone_text z). is_digit c" "break_zone (zone_text z) = (0, Some (int z))"
proof -
  have "length (zone_text z) \<le> 2 \<and> (\<forall>c \<in> set (zone_text z). is_digit c) \<and>
      (z \<noteq> 0 \<longrightarrow> nat_of_digits (zone_text z) = z \<and> zone_text z \<noteq> [])"
    using show_ld_digits [of z 2] assms by (auto simp: zone_text_def show_ld_def)
  then show "\<forall>c \<in> set (zone_text z). is_digit c" "break_zone (zone_text z) = (0, Some (int z))"
    using assms by (auto simp: break_zone_def Let_def mgrs_codes zone_text_def)
qed

lemma make_break_string:
  assumes "z \<le> 60" "valid_letter a" "valid_letter b" "valid_letter c" "0 \<le> e" "0 \<le> n" "p \<le> 5"
  shows "\<exists>s. Make_MGRS_String (int z) [a, b, c] e n (int p) = Inr s \<and>
    Break_MGRS_String s = (0, Some (int z), Some [a, b, c],
      Some (real (cut_to p e) * 10 ^ (5 - p), real (cut_to p n) * 10 ^ (5 - p), int p))"
proof -
  let ?l = "\<lambda>l :: int. char_of (65 + nat l) :: char"
  let ?ls = "[?l a, ?l b, ?l c]" and ?E = "show_ld p (int (cut_to p e))" and ?N = "show_ld p (int (cut_to p n))"
  let ?s = "zone_text z @ ?ls @ ?E @ ?N"
  have v: "0 \<le> a" "a < 26" "0 \<le> b" "b < 26" "0 \<le> c" "c < 26"
    using assms(2-4) by (simp_all add: valid_letter_def)
  have abc: "alphabet_at a = Inr (?l a)" "alphabet_at b = Inr (?l b)" "alphabet_at c = Inr (?l c)"
    using v by (simp_all only: alphabet_at_letter)
  have make: "Make_MGRS_String (int z) [a, b, c] e n (int p) = Inr ?s"
    by (simp add: Make_MGRS_String_def abc make_digits_eq [OF assms(5,7)] make_digits_eq [OF assms(6,7)]
        zone_text_def)
  note E = show_ld_digits [OF cut_to_less [OF assms(5,7)]] and N = show_ld_digits [OF cut_to_less [OF assms(6,7)]]
  note Z = zone_text_digits [OF assms(1)]
  have la: "\<forall>x \<in> set ?ls. is_alpha x" "\<not> is_digit (?l a)" "?l a \<noteq> CHR '' ''"
    using letter_char(1) [OF v(1,2)] letter_char(1) [OF v(3,4)] letter_char(1) [OF v(5,6)]
      letter_char(3,4) [OF v(1,2)] by simp_all
  have sp: "dropWhile (\<lambda>c. c = CHR '' '') ?s = ?s"
    using Z(1) la(3) is_digitD(10) by (cases "zone_text z") auto
  have dz: "takeWhile is_digit ?s = zone_text z" "dropWhile is_digit ?s = ?ls @ ?E @ ?N"
    using Z(1) la(2) by (simp_all add: takeWhile_append dropWhile_append)
  have en: "\<forall>x \<in> set (?E @ ?N). is_digit x" using E(2) N(2) by auto
  have bl: "break_letters ?ls = (0, Some [a, b, c])"
    using assms(2-4)
    by (simp add: break_letters_def Let_def valid_letter_def mgrs_codes letter_char(2) v)
  have bd: "break_digits (?E @ ?N) = (0, Some (real (cut_to p e) * 10 ^ (5 - p), real (cut_to p n) * 10 ^ (5 - p), int p))"
    using break_digits_pair [OF E(1) N(1) assms(7)] E(3) N(3) by simp
  have tw: "takeWhile is_digit (?E @ ?N) = ?E @ ?N" using en by simp
  have "Break_MGRS_String ?s = (0, Some (int z), Some [a, b, c],
      Some (real (cut_to p e) * 10 ^ (5 - p), real (cut_to p n) * 10 ^ (5 - p), int p))"
    unfolding Break_MGRS_String_def Let_def sp dz span_alpha [OF la(1) en] Z(2) prod.case bl tw bd
    by (simp add: mgrs_codes)
  with make show ?thesis by blast
qed

text \<open>C37: an MGRS string breaks into the components it was made of: the zone, the three letters, the
  precision, and the easting and northing within their square of 100 km, cut to the precision.\<close>

theorem mgrs_string_roundtrip:
  assumes "z \<le> 60" "valid_letter a" "valid_letter b" "valid_letter c" "0 \<le> e" "0 \<le> n" "p \<le> 5"
  shows "\<exists>s. Make_MGRS_String (int z) [a, b, c] e n (int p) = Inr s \<and>
    Break_MGRS_String s = (0, Some (int z), Some [a, b, c],
      Some (real (cut_to p e) * 10 ^ (5 - p), real (cut_to p n) * 10 ^ (5 - p), int p))"
  by (rule make_break_string [OF assms])

theorem mgrs_string_roundtrip_witness:
  "\<exists>s. Make_MGRS_String 31 [LETTER CHR ''U'', LETTER CHR ''D'', LETTER CHR ''Q''] 448251 5411932 5 = Inr s \<and>
     Break_MGRS_String s = (0, Some 31, Some [20, 3, 16], Some (48251, 11932, 5))"
proof -
  have "valid_letter (LETTER CHR ''U'')" "valid_letter (LETTER CHR ''D'')" "valid_letter (LETTER CHR ''Q'')"
    by (simp_all add: valid_letter_def LETTER_def)
  from mgrs_string_roundtrip [OF _ this, of 31 448251 5411932 5] show ?thesis
    by (simp add: cut_to_def in_square_def LETTER_def)
qed

section \<open>The letters of a square name the square\<close>

text \<open>The south-western corner of the square of 100 km a coordinate is in.\<close>

definition square :: "real \<Rightarrow> int" where
  "square v = \<lfloor>v / 100000\<rfloor>"

lemma reduce_northing_eq:
  assumes "0 \<le> x"
  shows "reduce_northing x = x - 2000000 * of_int \<lfloor>x / 2000000\<rfloor>"
  using assms
proof (induction x rule: reduce_northing.induct)
  case (1 x)
  show ?case
  proof (cases "x \<ge> TWOMIL")
    case True
    then have "\<lfloor>x / 2000000\<rfloor> = \<lfloor>(x - TWOMIL) / 2000000\<rfloor> + 1" by (simp add: TWOMIL_def diff_divide_distrib)
    with 1(1) [OF True] True show ?thesis
      by (subst reduce_northing.simps) (simp add: TWOMIL_def)
  next
    case False
    then have "\<lfloor>x / 2000000\<rfloor> = 0" using 1(2) by (simp add: TWOMIL_def floor_eq_iff)
    with False show ?thesis by (subst reduce_northing.simps) simp
  qed
qed

lemma column_letter_square:
  assumes "(low, high) \<in> {(0, 7), (9, 17), (18, 25)}" "100000 \<le> e" "e < 900000"
  shows "low \<le> column_letter low e" "column_letter low e \<le> high" "valid_letter (column_letter low e)"
    "grid_corner_easting low (column_letter low e) = 100000 * of_int (square e)"
proof -
  have k: "1 \<le> square e" "square e \<le> 8" using assms(2,3) by (simp_all add: square_def le_floor_iff floor_le_iff)
  have t: "trunc_to_int (e / 100000) = square e"
    using assms(2) by (simp add: square_def trunc_to_int_nonneg)
  show "low \<le> column_letter low e" "column_letter low e \<le> high" "valid_letter (column_letter low e)"
    "grid_corner_easting low (column_letter low e) = 100000 * of_int (square e)"
    using assms(1) k
    by (auto simp: column_letter_def grid_corner_easting_def Let_def t valid_letter_def LETTER_def ONEHT_def
        algebra_simps)
qed

text \<open>The row within a cycle of twenty rows, before and after the two gaps of the alphabet.\<close>

lemma row_of_letter:
  assumes "0 \<le> i" "i < 20"
  defines "l \<equiv> (let l = (if i > LETTER CHR ''H'' then i + 1 else i) in if l > LETTER CHR ''N'' then l + 1 else l)"
  shows "valid_letter l" "l \<le> LETTER CHR ''V''" "row_letter_northing l = 100000 * of_int i"
  using assms(1,2)
  by (auto simp: l_def Let_def valid_letter_def LETTER_def row_letter_northing_def ONEHT_def TWOMIL_def algebra_simps)

lemma row_letter_square:
  assumes "off \<in> {0, 500000, 1000000, 1500000}" "0 \<le> n"
  shows "valid_letter (row_letter n off)" "row_letter n off \<le> LETTER CHR ''V''"
    "(let r = row_letter_northing (row_letter n off) - off in if r < 0 then r + TWOMIL else r) =
       100000 * of_int (square n mod 20)"
proof -
  define x where "x = reduce_northing n"
  define m where "m = (if x + off \<ge> TWOMIL then x + off - TWOMIL else x + off)"
  have "n / 2000000 = n / 100000 / 20" by simp
  then have f: "\<lfloor>n / 2000000\<rfloor> = square n div 20"
    using floor_divide_real_eq_div [of 20 "n / 100000"] by (simp add: square_def)
  have "x / 100000 = n / 100000 - of_int (20 * (square n div 20))"
    unfolding x_def reduce_northing_eq [OF assms(2)] f by (simp add: diff_divide_distrib)
  then have "square x = square n - 20 * (square n div 20)"
    unfolding square_def by (simp only: floor_diff_of_int)
  then have xs: "square x = square n mod 20" by (simp add: minus_mult_div_eq_mod)
  have x: "0 \<le> x" "x < 2000000"
    unfolding x_def reduce_northing_eq [OF assms(2)] by linarith+
  have m: "0 \<le> m" "m < 2000000" using x assms(1) by (auto simp: m_def TWOMIL_def)
  have off: "off = 100000 * of_int (square off)" using assms(1) by (auto simp: square_def)
  have cond: "x + off \<ge> TWOMIL \<longleftrightarrow> square x + square off \<ge> 20"
  proof -
    have "x + off \<ge> TWOMIL \<longleftrightarrow> of_int (20 - square off) \<le> x / 100000"
      by (subst off) (simp add: TWOMIL_def le_divide_eq algebra_simps)
    then show ?thesis unfolding le_floor_iff [symmetric] square_def [symmetric] by linarith
  qed
  have "m / 100000 = x / 100000 + of_int (if square x + square off \<ge> 20 then square off - 20 else square off)"
    unfolding m_def cond by (subst (2 3) off) (simp add: TWOMIL_def add_divide_distrib diff_divide_distrib)
  then have ms: "square m = (if square x + square off \<ge> 20 then square x + square off - 20 else square x + square off)"
    unfolding square_def [of m] by (simp only: floor_add_int [symmetric] square_def) simp
  have i: "0 \<le> square m" "square m < 20" using m by (simp_all add: square_def floor_less_iff)
  have "trunc_to_int (m / ONEHT) = square m"
    using m(1) by (simp add: square_def trunc_to_int_nonneg ONEHT_def)
  then have l: "row_letter n off = (let l = (if square m > LETTER CHR ''H'' then square m + 1 else square m)
      in if l > LETTER CHR ''N'' then l + 1 else l)"
    by (simp add: row_letter_def x_def [symmetric] m_def [symmetric] Let_def)
  note r = row_of_letter [OF i, folded l]
  show "valid_letter (row_letter n off)" "row_letter n off \<le> LETTER CHR ''V''" by (fact r)+
  have "0 \<le> square x" "square x < 20" using x by (simp_all add: square_def floor_less_iff)
  with off show "(let r = row_letter_northing (row_letter n off) - off in if r < 0 then r + TWOMIL else r) =
       100000 * of_int (square n mod 20)"
    unfolding r(3) xs [symmetric] using ms assms(1) by (auto simp: Let_def TWOMIL_def)
qed

lemma Get_Grid_Values_cases:
  assumes "1 \<le> zone" "Get_Grid_Values st zone = (ltr2, off)"
  shows "\<exists>low high. ltr2 = Some (low, high) \<and> (low, high) \<in> {(0, 7), (9, 17), (18, 25)}"
    "off \<in> {0, 500000, 1000000, 1500000}"
proof -
  have "c_mod zone 6 = zone mod 6" using assms(1) by (simp add: c_mod_nonneg)
  moreover have "zone mod 6 \<in> {0, 1, 2, 3, 4, 5}" by auto
  ultimately show "\<exists>low high. ltr2 = Some (low, high) \<and> (low, high) \<in> {(0, 7), (9, 17), (18, 25)}"
    "off \<in> {0, 500000, 1000000, 1500000}"
    using assms(2) by (auto simp: Get_Grid_Values_def Let_def LETTER_def split: if_splits)
qed

lemma band_table:
  assumes "band_index l = Some i"
  shows "lb_northing_offset (Latitude_Band_Table ! i) = 2000000 * of_int \<lfloor>lb_min_northing (Latitude_Band_Table ! i) / 2000000\<rfloor>"
proof -
  have "\<forall>b \<in> set Latitude_Band_Table. lb_northing_offset b = 2000000 * of_int \<lfloor>lb_min_northing b / 2000000\<rfloor>"
    by (simp add: Latitude_Band_Table_def)
  moreover have "i < length Latitude_Band_Table"
    using assms by (auto simp: band_index_def LETTER_def Latitude_Band_Table_def split: if_splits)
  ultimately show ?thesis using nth_mem by blast
qed

lemma cycle_unique:
  fixes q lo :: int
  assumes "lo \<le> q" "q < lo + 20"
  shows "(let g = q mod 20 + 20 * (lo div 20) in if g < lo then g + 20 else g) = q"
proof -
  obtain a r where q: "q div 20 = a" "q mod 20 = r" "q = 20 * a + r" "0 \<le> r" "r < 20"
    using that [of "q div 20" "q mod 20"] by simp
  obtain b t where l: "lo div 20 = b" "lo = 20 * b + t" "0 \<le> t" "t < 20"
    using that [of "lo div 20" "lo mod 20"] by simp
  have "a = b \<or> a = b + 1" using assms q l by linarith
  then show ?thesis using assms q l(2-4) unfolding Let_def q(2) l(1) by auto
qed

text \<open>C38: the second and the third letter of a position with valid UTM coordinates are letters the
  reader accepts for its zone, and the reader computes from them the south-western corner of the
  square of 100 km the position is in, when the northing of that corner is in the cycle of 2000 km
  that starts with the band of the first letter.\<close>

theorem grid_square_roundtrip:
  assumes "1 \<le> zone" "Get_Grid_Values st zone = (Some (low, high), off)" "100000 \<le> e" "e < 900000" "0 \<le> n"
    and "band_index l0 = Some i" "lo = lb_min_northing (Latitude_Band_Table ! i)"
    and "lo \<le> 100000 * of_int (square n)" "100000 * of_int (square n) < lo + 2000000"
  shows "low \<le> column_letter low e \<and> column_letter low e \<le> high \<and> valid_letter (column_letter low e) \<and>
    valid_letter (row_letter n off) \<and> row_letter n off \<le> LETTER CHR ''V'' \<and>
    grid_corner_easting low (column_letter low e) = 100000 * of_int (square e) \<and>
    grid_corner_northing (row_letter n off) off lo (lb_northing_offset (Latitude_Band_Table ! i)) =
      100000 * of_int (square n)"
proof -
  have lh: "(low, high) \<in> {(0, 7), (9, 17), (18, 25)}" and off: "off \<in> {0, 500000, 1000000, 1500000}"
    using Get_Grid_Values_cases [OF assms(1,2)] by auto
  note col = column_letter_square [OF lh assms(3,4)] and row = row_letter_square [OF off assms(5)]
  have int: "\<exists>j. lo = 100000 * of_int j"
  proof -
    have "\<forall>b \<in> set Latitude_Band_Table. lb_min_northing b = 100000 * of_int \<lfloor>lb_min_northing b / 100000\<rfloor>"
      by (simp add: Latitude_Band_Table_def)
    moreover have "i < length Latitude_Band_Table"
      using assms(6) by (auto simp: band_index_def LETTER_def Latitude_Band_Table_def split: if_splits)
    ultimately show ?thesis unfolding assms(7) using nth_mem by blast
  qed
  then obtain j where j: "lo = 100000 * of_int j" by blast
  have "lo / 2000000 = of_int j / of_int 20" by (simp add: j)
  then have o: "lb_northing_offset (Latitude_Band_Table ! i) = 2000000 * of_int (j div 20)"
    using band_table [OF assms(6)] by (simp only: assms(7) [symmetric] floor_divide_of_int_eq)
  have cyc: "(let g = square n mod 20 + 20 * (j div 20) in if g < j then g + 20 else g) = square n"
    using assms(8,9) by (intro cycle_unique) (simp_all add: j)
  have "grid_corner_northing (row_letter n off) off lo (lb_northing_offset (Latitude_Band_Table ! i)) =
      100000 * of_int (let g = square n mod 20 + 20 * (j div 20) in if g < j then g + 20 else g)"
    using row(3) by (simp add: grid_corner_northing_def o j Let_def TWOMIL_def algebra_simps)
  then show ?thesis unfolding cyc using col row by blast
qed

theorem grid_square_roundtrip_witness:
  "Get_Grid_Values mgrs_init 31 = (Some (0, 7), 0) \<and> grid_corner_easting 0 (column_letter 0 448251) = 400000 \<and>
   grid_corner_northing (row_letter 5411932 0) 0 5300000 4000000 = 5400000"
proof -
  have g: "Get_Grid_Values mgrs_init 31 = (Some (0, 7), 0)"
    by (simp add: Get_Grid_Values_def mgrs_init_def c_mod_nonneg LETTER_def)
  have b: "band_index 20 = Some 16" by (simp add: band_index_def LETTER_def)
  have t: "lb_min_northing (Latitude_Band_Table ! 16) = 5300000"
    "lb_northing_offset (Latitude_Band_Table ! 16) = 4000000"
    by (simp_all add: Latitude_Band_Table_def)
  have s: "square 448251 = 4" "square 5411932 = 54" by (simp_all add: square_def)
  show ?thesis
    using grid_square_roundtrip [OF _ g, of 448251 5411932 20 16 5300000] b t s g by simp
qed

section \<open>Latitude bands\<close>

lemma band_letter_index: "i < 20 \<Longrightarrow> band_index (lb_letter (Latitude_Band_Table ! i)) = Some i"
  by (auto simp: Latitude_Band_Table_def less_Suc_eq numeral_eq_Suc band_index_def LETTER_def)

lemma band_limits:
  assumes "i < 20"
  shows "lb_south (Latitude_Band_Table ! i) = (if i = 0 then - (805 / 10) else 8 * real i - 80)"
    "lb_north (Latitude_Band_Table ! i) = (if i = 19 then 845 / 10 else 8 * real i - 72)"
proof -
  have "\<forall>i \<in> set [0..<20]. lb_south (Latitude_Band_Table ! i) = (if i = 0 then - (805 / 10) else 8 * real i - 80) \<and>
    lb_north (Latitude_Band_Table ! i) = (if i = 19 then 845 / 10 else 8 * real i - 72)"
    by (simp add: upt_rec Latitude_Band_Table_def)
  then show "lb_south (Latitude_Band_Table ! i) = (if i = 0 then - (805 / 10) else 8 * real i - 80)"
    "lb_north (Latitude_Band_Table ! i) = (if i = 19 then 845 / 10 else 8 * real i - 72)"
    using assms by auto
qed

text \<open>C40: every latitude above 80.5 degrees south and below 84.5 degrees north gets the letter of a
  latitude band it is in, up to a rounding of less than a nanoradian.\<close>

theorem latitude_letter_correct:
  assumes "- (805 / 10) < latitude * RAD_TO_DEG" "latitude * RAD_TO_DEG < 845 / 10"
  shows "\<exists>l north south. Get_Latitude_Letter latitude = (0, Some l) \<and>
    Get_Latitude_Range l = (0, Some (north, south)) \<and>
    south - 1 / 10 ^ 9 \<le> latitude \<and> latitude \<le> north + 1 / 10 ^ 9"
proof -
  define i where "i = (if latitude * RAD_TO_DEG \<ge> 72 then 19
    else nat (trunc_to_int ((latitude + 80 * DEG_TO_RAD) / (8 * DEG_TO_RAD) + 1 / 10 ^ 12)))"
  let ?b = "Latitude_Band_Table ! i"
  have X: "lb_letter (Latitude_Band_Table ! 19) = LETTER CHR ''X''"
    by (simp add: Latitude_Band_Table_def)
  have l: "Get_Latitude_Letter latitude = (0, Some (lb_letter ?b))"
    using assms by (simp add: Get_Latitude_Letter_def Let_def mgrs_codes i_def X)
  define t where "t = (latitude + 80 * DEG_TO_RAD) / (8 * DEG_TO_RAD) + 1 / 10 ^ 12"
  have lat: "latitude = (8 * (t - 1 / 10 ^ 12) - 80) * DEG_TO_RAD"
  proof -
    have "DEG_TO_RAD \<noteq> 0" by (simp add: DEG_TO_RAD_def)
    then show ?thesis by (simp add: t_def field_simps)
  qed
  have "i < 20 \<and> lb_south ?b * DEG_TO_RAD - 1 / 10 ^ 9 \<le> latitude \<and> latitude \<le> lb_north ?b * DEG_TO_RAD + 1 / 10 ^ 9"
  proof (cases "latitude * RAD_TO_DEG \<ge> 72")
    case True
    then have "i = 19" by (simp add: i_def)
    then show ?thesis
      using True assms(2) band_limits [of 19] by (simp add: RAD_TO_DEG_def DEG_TO_RAD_def)
  next
    case False
    have tr: "- (1 / 10) < t" "t < 20" using assms(1) False unfolding lat
      by (simp_all add: RAD_TO_DEG_def DEG_TO_RAD_def)
    have i: "i = nat (trunc_to_int t)" using False by (simp add: i_def t_def)
    have "i < 20 \<and> real i \<le> max 0 t \<and> t < real i + 1"
    proof (cases "t < 0")
      case True
      then have "trunc_to_int t = 0" using tr(1) by (simp add: trunc_to_int_def ceiling_eq_iff)
      with True show ?thesis by (simp add: i)
    next
      case t: False
      then have "trunc_to_int t = \<lfloor>t\<rfloor>" "0 \<le> \<lfloor>t\<rfloor>" by (simp_all add: trunc_to_int_nonneg)
      moreover have "of_int \<lfloor>t\<rfloor> \<le> t" "t < of_int \<lfloor>t\<rfloor> + 1" by linarith+
      moreover have "\<lfloor>t\<rfloor> < 20" using tr(2) by (simp add: floor_less_iff)
      ultimately show ?thesis using t by (simp add: i nat_less_iff)
    qed
    then show ?thesis
      using band_limits [of i] tr assms(1) unfolding lat
      by (auto simp: DEG_TO_RAD_def RAD_TO_DEG_def field_simps max_def split: if_splits)
  qed
  moreover from this have "Get_Latitude_Range (lb_letter ?b) = (0, Some (lb_north ?b * DEG_TO_RAD, lb_south ?b * DEG_TO_RAD))"
    by (simp add: Get_Latitude_Range_def band_letter_index mgrs_codes)
  ultimately show ?thesis using l by blast
qed

theorem latitude_letter_correct_witness:
  "\<exists>north south. Get_Latitude_Letter 0 = (0, Some (LETTER CHR ''N'')) \<and>
     Get_Latitude_Range (LETTER CHR ''N'') = (0, Some (north, south)) \<and> 0 \<le> north + 1 / 10 ^ 9"
proof -
  have "(0 + 80 * DEG_TO_RAD) / (8 * DEG_TO_RAD) + 1 / 10 ^ 12 = 10 + 1 / 10 ^ 12" by (simp add: DEG_TO_RAD_def)
  moreover have "trunc_to_int (10 + 1 / 10 ^ 12) = 10" by (simp add: trunc_to_int_def floor_eq_iff)
  moreover have "lb_letter (Latitude_Band_Table ! 10) = LETTER CHR ''N''" by (simp add: Latitude_Band_Table_def)
  ultimately have "Get_Latitude_Letter 0 = (0, Some (LETTER CHR ''N''))"
    unfolding Get_Latitude_Letter_def Let_def by (simp add: mgrs_codes)
  with latitude_letter_correct [of 0] show ?thesis by auto
qed

section \<open>Polar areas\<close>

lemma trunc_square:
  assumes "100000 * of_int k \<le> v"
  shows "trunc_to_int ((v - 100000 * of_int k) / ONEHT) = square v - k"
proof -
  have "(v - 100000 * of_int k) / 100000 = v / 100000 - of_int k" by (simp add: diff_divide_distrib)
  then have "\<lfloor>(v - 100000 * of_int k) / 100000\<rfloor> = square v - k" by (simp only: floor_diff_of_int square_def)
  then show ?thesis
    using assms unfolding ONEHT_def by (subst trunc_to_int_nonneg) simp_all
qed

lemma ups_row_square:
  assumes "100000 * of_int k \<le> n" "square n - k < 24"
  defines "l \<equiv> ups_row_letter (n - 100000 * of_int k)"
  shows "valid_letter l" "square n - k < 14 \<Longrightarrow> l \<le> LETTER CHR ''P''"
    "ups_corner_northing l (100000 * of_int k) = 100000 * of_int (square n)"
proof -
  have k: "k \<le> square n" using assms(1) by (simp add: square_def le_floor_iff)
  have l: "l = (if square n - k \<le> 7 then square n - k else if square n - k \<le> 12 then square n - k + 1
      else square n - k + 2)"
    unfolding l_def ups_row_letter_def trunc_square [OF assms(1)] by (simp add: Let_def LETTER_def)
  show "valid_letter l" "square n - k < 14 \<Longrightarrow> l \<le> LETTER CHR ''P''"
    using k assms(2) by (simp_all add: l valid_letter_def LETTER_def)
  show "ups_corner_northing l (100000 * of_int k) = 100000 * of_int (square n)"
    using k assms(2) unfolding l by (auto simp: ups_corner_northing_def Let_def LETTER_def ONEHT_def)
qed

text \<open>The letters the reader rejects in the second place.\<close>

definition unused_columns :: "int set" where
  "unused_columns = {LETTER CHR ''D'', LETTER CHR ''E'', LETTER CHR ''M'', LETTER CHR ''N'', LETTER CHR ''V'',
     LETTER CHR ''W''}"

lemma ups_column_west:
  assumes "800000 \<le> e" "e < 2000000"
  defines "l \<equiv> ups_column_letter (LETTER CHR ''J'') e (e - 800000)"
  shows "valid_letter l" "LETTER CHR ''J'' \<le> l" "l \<notin> unused_columns"
    "ups_corner_easting (LETTER CHR ''J'') l 800000 = 100000 * of_int (square e)"
proof -
  have k: "8 \<le> square e" "square e < 20" using assms(1,2) by (simp_all add: square_def le_floor_iff floor_less_iff)
  have t: "trunc_to_int ((e - 800000) / 100000) = square e - 8"
    using trunc_square [of 8 e] assms(1) by (simp add: ONEHT_def)
  show "valid_letter l" "LETTER CHR ''J'' \<le> l" "l \<notin> unused_columns"
    "ups_corner_easting (LETTER CHR ''J'') l 800000 = 100000 * of_int (square e)"
    using k assms(2)
    by (auto simp: l_def ups_column_letter_def ups_corner_easting_def Let_def valid_letter_def LETTER_def
        unused_columns_def TWOMIL_def ONEHT_def t algebra_simps)
qed

lemma ups_column_east:
  assumes "2000000 \<le> e" "e < 3200000"
  defines "l \<equiv> ups_column_letter (LETTER CHR ''A'') e (e - 2000000)"
  shows "valid_letter l" "l \<notin> unused_columns" "l \<le> LETTER CHR ''R''" "e < 2700000 \<Longrightarrow> l \<le> LETTER CHR ''J''"
    "ups_corner_easting (LETTER CHR ''A'') l 2000000 = 100000 * of_int (square e)"
proof -
  have k: "20 \<le> square e" "square e < 32" "e < 2700000 \<Longrightarrow> square e < 27"
    using assms(1,2) by (simp_all add: square_def le_floor_iff floor_less_iff)
  have t: "trunc_to_int ((e - 2000000) / 100000) = square e - 20"
    using trunc_square [of 20 e] assms(1) by (simp add: ONEHT_def)
  show "valid_letter l" "l \<notin> unused_columns" "l \<le> LETTER CHR ''R''" "e < 2700000 \<Longrightarrow> l \<le> LETTER CHR ''J''"
    "ups_corner_easting (LETTER CHR ''A'') l 2000000 = 100000 * of_int (square e)"
    using k assms(1)
    by (auto simp: l_def ups_column_letter_def ups_corner_easting_def Let_def valid_letter_def LETTER_def
        unused_columns_def TWOMIL_def ONEHT_def t algebra_simps)
qed

text \<open>The entry of the table and the first letter that the converters use for a hemisphere and an easting.\<close>

definition ups_zone_letter :: "char \<Rightarrow> real \<Rightarrow> int" where
  "ups_zone_letter H e =
     (if H = CHR ''N'' then (if e \<ge> 2000000 then 25 else 24) else (if e \<ge> 2000000 then 1 else 0))"

definition ups_entry :: "char \<Rightarrow> real \<Rightarrow> UPS_Constant" where
  "ups_entry H e =
     UPS_Constant_Table ! (if H = CHR ''N'' then (if e \<ge> 2000000 then 3 else 2) else (if e \<ge> 2000000 then 1 else 0))"

text \<open>The part of the polar grid that the letters cover: its western edge, its rows and its columns.\<close>

definition ups_area :: "char \<Rightarrow> real \<Rightarrow> real \<Rightarrow> bool" where
  "ups_area H e n \<longleftrightarrow>
     (if H = CHR ''N'' then 800000 \<le> e \<and> e < 2700000 \<and> 1300000 \<le> n \<and> n < 2700000
      else 800000 \<le> e \<and> e < 3200000 \<and> 800000 \<le> n \<and> n < 3200000)"

lemma ups_entry_at:
  assumes "H \<in> {CHR ''N'', CHR ''S''}"
  shows "get_at UPS_Constant_Table (if H = CHR ''N'' then ups_zone_letter H e - 22 else ups_zone_letter H e) =
      Inr (ups_entry H e)"
    "get_at UPS_Constant_Table (if ups_zone_letter H e \<ge> LETTER CHR ''Y'' then ups_zone_letter H e - 22
      else ups_zone_letter H e) = Inr (ups_entry H e)"
    "(if ups_zone_letter H e \<ge> LETTER CHR ''Y'' then CHR ''N'' else CHR ''S'') = H"
    "valid_letter (ups_zone_letter H e)"
  using assms
  by (auto simp: ups_zone_letter_def ups_entry_def get_at_def UPS_Constant_Table_def LETTER_def valid_letter_def)

lemma ups_rows:
  assumes "H \<in> {CHR ''N'', CHR ''S''}" "ups_area H e n"
  defines "c \<equiv> ups_entry H e"
  defines "l \<equiv> ups_row_letter (n - uc_false_northing c)"
  shows "valid_letter l" "l \<le> uc_ltr3_high_value c"
    "ups_corner_northing l (uc_false_northing c) = 100000 * of_int (square n)"
proof -
  have N: "13 \<le> square n \<and> square n < 27" if "H = CHR ''N''"
    using assms(2) that by (auto simp: ups_area_def square_def le_floor_iff floor_less_iff)
  have S: "8 \<le> square n \<and> square n < 32" if "H = CHR ''S''"
    using assms(2) that by (auto simp: ups_area_def square_def le_floor_iff floor_less_iff)
  show "valid_letter l" "l \<le> uc_ltr3_high_value c"
    "ups_corner_northing l (uc_false_northing c) = 100000 * of_int (square n)"
    using assms(1,2) N S ups_row_square [of 13 n] ups_row_square [of 8 n]
    by (auto simp: l_def c_def ups_entry_def UPS_Constant_Table_def ups_area_def valid_letter_def LETTER_def)
qed

lemma ups_columns:
  assumes "H \<in> {CHR ''N'', CHR ''S''}" "ups_area H e n"
  defines "c \<equiv> ups_entry H e"
  defines "l \<equiv> ups_column_letter (uc_ltr2_low_value c) e (e - uc_false_easting c)"
  shows "valid_letter l" "uc_ltr2_low_value c \<le> l" "l \<le> uc_ltr2_high_value c" "l \<notin> unused_columns"
    "ups_corner_easting (uc_ltr2_low_value c) l (uc_false_easting c) = 100000 * of_int (square e)"
proof -
  have e: "800000 \<le> e" "e < 3200000" "H = CHR ''N'' \<Longrightarrow> e < 2700000"
    using assms(1,2) by (auto simp: ups_area_def split: if_splits)
  show "valid_letter l" "uc_ltr2_low_value c \<le> l" "l \<le> uc_ltr2_high_value c" "l \<notin> unused_columns"
    "ups_corner_easting (uc_ltr2_low_value c) l (uc_false_easting c) = 100000 * of_int (square e)"
    using assms(1) e ups_column_west [of e] ups_column_east [of e]
    by (auto simp: l_def c_def ups_entry_def UPS_Constant_Table_def valid_letter_def LETTER_def not_le)
qed

lemma Convert_MGRS_To_UPS_letters:
  assumes "Break_MGRS_String s = (0, Some 0, Some [l0, l1, l2], Some (E, N, p))"
    "get_at UPS_Constant_Table (if l0 \<ge> LETTER CHR ''Y'' then l0 - 22 else l0) = Inr c"
    "uc_ltr2_low_value c \<le> l1" "l1 \<le> uc_ltr2_high_value c" "l1 \<notin> unused_columns" "l2 \<le> uc_ltr3_high_value c"
  shows "Convert_MGRS_To_UPS s = Inr (0, Some (if l0 \<ge> LETTER CHR ''Y'' then CHR ''N'' else CHR ''S'',
     ups_corner_easting (uc_ltr2_low_value c) l1 (uc_false_easting c) + E,
     ups_corner_northing l2 (uc_false_northing c) + N))"
proof -
  have "\<not> (l1 < uc_ltr2_low_value c \<or> l1 > uc_ltr2_high_value c \<or> l1 \<in> unused_columns \<or> l2 > uc_ltr3_high_value c)"
    using assms(3-6) by simp
  then show ?thesis
    unfolding Convert_MGRS_To_UPS_def assms(1) Let_def unused_columns_def
    by (simp add: assms(2) get_init_def del: insert_iff empty_iff de_Morgan_disj cong: if_cong split del: if_split)
qed

text \<open>C39: a point of the polar areas that is written as an MGRS string and read back is the point again,
  in its hemisphere, with easting and northing cut to the precision of the string: the two tables of letters
  that \<open>Convert_UPS_To_MGRS\<close> and \<open>Convert_MGRS_To_UPS\<close> apply are inverse to each other on every square, and
  neither conversion reports an error there.\<close>

theorem ups_mgrs_roundtrip:
  assumes "H \<in> {CHR ''N'', CHR ''S''}" "ups_area H e n" "p \<le> 5"
  shows "\<exists>s. Convert_UPS_To_MGRS H e n (int p) = Inr (0, Some s) \<and>
    Convert_MGRS_To_UPS s = Inr (0, Some (H,
      100000 * of_int (square e) + real (cut_to p e) * 10 ^ (5 - p),
      100000 * of_int (square n) + real (cut_to p n) * 10 ^ (5 - p)))"
proof -
  let ?c = "ups_entry H e"
  let ?l0 = "ups_zone_letter H e" and ?l1 = "ups_column_letter (uc_ltr2_low_value ?c) e (e - uc_false_easting ?c)"
    and ?l2 = "ups_row_letter (n - uc_false_northing ?c)"
  note entry = ups_entry_at [OF assms(1), of e]
  note rows = ups_rows [OF assms(1,2)] and columns = ups_columns [OF assms(1,2)]
  have range: "0 \<le> e" "e \<le> 4000000" "0 \<le> n" "n \<le> 4000000"
    using assms(2) by (auto simp: ups_area_def split: if_splits)
  obtain s where s: "Make_MGRS_String 0 [?l0, ?l1, ?l2] e n (int p) = Inr s"
      "Break_MGRS_String s = (0, Some 0, Some [?l0, ?l1, ?l2],
        Some (real (cut_to p e) * 10 ^ (5 - p), real (cut_to p n) * 10 ^ (5 - p), int p))"
    using make_break_string [of 0 ?l0 ?l1 ?l2 e n p] entry(4) rows(1) columns(1) range(1,3) assms(3) by auto
  have l0: "(if H = CHR ''N'' then if TWOMIL \<le> e then LETTER CHR ''Z'' else LETTER CHR ''Y''
      else if TWOMIL \<le> e then LETTER CHR ''B'' else LETTER CHR ''A'') = ?l0"
    by (simp add: ups_zone_letter_def TWOMIL_def LETTER_def)
  have hemi: "\<not> (H \<noteq> CHR ''N'' \<and> H \<noteq> CHR ''S'')" using assms(1) by auto
  have make: "Convert_UPS_To_MGRS H e n (int p) = Inr (0, Some s)"
    using range assms(3) hemi
    by (simp add: Convert_UPS_To_MGRS_def Let_def l0 entry(1) s(1) mgrs_codes MIN_EAST_NORTH_def
        MAX_EAST_NORTH_def MAX_PRECISION_def del: de_Morgan_conj)
  have "Convert_MGRS_To_UPS s = Inr (0, Some (H,
      100000 * of_int (square e) + real (cut_to p e) * 10 ^ (5 - p),
      100000 * of_int (square n) + real (cut_to p n) * 10 ^ (5 - p)))"
    using Convert_MGRS_To_UPS_letters [OF s(2) entry(2) columns(2-4) rows(2)]
    by (simp only: entry(3) rows(3) columns(5))
  with make show ?thesis by blast
qed

theorem ups_mgrs_roundtrip_witness:
  "ups_area CHR ''N'' 2123456 1345678 \<and>
   (\<exists>s. Convert_UPS_To_MGRS CHR ''N'' 2123456 1345678 5 = Inr (0, Some s) \<and>
    Convert_MGRS_To_UPS s = Inr (0, Some (CHR ''N'', 2123456, 1345678)))"
proof -
  have sq: "square 2123456 = 21" "square 1345678 = 13" by (simp_all add: square_def floor_eq_iff)
  have c: "cut_to 5 2123456 = 23456" "cut_to 5 1345678 = 45678"
    by (simp_all add: cut_to_def in_square_def Let_def sq flip: square_def)
  have area: "ups_area CHR ''N'' 2123456 1345678" by (simp add: ups_area_def)
  show ?thesis using ups_mgrs_roundtrip [OF _ area, of 5] area by (simp add: sq c)
qed

section \<open>Inputs outside the tables\<close>

text \<open>A string without a zone whose first letter is a band letter is indexed past the table of the four
  polar areas before any check rejects it.\<close>

lemma Convert_MGRS_To_UPS_band_letter: "Convert_MGRS_To_UPS ''MAA'' = Inl OutOfBounds"
  by code_simp

text \<open>An accepted polar northing south of the lettered rows gives a negative index into the alphabet.\<close>

lemma Convert_UPS_To_MGRS_low_northing: "Convert_UPS_To_MGRS CHR ''N'' 2000000 0 5 = Inl OutOfBounds"
  by (simp add: Convert_UPS_To_MGRS_def Let_def mgrs_codes MIN_EAST_NORTH_def MAX_EAST_NORTH_def
      MAX_PRECISION_def get_at_def UPS_Constant_Table_def LETTER_def TWOMIL_def ONEHT_def ups_row_letter_def
      ups_column_letter_def trunc_to_int_def Make_MGRS_String_def alphabet_at_def)

end
