(* ===== verification/Spec2Isabelle.thy ===== *)
theory Spec2Isabelle
  imports Quiet_Mesh Writer_Spec Ascii_Reader Graph_Refinement Srtm_Laws Mgrs_Laws
begin

text \<open>
  The terrain mesh generator of \<open>src/lonestar/graphgrammar2/src\<close>, with the graph it is stored in
  (\<open>src/libgalois/include/galois/graphs/MorphGraph.h\<close>) and the coordinate library it calls
  (\<open>libmgrs\<close>).

  \<^bold>\<open>The program.\<close> \<open>GraphGrammar.cpp\<close> reads the command line (\<open>utils/Config.h\<close>), reads a height map of
  the requested area from SRTM tiles (\<open>readers/SrtmReader.cpp\<close>, stored in \<open>model/Map.h\<close>), and generates
  two triangles over the area (\<open>utils/GraphGenerator.h\<close>). The mesh is a graph whose nodes are vertices and
  interiors: an interior is a node for a triangle and is linked to its three vertices. Each step then
  runs two parallel loops over the nodes. The first marks the triangles that are further from the terrain
  than the tolerance (\<open>conditions/TerrainConditionChecker.h\<close>). The second applies to each interior the
  first of six productions that fits (\<open>productions/Production1.h\<close> to \<open>Production6.h\<close>): they split a marked
  triangle at its longest side, or a triangle with a broken side, that is a side with a hanging vertex in its
  middle. Productions read and change the graph through \<open>utils/ConnectivityManager.h\<close>. The mesh is written by
  \<open>utils/MyGraphFormatWriter.h\<close>.

  \<^bold>\<open>Conventions.\<close> \<open>Mesh_Prelude\<close> has the type \<open>'a res\<close> of calls that may stop the program: \<open>Inl\<close> is a fault
  (an exit code, an index out of bounds, a read of a variable that was not written, an invalid iterator), so
  every early exit of the source is a branch of the model. Values of type \<open>double\<close> are real numbers; rounding is
  not modelled, while the tolerances of the source are (\<open>EPS\<close>, \<open>EPSILON\<close>), and a quotient by zero is
  treated where the source can produce one. Bytes and edge words are machine words. Node handles
  are the indices of the nodes in the order of their creation, which is also the order in which the model
  iterates over the graph. Static variables of the library are records that the functions take
  and return. An output parameter is an option, \<open>None\<close> while it is not written.

  \<^bold>\<open>Theories and sources.\<close>
  \<^item> \<open>C_Lib\<close>: the functions of the C library on text (\<open>sprintf\<close>, \<open>strtod\<close>, \<open>strtoimax\<close>, \<open>getopt\<close>).
  \<^item> \<open>Mesh_Utils\<close>: \<open>utils/utils.h\<close>, \<open>utils/Utils.cpp\<close>. \<open>Mesh_Model\<close>: \<open>model/Coordinates.h\<close>, \<open>NodeData.h\<close>,
    \<open>EdgeData.h\<close>, \<open>Graph.h\<close>.
  \<^item> \<open>Morph_Graph\<close>: \<open>MorphGraph.h\<close>, the undirected instance with adjacency vectors, lazily removed entries and
    edge data shared by both ends. \<open>Graph_Refinement\<close>: its contract, a simple undirected graph.
  \<^item> \<open>Connectivity\<close>: \<open>utils/ConnectivityManager.h\<close>. \<open>Mesh_Store\<close>: the interface between productions and
    graph, as the locales \<open>graph_store\<close> and \<open>triangle_store\<close> and their interpretation \<open>mesh_store\<close> on the
    model of the graph.
  \<^item> \<open>Productions\<close>: \<open>model/ProductionState.h\<close> and \<open>productions/\<close>. \<open>Production_Laws\<close>, \<open>Production_Effects\<close>,
    \<open>Production_Progress\<close>: what each production changes, when it applies and that it returns.
  \<^item> \<open>Mesh_Refinement\<close>: meshes as geometric objects and the bisection step that the productions refine.
  \<^item> \<open>Tran_Merc\<close>, \<open>Utm\<close>, \<open>Polar_Stereographic\<close>, \<open>Ups\<close>, \<open>Mgrs\<close>, \<open>Mgrs_Laws\<close>: \<open>libmgrs/tranmerc.c\<close>, \<open>utm.c\<close>,
    \<open>polarst.c\<close>, \<open>ups.c\<close>, \<open>mgrs.c\<close>.
  \<^item> \<open>Terrain_Map\<close>: \<open>model/Map.cpp\<close> and \<open>Utils::convertToUtm\<close>. \<open>Conditions\<close>: \<open>conditions/\<close>.
  \<^item> \<open>Srtm_Reader\<close>, \<open>Srtm_Laws\<close>: \<open>readers/SrtmReader.cpp\<close>. \<open>Ascii_Reader\<close>: \<open>readers/AsciiReader.cpp\<close>.
  \<^item> \<open>Config\<close>: \<open>utils/Config.h\<close>. \<open>Generator\<close>, \<open>Generator_Laws\<close>: \<open>utils/GraphGenerator.h\<close>. \<open>Writer\<close>,
    \<open>Writer_Laws\<close>, \<open>Writer_Spec\<close>: \<open>utils/MyGraphFormatWriter.h\<close>, with the locale \<open>std_set\<close> for the ordered
    sets, interpreted on the comparisons of strings and of the edges of the file.
  \<^item> \<open>Mesh_Main\<close>: \<open>GraphGrammar.cpp\<close>. \<open>Check_Loop\<close>, \<open>Quiet_Mesh\<close>: its loops. \<open>Mesh_Example\<close>: small
    meshes for the witnesses.

  \<^bold>\<open>What is shown.\<close>
  \<^item> The mesh. A parallel loop is the relation \<open>for_each\<close>, which runs the tasks of the work list one after
    the other in any order. Every order keeps the mesh good (\<open>good\<close>: triangles with distinct vertices and
    positive area, edges as long as the distance of their ends, a vertex in the middle of every broken side)
    and keeps old vertices, area and covered region. A production that applies is a bisection of its
    triangle. Tasks do not fail, triangles with two or more broken sides are split, the order of the productions
    does not matter, the check loop is deterministic, and a mesh within the tolerance is left alone. The
    assumption of these results is \<open>resolved_mesh\<close>: no two nodes coincide up to \<open>EPS\<close>, since the program
    finds hanging vertices by their coordinates.
  \<^item> The graph. The operations of the storage refine those of a simple undirected graph, and every graph a
    client can build is well formed.
  \<^item> Terrain. Heights are bilinear interpolations within the bounds of the cells, do not depend on the state
    of the library, and the terrain condition is whether a sample of the grid violates the tolerance.
  \<^item> Input and output. The readers give exactly the map that the files hold, the command line is read with
    the last option deciding, and the written file represents the mesh exactly.
  \<^item> Coordinates. Conversions to UTM are total on their range, projections are symmetric, and MGRS
    strings and grid letters are read back as they were written.

  \<^bold>\<open>Loops and fuel.\<close> No definition takes fuel. Loops over lists and counters are structural or have a
  termination proof; the loops over \<open>double\<close> counters, the loop of \<open>gcd\<close>, the loops over the tiles and the
  iteration of the polar latitude are partial functions into \<open>option\<close>, where \<open>None\<close> is a loop that does not end,
  and the first three are shown to return under the conditions their theorems state.

  \<^bold>\<open>Not modelled.\<close> The Galois runtime: a task runs as a whole, as the conflict detection of \<open>for_each\<close> promises,
  and locks, work stealing, memory pools and the order of the nodes in the bags of several threads are left
  out. Of \<open>MorphGraph.h\<close> the directed and in-out variants, sorting and parallel construction are not used by
  the program and left out. Rounding of \<open>double\<close>, the formatting of numbers in the written file, log messages,
  statistics, memory pre-allocation and the call of the display script are left out. It is not
  shown that the inverse projection takes every generated vertex back into the map. The other libraries and applications of the repository are separate programs.
\<close>

section \<open>Refinement of the mesh\<close>

text \<open>C1: as long as no two nodes of the meshes on the way coincide, every run of the refinement loop,
  in any order of its tasks, keeps the mesh well formed (triangles with three distinct vertices and
  positive area, edges with the length of the distance of their ends, a vertex exactly in the middle of
  every broken side) and keeps all old vertices, the total area and the covered region.\<close>

theorem refinement_run_good:
  assumes "run_tasks (refine_body j v2D m) w W tr w' W'" "good v2D (w_mesh w)"
    and "\<forall>n \<in># W. n < length (nodes (w_mesh w))" "\<forall>x \<in> set (butlast (w # tr)). resolved_mesh (w_mesh x)"
  shows "\<forall>x \<in> set tr. good v2D (w_mesh x) \<and> keeps (abs_mesh (w_mesh w)) (abs_mesh (w_mesh x))"
  using refine_run_good [OF assms] by (simp add: good_after_def)

theorem refinement_run_good_witness:
  "\<exists>w'. run_tasks (refine_body 0 False (flat_map 7)) marked_world {#4, 5#} [w'] w' {#5, 6, 7, 8#} \<and>
     good False (w_mesh w') \<and> keeps (abs_mesh marked_square) (abs_mesh (w_mesh w'))"
proof -
  obtain w' where w': "refine_task 0 False (flat_map 7) 4 marked_world = Inr (w', [6, 7, 8])"
    using marked_task by blast
  have "run_tasks (refine_body 0 False (flat_map 7)) marked_world {#4, 5#} [w'] w' {#5, 6, 7, 8#}"
    by (rule run_task [where n = 4 and pushed = "[6, 7, 8]"])
      (simp_all add: refine_body_def w' run_nil add_mset_commute)
  moreover from refinement_run_good [OF this, unfolded marked_world_def] have
    "good False (w_mesh w') \<and> keeps (abs_mesh marked_square) (abs_mesh (w_mesh w'))"
    using marked_laws(1) marked_resolved by (simp add: marked_laws(4))
  ultimately show ?thesis by blast
qed







text \<open>C6: the order in which the main loop tries the productions does not matter: every order gives the
  same mesh, the same pushed nodes and the same fault, because at most one production applies.\<close>

theorem production_order_irrelevant:
  assumes "set Ps = set productions"
  shows "try_productions Ps g ps = try_productions productions g ps"
  by (rule try_productions_set [OF assms refl])

theorem production_order_irrelevant_witness:
  "try_productions [P6_execute, P5_execute, P4_execute, P3_execute, P2_execute, P1_execute] two_broken
     (state_at two_broken 5 True sea_level) =
   try_productions productions two_broken (state_at two_broken 5 True sea_level)"
  by (rule production_order_irrelevant) (auto simp: productions_def)



text \<open>C8: the vertex productions 1, 3 and 5 create lies exactly in the middle of a side of the triangle,
  at the height the map has there, and it is marked as hanging exactly when the side is not on the
  border.\<close>

theorem new_vertex_in_the_middle:
  assumes "state_of g n ps" "P \<in> set new_node_productions" "P g ps = Inr (g', pushed, True)"
  shows "\<exists>e < 3. \<exists>d z. let a = coords (getData g (getNeighbours g n ! e));
      b = coords (getData g (getNeighbours g n ! ((e + 1) mod 3)));
      x = (getX a + getX b) / 2; y = (getY a + getY b) / 2
    in edge_val g (getNeighbours g n ! e) (getNeighbours g n ! ((e + 1) mod 3)) = Some d \<and>
       ps_zGetter ps x y = Inr z \<and>
       getData g' (length (nodes g)) = NodeData_vertex False (Coord x y z) (\<not> border d)"
proof -
  from new_node_True [OF assms(2,3)] obtain e where
    e: "e < 3" "breakElementWithoutHangingNode g e ps = Inr (g', pushed)" .
  show ?thesis
    by (rule new_node_split_at [OF assms(1) e], intro exI [of _ e] conjI exI)
      (auto simp: e(1) Let_def midpoint_node_def side_first_def side_second_def)
qed

theorem new_vertex_in_the_middle_witness:
  "\<exists>g' pushed. P1_execute marked_square (state_at marked_square 4 True sea_level) = Inr (g', pushed, True) \<and>
     \<not> hyperEdge (getData g' 6) \<and> getZ (coords (getData g' 6)) = 0"
proof -
  have ok: "mesh_ok marked_square" "4 \<in> set (mesh_interiors marked_square)"
    using marked_laws(1,2) by (simp_all add: good_def)
  obtain g' pushed where P1: "P1_execute marked_square (state_at marked_square 4 True sea_level) = Inr (g', pushed, True)"
    using marked_P1 [OF heights_sea_level] by blast
  have "P1_execute \<in> set new_node_productions" by (simp add: new_node_productions_def)
  from new_vertex_in_the_middle [OF state_at(1) [OF ok] this P1] show ?thesis
    using P1 by (auto simp: Let_def marked_laws(4) state_at(3) [OF ok] sea_level_def)
qed

text \<open>C2: the steps of the program, each with its check loop and its refinement loop in any order of
  their tasks, keep the mesh good from state to state, with all old vertices, the total area and the
  covered region, as long as no two nodes of the meshes on the way coincide; a run without a fault ends
  in such a mesh.\<close>

theorem steps_keep_mesh_good:
  assumes "step_loop cf m j w tr r" "good (version2D cf) (w_mesh w)" "\<forall>x \<in> set (w # tr). resolved_mesh (w_mesh x)"
  shows "\<forall>x \<in> set tr \<union> {x. r = Inr x}. good (version2D cf) (w_mesh x) \<and> keeps (abs_mesh (w_mesh w)) (abs_mesh (w_mesh x))"
proof
  note s = step_loop_good [OF assms]
  fix x assume "x \<in> set tr \<union> {x. r = Inr x}"
  then have "x = w \<or> x \<in> set tr" using s by (auto split: if_splits)
  then show "good (version2D cf) (w_mesh x) \<and> keeps (abs_mesh (w_mesh w)) (abs_mesh (w_mesh x))"
    using s assms(2) by (auto simp: good_after_def)
qed

theorem steps_keep_mesh_good_witness:
  "\<exists>tr w'. step_loop (Config_default 4) (flat_map 0) 0 flat_world tr (Inr w') \<and> good False (w_mesh w') \<and>
     keeps (abs_mesh (sample_square empty_graph)) (abs_mesh (w_mesh w'))"
proof -
  let ?g = "sample_square empty_graph"
  have st: "settled (\<lambda>x y. 0) (flat_map 0) (tolerance (Config_default 4)) ?g"
    using flat_settled by (simp add: Config_default_def)
  have step: "0 < sampling_step (flat_map 0)" by (simp add: sampling_step_def flat_map_def)
  have w: "steady_world utm_init ?g (\<lambda>_. None) flat_world"
    using steady_world_self [of flat_world] by (simp add: flat_world_def)
  obtain tr w' where run: "step_loop (Config_default 4) (flat_map 0) 0 flat_world tr (Inr w')"
    using settled_steps_exist [OF st utm_ok_init step zGetter_flat_map w] by blast
  have tr: "\<forall>x \<in> set (flat_world # tr). w_mesh x = ?g"
    using settled_steps [OF run st utm_ok_init step zGetter_flat_map w] w by (auto simp: steady_world_def)
  have cf: "version2D (Config_default 4) = False" "w_mesh flat_world = ?g"
    by (simp_all add: Config_default_def flat_world_def)
  have res: "\<forall>x \<in> set (flat_world # tr). resolved_mesh (w_mesh x)" using tr sample_resolved by simp
  have good: "good (version2D (Config_default 4)) (w_mesh flat_world)" unfolding cf by (rule sample_good)
  from steps_keep_mesh_good [OF run good res] have
    "good False (w_mesh w') \<and> keeps (abs_mesh ?g) (abs_mesh (w_mesh w'))" unfolding cf by blast
  with run show ?thesis by blast
qed

end
